(* ===== verification/Go_Prelude.thy ===== *)
theory Go_Prelude
  imports Main "HOL-Library.AList" "HOL-Library.Char_ord" "HOL-Library.List_Lexorder"
    "HOL-Library.Multiset" "HOL-Library.Sublist"
begin

text \<open>
  The prelude of the development: what the Go sources use of the language and of its standard
  library, in the form the components need it.

  \<^item> Fallible code returns \<open>'e + 'a\<close>: \<open>Inl\<close> is the error (or the panic), \<open>Inr\<close> the value.
    \<open>bindr\<close> is the \<^verbatim>\<open>if err != nil { return err }\<close> idiom, \<open>foldM\<close> and \<open>mapM\<close> are
    \<^verbatim>\<open>for\<close> loops that stop at the first error.
  \<^item> A Go map is an association list with distinct keys. The order of the list is the order in
    which one \<^verbatim>\<open>range\<close> loop visits the map, which Go leaves open: a theorem for all lists is
    a theorem for all visiting orders.
  \<^item> Go strings are byte strings: \<open>string\<close>, ordered lexicographically by byte value.
  \<^item> \<open>strings.Split\<close>, \<open>SplitN\<close>, \<open>Join\<close>, \<open>HasPrefix\<close>, and the sorting functions.
\<close>

named_theorems go_simps \<open>definitions that unfold to plain HOL\<close>
named_theorems res_simps \<open>inversion of computations that return a result\<close>

section \<open>Results\<close>

type_synonym ('e, 'a) result = "'e + 'a"

fun bindr :: "'e + 'a \<Rightarrow> ('a \<Rightarrow> 'e + 'b) \<Rightarrow> 'e + 'b" where
  "bindr (Inl e) f = Inl e"
| "bindr (Inr x) f = f x"

lemma bindr_Inr [res_simps, simp]: "bindr r f = Inr y \<longleftrightarrow> (\<exists>x. r = Inr x \<and> f x = Inr y)"
  by (cases r) auto

lemma bindr_Inl [res_simps]:
  "bindr r f = Inl e \<longleftrightarrow> r = Inl e \<or> (\<exists>x. r = Inr x \<and> f x = Inl e)"
  by (cases r) auto

lemma bindr_cong [fundef_cong]:
  "r = r' \<Longrightarrow> (\<And>x. r' = Inr x \<Longrightarrow> f x = g x) \<Longrightarrow> bindr r f = bindr r' g"
  by (cases r') auto

fun of_option :: "'e \<Rightarrow> 'a option \<Rightarrow> 'e + 'a" where
  "of_option e None = Inl e"
| "of_option e (Some x) = Inr x"

lemma of_option_Inr [res_simps, simp]: "of_option e x = Inr y \<longleftrightarrow> x = Some y"
  by (cases x) auto

lemma of_option_Inl [res_simps, simp]: "of_option e x = Inl e' \<longleftrightarrow> x = None \<and> e' = e"
  by (cases x) auto

lemma map_sum_Inr_iff [res_simps, simp]: "map_sum f g r = Inr y \<longleftrightarrow> (\<exists>x. r = Inr x \<and> y = g x)"
  by (cases r) auto

lemma map_sum_Inl_iff [res_simps, simp]: "map_sum f g r = Inl e \<longleftrightarrow> (\<exists>x. r = Inl x \<and> e = f x)"
  by (cases r) auto

fun foldM :: "('s \<Rightarrow> 'a \<Rightarrow> 'e + 's) \<Rightarrow> 's \<Rightarrow> 'a list \<Rightarrow> 'e + 's" where
  "foldM f s [] = Inr s"
| "foldM f s (x # xs) = bindr (f s x) (\<lambda>s'. foldM f s' xs)"

lemma foldM_cong [fundef_cong]:
  "s = t \<Longrightarrow> xs = ys \<Longrightarrow> (\<And>s x. x \<in> set ys \<Longrightarrow> f s x = g s x) \<Longrightarrow> foldM f s xs = foldM g t ys"
  by (induction ys arbitrary: s t xs) (auto intro!: bindr_cong)

lemma foldM_append:
  "foldM f s (xs @ ys) = bindr (foldM f s xs) (\<lambda>s'. foldM f s' ys)"
proof (induction xs arbitrary: s)
  case (Cons x xs)
  then show ?case by (cases "f s x") auto
qed simp

lemma foldM_invariant:
  assumes "foldM f s xs = Inr s'" and "I s"
    and "\<And>s x s'. x \<in> set xs \<Longrightarrow> I s \<Longrightarrow> f s x = Inr s' \<Longrightarrow> I s'"
  shows "I s'"
  using assms
proof (induction xs arbitrary: s)
  case (Cons x xs)
  from Cons.prems(1) obtain t where "f s x = Inr t" "foldM f t xs = Inr s'" by auto
  with Cons show ?case by (metis list.set_intros(1,2))
qed simp

fun mapM :: "('a \<Rightarrow> 'e + 'b) \<Rightarrow> 'a list \<Rightarrow> 'e + 'b list" where
  "mapM f [] = Inr []"
| "mapM f (x # xs) = bindr (f x) (\<lambda>y. bindr (mapM f xs) (\<lambda>ys. Inr (y # ys)))"

lemma mapM_cong [fundef_cong]:
  "xs = ys \<Longrightarrow> (\<And>x. x \<in> set ys \<Longrightarrow> f x = g x) \<Longrightarrow> mapM f xs = mapM g ys"
  by (induction ys arbitrary: xs) (auto intro!: bindr_cong)

lemma mapM_Inr: "mapM f xs = Inr ys \<longleftrightarrow> list_all2 (\<lambda>x y. f x = Inr y) xs ys"
  by (induction xs arbitrary: ys) (auto simp: list_all2_Cons1)

lemma mapM_Inr_ex: "(\<exists>ys. mapM f xs = Inr ys) \<longleftrightarrow> (\<forall>x \<in> set xs. \<exists>y. f x = Inr y)"
  by (induction xs) auto

lemma mapM_total: "(\<And>x. x \<in> set xs \<Longrightarrow> f x = Inr (g x)) \<Longrightarrow> mapM f xs = Inr (map g xs)"
  by (induction xs) auto

lemma mapM_set: "mapM f xs = Inr ys \<Longrightarrow> y \<in> set ys \<longleftrightarrow> (\<exists>x \<in> set xs. f x = Inr y)"
  by (induction xs arbitrary: ys) auto

lemma mapM_Inl: "mapM f xs = Inl e \<Longrightarrow> \<exists>x \<in> set xs. f x = Inl e"
proof (induction xs)
  case (Cons x xs)
  then show ?case by (cases "f x"; cases "mapM f xs") auto
qed simp

section \<open>Maps\<close>

type_synonym ('k, 'v) gomap = "('k \<times> 'v) list"

abbreviation gm_get :: "('k, 'v) gomap \<Rightarrow> 'k \<Rightarrow> 'v option" where
  "gm_get \<equiv> map_of"

abbreviation gm_put :: "'k \<Rightarrow> 'v \<Rightarrow> ('k, 'v) gomap \<Rightarrow> ('k, 'v) gomap" where
  "gm_put \<equiv> AList.update"

abbreviation gm_del :: "'k \<Rightarrow> ('k, 'v) gomap \<Rightarrow> ('k, 'v) gomap" where
  "gm_del \<equiv> AList.delete"

abbreviation gm_has :: "('k, 'v) gomap \<Rightarrow> 'k \<Rightarrow> bool" where
  "gm_has m k \<equiv> map_of m k \<noteq> None"

definition gm_wf :: "('k, 'v) gomap \<Rightarrow> bool" where
  "gm_wf m \<longleftrightarrow> distinct (map fst m)"

lemma gm_wf_simps [simp]:
  "gm_wf []" "gm_wf m \<Longrightarrow> gm_wf (gm_put k v m)" "gm_wf m \<Longrightarrow> gm_wf (gm_del k m)"
  by (simp_all add: gm_wf_def distinct_update distinct_delete)

lemma gm_get_put [simp]: "gm_get (gm_put k v m) k' = (if k' = k then Some v else gm_get m k')"
  by (simp add: update_conv')

lemma gm_get_del [simp]: "gm_get (gm_del k m) k' = (if k' = k then None else gm_get m k')"
  by (simp add: delete_conv')

lemma gm_put_ne [simp]: "gm_put k v m \<noteq> []"
  by (cases m) auto

lemma gm_get_Some_iff: "gm_wf m \<Longrightarrow> gm_get m k = Some v \<longleftrightarrow> (k, v) \<in> set m"
  by (auto simp: gm_wf_def)

lemma gm_has_iff: "gm_has m k \<longleftrightarrow> k \<in> fst ` set m"
  by (simp add: map_of_eq_None_iff)

lemma gm_keys_put: "fst ` set (gm_put k v m) = insert k (fst ` set m)"
  by (simp add: update_conv' flip: dom_map_of_conv_image_fst)

lemma gm_set_put:
  "gm_wf m \<Longrightarrow> set (gm_put k v m) = insert (k, v) {e \<in> set m. fst e \<noteq> k}"
proof (induction m)
  case (Cons e m)
  then show ?case by (cases e) (force simp: gm_wf_def)
qed simp

lemma gm_set_del: "set (gm_del k m) = {e \<in> set m. fst e \<noteq> k}"
  by (auto simp: AList.delete_eq)

text \<open>Two lists denote the same map, visited in different orders.\<close>

definition gm_perm :: "('k, 'v) gomap \<Rightarrow> ('k, 'v) gomap \<Rightarrow> bool" where
  "gm_perm m m' \<longleftrightarrow> mset m = mset m'"

lemma gm_perm_get: "gm_wf m \<Longrightarrow> gm_perm m m' \<Longrightarrow> gm_get m' = gm_get m"
  by (metis gm_perm_def gm_wf_def map_of_inject_set mset_eq_imp_distinct_iff mset_map set_mset_mset)

lemma gm_perm_wf: "gm_perm m m' \<Longrightarrow> gm_wf m' = gm_wf m"
  by (metis gm_perm_def gm_wf_def mset_eq_imp_distinct_iff mset_map)

section \<open>Strings\<close>

fun strings_Split :: "char \<Rightarrow> string \<Rightarrow> string list" where
  "strings_Split c [] = [[]]"
| "strings_Split c (x # xs) =
     (if x = c then [] # strings_Split c xs
      else case strings_Split c xs of [] \<Rightarrow> [[x]] | y # ys \<Rightarrow> (x # y) # ys)"

fun strings_Join :: "string \<Rightarrow> string list \<Rightarrow> string" where
  "strings_Join sep [] = []"
| "strings_Join sep [x] = x"
| "strings_Join sep (x # y # ys) = x @ sep @ strings_Join sep (y # ys)"

fun strings_SplitN :: "nat \<Rightarrow> char \<Rightarrow> string \<Rightarrow> string list" where
  "strings_SplitN 0 c s = []"
| "strings_SplitN (Suc 0) c s = [s]"
| "strings_SplitN (Suc (Suc n)) c s =
     (case dropWhile (\<lambda>x. x \<noteq> c) s of
        [] \<Rightarrow> [s]
      | _ # t \<Rightarrow> takeWhile (\<lambda>x. x \<noteq> c) s # strings_SplitN (Suc n) c t)"

definition strings_HasPrefix :: "string \<Rightarrow> string \<Rightarrow> bool" where
  "strings_HasPrefix s p \<longleftrightarrow> take (length p) s = p"

lemma strings_Split_ne [simp]: "strings_Split c s \<noteq> []"
  by (induction s) (auto split: list.splits)

lemma strings_Join_Cons:
  "strings_Join sep (x # xs) = (if xs = [] then x else x @ sep @ strings_Join sep xs)"
  by (cases xs) auto

lemma strings_Join_Split [simp]: "strings_Join [c] (strings_Split c s) = s"
  by (induction s) (auto simp: strings_Join_Cons split: list.splits)

lemma strings_Split_notin: "p \<in> set (strings_Split c s) \<Longrightarrow> c \<notin> set p"
  by (induction s arbitrary: p) (auto split: if_splits list.splits)

lemma strings_Split_noc: "c \<notin> set s \<Longrightarrow> strings_Split c s = [s]"
  by (induction s) auto

lemma strings_Split_append:
  "c \<notin> set s \<Longrightarrow> strings_Split c (s @ c # t) = s # strings_Split c t"
  by (induction s) auto

lemma strings_Split_Join:
  "xs \<noteq> [] \<Longrightarrow> \<forall>x \<in> set xs. c \<notin> set x \<Longrightarrow> strings_Split c (strings_Join [c] xs) = xs"
  by (induction "[c]" xs rule: strings_Join.induct)
    (auto simp: strings_Split_noc strings_Split_append)

section \<open>Sorting\<close>

text \<open>
  \<open>sort.Strings\<close> and \<open>sort.Slice\<close>: the result is sorted and a permutation of the input. For keys
  that are equal the order of \<open>sort.Slice\<close> is not specified; the model keeps the input order, as
  \<open>sort.SliceStable\<close> does.
\<close>

definition sort_Slice :: "('a \<Rightarrow> 'k::linorder) \<Rightarrow> 'a list \<Rightarrow> 'a list" where
  "sort_Slice k xs = sort_key k xs"

definition sort_Strings :: "string list \<Rightarrow> string list" where
  "sort_Strings xs = sort xs"

lemma sort_Slice_props [simp]:
  "mset (sort_Slice k xs) = mset xs" "set (sort_Slice k xs) = set xs"
  "sorted (map k (sort_Slice k xs))" "length (sort_Slice k xs) = length xs"
  by (simp_all add: sort_Slice_def)

lemma sort_Strings_props [simp]:
  "mset (sort_Strings xs) = mset xs" "set (sort_Strings xs) = set xs"
  "sorted (sort_Strings xs)" "length (sort_Strings xs) = length xs"
  by (simp_all add: sort_Strings_def)

section \<open>File paths\<close>

text \<open>
  \<^verbatim>\<open>filepath.Clean\<close> and \<^verbatim>\<open>filepath.Join\<close> on Unix: empty and dot elements are dropped, a dot-dot
  element removes the element before it, and at the root it is dropped.
\<close>

definition path_push :: "bool \<Rightarrow> string \<Rightarrow> string list \<Rightarrow> string list" where
  "path_push rooted e st =
     (if e = [] \<or> e = ''.'' then st
      else if e = ''..'' then
        (if st \<noteq> [] \<and> last st \<noteq> ''..'' then butlast st else if rooted then st else st @ [e])
      else st @ [e])"

definition filepath_Clean :: "string \<Rightarrow> string" where
  "filepath_Clean p =
     (let rooted = strings_HasPrefix p ''/'';
          st = fold (path_push rooted) (strings_Split CHR ''/'' p) [];
          r = (if rooted then ''/'' else []) @ strings_Join ''/'' st
      in if r = [] then ''.'' else r)"

definition filepath_Join :: "string list \<Rightarrow> string" where
  "filepath_Join es =
     (let xs = dropWhile (\<lambda>e. e = []) es
      in if xs = [] then [] else filepath_Clean (strings_Join ''/'' xs))"

end
