(* ===== verification/Go_Json.thy ===== *)
theory Go_Json
  imports Go_Prelude
begin

text \<open>
  What the sources use of \<^verbatim>\<open>encoding/json\<close> and \<^verbatim>\<open>unicode/utf8\<close> of the Go 1.16 standard library:
  quoting and unquoting of strings, the syntax of JSON documents, the compact printer, and the
  rules by which an object is decoded into a struct with string fields. Documents are byte strings.

  \<open>json_parse\<close> runs with twice as much fuel as the input has bytes and one more;
  \<open>parse_value_fuel\<close> shows that more fuel never changes the result. \<open>json_parse_print\<close> is the round trip.
\<close>

section \<open>UTF-8\<close>

definition byte :: "char \<Rightarrow> nat" where
  "byte c = of_char c"

definition utf8_cont :: "nat \<Rightarrow> bool" where
  "utf8_cont b \<longleftrightarrow> 0x80 \<le> b \<and> b \<le> 0xBF"

text \<open>The byte sequences that \<^verbatim>\<open>utf8.DecodeRune\<close> accepts as one rune.\<close>

fun utf8_seq :: "nat list \<Rightarrow> bool" where
  "utf8_seq [b0] \<longleftrightarrow> b0 < 0x80"
| "utf8_seq [b0, b1] \<longleftrightarrow> 0xC2 \<le> b0 \<and> b0 \<le> 0xDF \<and> utf8_cont b1"
| "utf8_seq [b0, b1, b2] \<longleftrightarrow>
     0xE0 \<le> b0 \<and> b0 \<le> 0xEF \<and> utf8_cont b2
     \<and> (if b0 = 0xE0 then 0xA0 else 0x80) \<le> b1 \<and> b1 \<le> (if b0 = 0xED then 0x9F else 0xBF)"
| "utf8_seq [b0, b1, b2, b3] \<longleftrightarrow>
     0xF0 \<le> b0 \<and> b0 \<le> 0xF4 \<and> utf8_cont b2 \<and> utf8_cont b3
     \<and> (if b0 = 0xF0 then 0x90 else 0x80) \<le> b1 \<and> b1 \<le> (if b0 = 0xF4 then 0x8F else 0xBF)"
| "utf8_seq _ \<longleftrightarrow> False"

text \<open>
  The number of bytes of the rune a string starts with; 0 for the empty string and where
  \<^verbatim>\<open>utf8.DecodeRune\<close> answers \<^verbatim>\<open>RuneError\<close>.
\<close>

definition rune_len :: "string \<Rightarrow> nat" where
  "rune_len s =
     (if utf8_seq (map byte (take 1 s)) then 1
      else if utf8_seq (map byte (take 2 s)) then 2
      else if utf8_seq (map byte (take 3 s)) then 3
      else if utf8_seq (map byte (take 4 s)) then 4
      else 0)"

lemma rune_len_Nil [simp]: "rune_len [] = 0"
  by (simp add: rune_len_def)

lemma rune_len_le: "rune_len s \<le> length s"
proof -
  have "utf8_seq (map byte (take (Suc n) s)) \<Longrightarrow> \<not> utf8_seq (map byte (take n s)) \<Longrightarrow> Suc n \<le> length s"
    for n by (rule ccontr) (simp add: not_le)
  from this [of 0] this [of 1] this [of 2] this [of 3] show ?thesis
    by (auto simp: rune_len_def numeral_eq_Suc)
qed

lemma rune_len_ASCII: "byte c < 0x80 \<Longrightarrow> rune_len (c # s) = 1"
  by (simp add: rune_len_def)

lemma rune_len_cases: "rune_len s \<in> {0, 1, 2, 3, 4}"
  unfolding rune_len_def by simp

lemma rune_len_seq: "rune_len s \<noteq> 0 \<Longrightarrow> utf8_seq (map byte (take (rune_len s) s))"
  unfolding rune_len_def by (simp split: if_split_asm)

lemma utf8_seq_high: "utf8_seq bs \<Longrightarrow> \<not> hd bs < 0x80 \<Longrightarrow> \<forall>b \<in> set bs. 0x80 \<le> b"
  by (cases bs rule: utf8_seq.cases) (auto simp: utf8_cont_def split: if_splits)

lemma rune_len_high:
  assumes "\<not> byte c < 0x80" "rune_len (c # s) \<noteq> 0"
  shows "\<forall>d \<in> set (take (rune_len (c # s)) (c # s)). 0x80 \<le> byte d"
  using utf8_seq_high [OF rune_len_seq [OF assms(2)]] assms by (simp add: take_Cons')

lemma rune_len_cong:
  assumes "rune_len s \<noteq> 0" and "\<And>k. k \<le> rune_len s \<Longrightarrow> take k u = take k s"
  shows "rune_len u = rune_len s"
proof -
  let ?v = "\<lambda>k s. utf8_seq (map byte (take k s))"
  have v: "?v k u = ?v k s" if "k \<le> rune_len s" for k
    using assms(2) [OF that] by simp
  show ?thesis
  proof (cases "?v 1 s")
    case True
    then have "rune_len s = 1" by (simp add: rune_len_def)
    with v [of 1] True show ?thesis by (simp add: rune_len_def [of u])
  next
    case 1: False
    show ?thesis
    proof (cases "?v 2 s")
      case True
      with 1 have "rune_len s = 2" by (simp add: rune_len_def)
      with v [of 1] v [of 2] 1 True show ?thesis by (simp add: rune_len_def [of u])
    next
      case 2: False
      show ?thesis
      proof (cases "?v 3 s")
        case True
        with 1 2 have "rune_len s = 3" by (simp add: rune_len_def)
        with v [of 1] v [of 2] v [of 3] 1 2 True show ?thesis by (simp add: rune_len_def [of u])
      next
        case 3: False
        with 1 2 assms(1) have "rune_len s = 4" and "?v 4 s"
          by (simp_all add: rune_len_def split: if_splits)
        with v [of 1] v [of 2] v [of 3] v [of 4] 1 2 3 show ?thesis
          by (simp add: rune_len_def [of u])
      qed
    qed
  qed
qed

lemma rune_len_local:
  assumes "rune_len s \<noteq> 0"
  shows "rune_len (take (rune_len s) s @ t) = rune_len s"
  using rune_len_le [of s] by (intro rune_len_cong [OF assms]) (simp add: min_def)

function valid_utf8 :: "string \<Rightarrow> bool" where
  "valid_utf8 [] \<longleftrightarrow> True"
| "valid_utf8 (c # s) \<longleftrightarrow>
     (if rune_len (c # s) = 0 then False else valid_utf8 (drop (rune_len (c # s)) (c # s)))"
  by pat_completeness auto
termination
  apply (relation "measure length")
   apply simp
  subgoal for c s using rune_len_le [of "c # s"] by simp
  done

declare valid_utf8.simps(2) [simp del]

lemma valid_utf8_ASCII: "\<forall>c \<in> set s. byte c < 0x80 \<Longrightarrow> valid_utf8 s"
  by (induction s) (simp_all add: valid_utf8.simps(2) rune_len_ASCII)

section \<open>Quoted strings\<close>

definition hex_digit :: "nat \<Rightarrow> char" where
  "hex_digit n = (''0123456789abcdef'' ! n)"

definition hex_value :: "char \<Rightarrow> nat option" where
  "hex_value c = (let b = byte c in
     if 48 \<le> b \<and> b \<le> 57 then Some (b - 48)
     else if 97 \<le> b \<and> b \<le> 102 then Some (b - 87)
     else if 65 \<le> b \<and> b \<le> 70 then Some (b - 55)
     else None)"

lemma hex_value_digit: "n < 16 \<Longrightarrow> hex_value (hex_digit n) = Some n"
  by (auto simp: hex_digit_def hex_value_def byte_def less_Suc_eq numeral_eq_Suc)

text \<open>\<^verbatim>\<open>getu4\<close>: the number of a \<^verbatim>\<open>\uXXXX\<close> escape, from its four digits.\<close>

fun hex4 :: "string \<Rightarrow> (nat \<times> string) option" where
  "hex4 (a # b # c # d # s) =
     (case (hex_value a, hex_value b, hex_value c, hex_value d) of
        (Some w, Some x, Some y, Some z) \<Rightarrow> Some (w * 4096 + x * 256 + y * 16 + z, s)
      | _ \<Rightarrow> None)"
| "hex4 _ = None"

lemma hex4_length: "hex4 s = Some (n, t) \<Longrightarrow> length s = length t + 4"
  by (induction s rule: hex4.induct) (auto split: option.splits)

lemma hex4_append: "hex4 s = Some (n, t) \<Longrightarrow> hex4 (s @ u) = Some (n, t @ u)"
  by (induction s rule: hex4.induct) (auto split: option.splits)

text \<open>\<^verbatim>\<open>utf8.EncodeRune\<close>; surrogates and numbers out of range become U+FFFD.\<close>

definition replacement_char :: string where
  "replacement_char = [char_of (0xEF::nat), char_of (0xBF::nat), char_of (0xBD::nat)]"

definition encode_rune :: "nat \<Rightarrow> string" where
  "encode_rune r =
     (if r < 0x80 then [char_of r]
      else if r < 0x800 then [char_of (0xC0 + r div 64), char_of (0x80 + r mod 64)]
      else if 0xD800 \<le> r \<and> r \<le> 0xDFFF \<or> 0x10FFFF < r then replacement_char
      else if r < 0x10000 then
        [char_of (0xE0 + r div 4096), char_of (0x80 + r div 64 mod 64), char_of (0x80 + r mod 64)]
      else [char_of (0xF0 + r div 262144), char_of (0x80 + r div 4096 mod 64),
            char_of (0x80 + r div 64 mod 64), char_of (0x80 + r mod 64)])"

text \<open>
  The text of a string literal after its opening quote: the decoded bytes and what follows the
  closing quote. Bytes that are not UTF-8 become U+FFFD, a surrogate pair of escapes one rune,
  a lone surrogate U+FFFD.
\<close>

definition simple_escape :: "char \<Rightarrow> char option" where
  "simple_escape c =
     (if c = CHR 0x22 \<or> c = CHR 0x5C \<or> c = CHR ''/'' then Some c
      else if c = CHR ''b'' then Some (CHR 0x08)
      else if c = CHR ''f'' then Some (CHR 0x0C)
      else if c = CHR ''n'' then Some (CHR 0x0A)
      else if c = CHR ''r'' then Some (CHR 0x0D)
      else if c = CHR ''t'' then Some (CHR 0x09)
      else None)"

definition unquote_u :: "string \<Rightarrow> (string \<times> string) option" where
  "unquote_u s =
     (case hex4 s of
        None \<Rightarrow> None
      | Some (r, t) \<Rightarrow>
          if 0xD800 \<le> r \<and> r \<le> 0xDFFF then
            (case t of
               b # u # t' \<Rightarrow>
                 (case (if b = CHR 0x5C \<and> u = CHR ''u'' then hex4 t' else None) of
                    Some (r', t'') \<Rightarrow>
                      if r \<le> 0xDBFF \<and> 0xDC00 \<le> r' \<and> r' \<le> 0xDFFF
                      then Some (encode_rune ((r - 0xD800) * 1024 + (r' - 0xDC00) + 0x10000), t'')
                      else Some (replacement_char, t)
                  | None \<Rightarrow> Some (replacement_char, t))
             | _ \<Rightarrow> Some (replacement_char, t))
          else Some (encode_rune r, t))"

lemma unquote_u_length: "unquote_u s = Some (x, t) \<Longrightarrow> length t < length s"
  by (auto simp: unquote_u_def split: option.splits list.splits if_splits dest!: hex4_length)

function unquote :: "string \<Rightarrow> (string \<times> string) option" where
  "unquote [] = None"
| "unquote (c # s) =
     (if c = CHR 0x22 then Some ([], s)
      else if c = CHR 0x5C then
        (case s of
           [] \<Rightarrow> None
         | e # t \<Rightarrow>
             if e = CHR ''u'' then
               (case unquote_u t of
                  None \<Rightarrow> None
                | Some (x, t') \<Rightarrow> map_option (\<lambda>(y, r). (x @ y, r)) (unquote t'))
             else (case simple_escape e of
                     None \<Rightarrow> None
                   | Some d \<Rightarrow> map_option (\<lambda>(y, r). (d # y, r)) (unquote t)))
      else if byte c < 0x20 then None
      else if rune_len (c # s) = 0 then map_option (\<lambda>(y, r). (replacement_char @ y, r)) (unquote s)
      else map_option (\<lambda>(y, r). (take (rune_len (c # s)) (c # s) @ y, r))
             (unquote (drop (rune_len (c # s)) (c # s))))"
  by pat_completeness auto
termination
  apply (relation "measure length")
      apply simp
  subgoal by (auto dest!: unquote_u_length)
  subgoal by simp
  subgoal by simp
  subgoal for c s using rune_len_le [of "c # s"] by simp
  done

declare unquote.simps(2) [simp del]

text \<open>
  Quoting, with or without the escapes of HTML characters that \<^verbatim>\<open>json.Marshal\<close> writes and an encoder
  with \<^verbatim>\<open>SetEscapeHTML(false)\<close> does not. U+2028 and U+2029 are always escaped.
\<close>

definition quote_byte :: "bool \<Rightarrow> char \<Rightarrow> string" where
  "quote_byte html c =
     (if c = CHR 0x22 \<or> c = CHR 0x5C then [CHR 0x5C, c]
      else if c = CHR 0x0A then [CHR 0x5C, CHR ''n'']
      else if c = CHR 0x0D then [CHR 0x5C, CHR ''r'']
      else if c = CHR 0x09 then [CHR 0x5C, CHR ''t'']
      else if byte c < 0x20 \<or> html \<and> (c = CHR ''<'' \<or> c = CHR ''>'' \<or> c = CHR ''&'')
      then [CHR 0x5C, CHR ''u'', CHR ''0'', CHR ''0'', hex_digit (byte c div 16), hex_digit (byte c mod 16)]
      else [c])"

function quote_body :: "bool \<Rightarrow> string \<Rightarrow> string" where
  "quote_body html [] = []"
| "quote_body html (c # s) =
     (if byte c < 0x80 then quote_byte html c @ quote_body html s
      else if rune_len (c # s) = 0 then [CHR 0x5C, CHR ''u'', CHR ''f'', CHR ''f'', CHR ''f'', CHR ''d''] @ quote_body html s
      else
        (let r = take (rune_len (c # s)) (c # s)
         in if map byte r = [0xE2, 0x80, 0xA8] then [CHR 0x5C, CHR ''u'', CHR ''2'', CHR ''0'', CHR ''2'', CHR ''8'']
            else if map byte r = [0xE2, 0x80, 0xA9] then [CHR 0x5C, CHR ''u'', CHR ''2'', CHR ''0'', CHR ''2'', CHR ''9'']
            else r)
        @ quote_body html (drop (rune_len (c # s)) (c # s)))"
  by pat_completeness auto
termination
  apply (relation "measure (length \<circ> snd)")
     apply simp
  subgoal by simp
  subgoal by simp
  subgoal for html c s using rune_len_le [of "c # s"] by simp
  done

declare quote_body.simps(2) [simp del]

definition quote :: "bool \<Rightarrow> string \<Rightarrow> string" where
  "quote html s = CHR 0x22 # quote_body html s @ [CHR 0x22]"

lemma unquote_quote_byte:
  assumes "byte c < 0x80"
  shows "unquote (quote_byte html c @ t) = map_option (\<lambda>(y, r). (c # y, r)) (unquote t)"
proof -
  consider "c = CHR 0x22" | "c = CHR 0x5C" | "c = CHR 0x0A" | "c = CHR 0x0D" | "c = CHR 0x09"
    | (hex) "c \<notin> {CHR 0x22, CHR 0x5C, CHR 0x0A, CHR 0x0D, CHR 0x09}"
        "byte c < 0x20 \<or> html \<and> (c = CHR ''<'' \<or> c = CHR ''>'' \<or> c = CHR ''&'')"
    | (plain) "c \<notin> {CHR 0x22, CHR 0x5C, CHR 0x0A, CHR 0x0D, CHR 0x09}"
        "\<not> (byte c < 0x20 \<or> html \<and> (c = CHR ''<'' \<or> c = CHR ''>'' \<or> c = CHR ''&''))"
    by blast
  then show ?thesis
  proof cases
    case hex
    have "hex_value CHR ''0'' = Some 0" by (simp add: hex_value_def byte_def)
    then have "hex4 (CHR ''0'' # CHR ''0'' # hex_digit (byte c div 16) # hex_digit (byte c mod 16) # t)
        = Some (byte c, t)"
      using assms by (simp add: hex_value_digit)
    then have "unquote_u (CHR ''0'' # CHR ''0'' # hex_digit (byte c div 16) # hex_digit (byte c mod 16) # t)
        = Some ([c], t)"
      using assms by (simp add: unquote_u_def encode_rune_def byte_def)
    with hex show ?thesis by (simp add: unquote.simps(2) quote_byte_def)
  next
    case plain
    then show ?thesis using assms by (auto simp: unquote.simps(2) rune_len_ASCII quote_byte_def)
  qed (simp_all add: quote_byte_def unquote.simps(2) simple_escape_def)
qed

lemma unquote_rune:
  assumes "\<not> byte c < 0x80" and "rune_len (c # s) = n" and "n \<noteq> 0"
  shows "unquote (take n (c # s) @ t) = map_option (\<lambda>(y, r). (take n (c # s) @ y, r)) (unquote t)"
proof -
  obtain m where n: "n = Suc m" using assms(3) by (cases n) auto
  have len: "n \<le> length (c # s)" using rune_len_le [of "c # s"] assms(2) by simp
  have "rune_len (take n (c # s) @ t) = n"
    using rune_len_local [of "c # s" t] assms by simp
  moreover have "c \<noteq> CHR 0x22" "c \<noteq> CHR 0x5C" using assms(1) by (auto simp: byte_def)
  ultimately show ?thesis
    using assms(1) len unfolding n by (simp add: unquote.simps(2) min_def)
qed

lemma unquote_2028:
  assumes "map byte r = [0xE2, 0x80, 0xA8]"
  shows "unquote ([CHR 0x5C, CHR ''u'', CHR ''2'', CHR ''0'', CHR ''2'', CHR ''8''] @ t)
     = map_option (\<lambda>(y, q). (r @ y, q)) (unquote t)"
proof -
  have "r = map char_of (map byte r)" by (simp add: byte_def comp_def)
  then have r: "r = [char_of (0xE2::nat), char_of (0x80::nat), char_of (0xA8::nat)]"
    using assms by simp
  have "unquote_u (''2028'' @ t) = Some (r, t)"
    by (simp add: unquote_u_def hex_value_def byte_def encode_rune_def r)
  then show ?thesis by (simp add: unquote.simps(2))
qed

lemma unquote_2029:
  assumes "map byte r = [0xE2, 0x80, 0xA9]"
  shows "unquote ([CHR 0x5C, CHR ''u'', CHR ''2'', CHR ''0'', CHR ''2'', CHR ''9''] @ t)
     = map_option (\<lambda>(y, q). (r @ y, q)) (unquote t)"
proof -
  have "r = map char_of (map byte r)" by (simp add: byte_def comp_def)
  then have r: "r = [char_of (0xE2::nat), char_of (0x80::nat), char_of (0xA9::nat)]"
    using assms by simp
  have "unquote_u (''2029'' @ t) = Some (r, t)"
    by (simp add: unquote_u_def hex_value_def byte_def encode_rune_def r)
  then show ?thesis by (simp add: unquote.simps(2))
qed

lemma unquote_quote_body:
  "valid_utf8 s \<Longrightarrow> unquote (quote_body html s @ CHR 0x22 # t) = Some (s, t)"
proof (induction html s rule: quote_body.induct)
  case (1 html)
  then show ?case by (simp add: unquote.simps(2))
next
  case (2 html c s)
  let ?n = "rune_len (c # s)"
  from 2(4) have n: "?n \<noteq> 0" and v: "valid_utf8 (drop ?n (c # s))"
    by (auto simp: valid_utf8.simps(2) split: if_splits)
  show ?case
  proof (cases "byte c < 0x80")
    case True
    with v have "valid_utf8 s" by (simp add: rune_len_ASCII)
    with 2(1) True show ?thesis by (simp add: quote_body.simps(2) unquote_quote_byte)
  next
    case False
    let ?r = "take ?n (c # s)"
    have IH: "unquote (quote_body html (drop ?n (c # s)) @ CHR 0x22 # t) = Some (drop ?n (c # s), t)"
      using 2(3) False n v by blast
    have join: "?r @ drop ?n (c # s) = c # s" by (rule append_take_drop_id)
    consider "map byte ?r = [0xE2, 0x80, 0xA8]" | "map byte ?r = [0xE2, 0x80, 0xA9]"
      | "map byte ?r \<noteq> [0xE2, 0x80, 0xA8]" "map byte ?r \<noteq> [0xE2, 0x80, 0xA9]"
      by blast
    then show ?thesis
    proof cases
      case 1
      with False n show ?thesis
        using unquote_2028 [OF 1, of "quote_body html (drop ?n (c # s)) @ CHR 0x22 # t"] IH join
        by (simp add: quote_body.simps(2) Let_def)
    next
      case 2
      with False n show ?thesis
        using unquote_2029 [OF 2, of "quote_body html (drop ?n (c # s)) @ CHR 0x22 # t"] IH join
        by (simp add: quote_body.simps(2) Let_def)
    next
      case 3
      with False n have "quote_body html (c # s) = ?r @ quote_body html (drop ?n (c # s))"
        by (simp add: quote_body.simps(2) Let_def)
      with IH join show ?thesis
        using unquote_rune [OF False refl n, of "quote_body html (drop ?n (c # s)) @ CHR 0x22 # t"]
        by simp
    qed
  qed
qed

section \<open>Values and documents\<close>

text \<open>A number keeps its literal; an object keeps its members in order, duplicates included.\<close>

datatype json = JNull | JBool bool | JNum string | JStr string | JArr "json list"
  | JObj "(string \<times> json) list"

fun json_depth :: "json \<Rightarrow> nat" where
  "json_depth (JArr vs) = Suc (fold max (map json_depth vs) 0)"
| "json_depth (JObj ms) = Suc (fold max (map (\<lambda>m. json_depth (snd m)) ms) 0)"
| "json_depth _ = 0"

definition is_ws :: "char \<Rightarrow> bool" where
  "is_ws c \<longleftrightarrow> c = CHR '' '' \<or> c = CHR 0x09 \<or> c = CHR 0x0A \<or> c = CHR 0x0D"

definition skip_ws :: "string \<Rightarrow> string" where
  "skip_ws s = dropWhile is_ws s"

lemma skip_ws_length: "length (skip_ws s) \<le> length s"
  by (simp add: skip_ws_def length_dropWhile_le)

lemma skip_ws_Cons: "\<not> is_ws c \<Longrightarrow> skip_ws (c # s) = c # s"
  by (simp add: skip_ws_def)

lemma skip_ws_Nil [simp]: "skip_ws [] = []"
  by (simp add: skip_ws_def)

lemma skip_ws_lengthD: "skip_ws s = c # t \<Longrightarrow> length t < length s"
  using skip_ws_length [of s] by simp

definition is_digit :: "char \<Rightarrow> bool" where
  "is_digit c \<longleftrightarrow> 48 \<le> byte c \<and> byte c \<le> 57"

text \<open>Numbers: an optional minus, an integer part without leading zeros, a fraction, an exponent.\<close>

definition scan_int :: "string \<Rightarrow> (string \<times> string) option" where
  "scan_int s =
     (case s of
        [] \<Rightarrow> None
      | c # t \<Rightarrow> if c = CHR ''0'' then Some ([c], t)
                else if is_digit c then Some (takeWhile is_digit s, dropWhile is_digit s)
                else None)"

definition scan_digits :: "string \<Rightarrow> (string \<times> string) option" where
  "scan_digits s =
     (if takeWhile is_digit s = [] then None else Some (takeWhile is_digit s, dropWhile is_digit s))"

definition scan_frac :: "string \<Rightarrow> (string \<times> string) option" where
  "scan_frac s =
     (case s of
        c # t \<Rightarrow> if c = CHR ''.'' then map_option (\<lambda>(d, r). (c # d, r)) (scan_digits t) else Some ([], s)
      | [] \<Rightarrow> Some ([], s))"

definition scan_exp :: "string \<Rightarrow> (string \<times> string) option" where
  "scan_exp s =
     (case s of
        c # t \<Rightarrow>
          if c = CHR ''e'' \<or> c = CHR ''E'' then
            (case t of
               g # u \<Rightarrow> if g = CHR ''+'' \<or> g = CHR ''-''
                        then map_option (\<lambda>(d, r). (c # g # d, r)) (scan_digits u)
                        else map_option (\<lambda>(d, r). (c # d, r)) (scan_digits t)
             | [] \<Rightarrow> None)
          else Some ([], s)
      | [] \<Rightarrow> Some ([], s))"

definition scan_number :: "string \<Rightarrow> (string \<times> string) option" where
  "scan_number s =
     (let (m, s0) = (case s of c # t \<Rightarrow> if c = CHR ''-'' then ([c], t) else ([], s) | [] \<Rightarrow> ([], s))
      in case scan_int s0 of None \<Rightarrow> None
         | Some (i, s1) \<Rightarrow>
             (case scan_frac s1 of None \<Rightarrow> None
              | Some (f, s2) \<Rightarrow>
                  map_option (\<lambda>(e, s3). (m @ i @ f @ e, s3)) (scan_exp s2)))"

definition scan_literal :: "string \<Rightarrow> string \<Rightarrow> string option" where
  "scan_literal l s = (if take (length l) s = l then Some (drop (length l) s) else None)"

text \<open>
  \<open>parse_value\<close> reads one value; \<open>parse_elems\<close> and \<open>parse_members\<close> the rest of an array or object
  that is not empty, up to and including its closing bracket. Every call spends a unit of fuel.
\<close>

fun parse_value :: "nat \<Rightarrow> string \<Rightarrow> (json \<times> string) option"
and parse_elems :: "nat \<Rightarrow> string \<Rightarrow> (json list \<times> string) option"
and parse_members :: "nat \<Rightarrow> string \<Rightarrow> ((string \<times> json) list \<times> string) option" where
  "parse_value 0 s = None"
| "parse_value (Suc n) s =
     (case skip_ws s of
        [] \<Rightarrow> None
      | c # t \<Rightarrow>
          if c = CHR ''{'' then
            (case skip_ws t of
               [] \<Rightarrow> None
             | d # u \<Rightarrow> if d = CHR ''}'' then Some (JObj [], u)
                       else map_option (\<lambda>(ms, r). (JObj ms, r)) (parse_members n (d # u)))
          else if c = CHR ''['' then
            (case skip_ws t of
               [] \<Rightarrow> None
             | d # u \<Rightarrow> if d = CHR '']'' then Some (JArr [], u)
                       else map_option (\<lambda>(vs, r). (JArr vs, r)) (parse_elems n (d # u)))
          else if c = CHR 0x22 then map_option (\<lambda>(x, r). (JStr x, r)) (unquote t)
          else if c = CHR ''t'' then map_option (\<lambda>r. (JBool True, r)) (scan_literal ''true'' (c # t))
          else if c = CHR ''f'' then map_option (\<lambda>r. (JBool False, r)) (scan_literal ''false'' (c # t))
          else if c = CHR ''n'' then map_option (\<lambda>r. (JNull, r)) (scan_literal ''null'' (c # t))
          else map_option (\<lambda>(l, r). (JNum l, r)) (scan_number (c # t)))"
| "parse_elems 0 s = None"
| "parse_elems (Suc n) s =
     (case parse_value n s of
        None \<Rightarrow> None
      | Some (v, t) \<Rightarrow>
          (case skip_ws t of
             [] \<Rightarrow> None
           | c # u \<Rightarrow> if c = CHR '','' then map_option (\<lambda>(vs, r). (v # vs, r)) (parse_elems n u)
                     else if c = CHR '']'' then Some ([v], u)
                     else None))"
| "parse_members 0 s = None"
| "parse_members (Suc n) s =
     (case skip_ws s of
        [] \<Rightarrow> None
      | q # s1 \<Rightarrow>
          (case (if q = CHR 0x22 then unquote s1 else None) of
             None \<Rightarrow> None
           | Some (k, s2) \<Rightarrow>
               (case skip_ws s2 of
                  [] \<Rightarrow> None
                | d # s3 \<Rightarrow>
                    (case (if d = CHR '':'' then parse_value n s3 else None) of
                       None \<Rightarrow> None
                     | Some (v, s4) \<Rightarrow>
                         (case skip_ws s4 of
                            [] \<Rightarrow> None
                          | c # u \<Rightarrow>
                              if c = CHR '','' then map_option (\<lambda>(ms, r). ((k, v) # ms, r)) (parse_members n u)
                              else if c = CHR ''}'' then Some ([(k, v)], u)
                              else None)))))"

text \<open>
  A document is one value with white space around it, nested at most as deep as the decoder's
  \<^verbatim>\<open>maxNestingDepth\<close> allows.
\<close>

definition json_parse :: "string \<Rightarrow> json option" where
  "json_parse s =
     (case parse_value (Suc (2 * length s)) s of
        None \<Rightarrow> None
      | Some (v, r) \<Rightarrow> if skip_ws r = [] \<and> json_depth v \<le> 10000 then Some v else None)"

definition json_valid :: "string \<Rightarrow> bool" where
  "json_valid s \<longleftrightarrow> json_parse s \<noteq> None"

lemma unquote_length: "unquote s = Some (x, t) \<Longrightarrow> length t < length s"
proof (induction s arbitrary: x t rule: unquote.induct)
  case (2 c s)
  have "length (drop (rune_len (c # s)) (c # s)) \<le> length (c # s)" by simp
  with 2 show ?case
    by (simp add: unquote.simps(2) split: if_splits list.splits option.splits)
      (fastforce dest: unquote_u_length)+
qed simp

lemma dropWhile_shorter: "takeWhile P s \<noteq> [] \<Longrightarrow> length (dropWhile P s) < length s"
  by (cases s) (auto simp: less_Suc_eq_le length_dropWhile_le split: if_splits)

lemma scan_int_length: "scan_int s = Some (i, t) \<Longrightarrow> length t < length s"
  by (cases s) (auto simp: scan_int_def less_Suc_eq_le length_dropWhile_le split: if_splits)

lemma scan_digits_length: "scan_digits s = Some (i, t) \<Longrightarrow> length t < length s"
  by (auto simp: scan_digits_def dropWhile_shorter split: if_splits)

lemma scan_frac_length: "scan_frac s = Some (i, t) \<Longrightarrow> length t \<le> length s"
  by (auto simp: scan_frac_def split: list.splits if_splits dest!: scan_digits_length)

lemma scan_exp_length: "scan_exp s = Some (i, t) \<Longrightarrow> length t \<le> length s"
  by (auto simp: scan_exp_def split: list.splits if_splits dest!: scan_digits_length)

lemma scan_number_length: "scan_number s = Some (l, t) \<Longrightarrow> length t < length s"
  by (auto simp: scan_number_def split: list.splits if_splits option.splits
      dest!: scan_int_length scan_frac_length scan_exp_length)

lemma scan_literal_length: "scan_literal l s = Some t \<Longrightarrow> l \<noteq> [] \<Longrightarrow> length t < length s"
  by (cases s) (auto simp: scan_literal_def split: if_splits)

lemmas scan_lengths = unquote_length scan_number_length scan_literal_length skip_ws_lengthD

lemma parse_length_all:
  "(\<forall>s v t. parse_value n s = Some (v, t) \<longrightarrow> length t < length s) \<and>
   (\<forall>s vs t. parse_elems n s = Some (vs, t) \<longrightarrow> length t < length s) \<and>
   (\<forall>s ms t. parse_members n s = Some (ms, t) \<longrightarrow> length t < length s)"
proof (induction n)
  case (Suc n)
  have "length t < length s" if "parse_value (Suc n) s = Some (v, t)" for s v t
    using that Suc by (fastforce split: list.splits if_splits dest!: scan_lengths)
  moreover have "length t < length s" if "parse_elems (Suc n) s = Some (vs, t)" for s vs t
    using that Suc by (fastforce split: list.splits if_splits option.splits dest!: scan_lengths)
  moreover have "length t < length s" if "parse_members (Suc n) s = Some (ms, t)" for s ms t
    using that Suc by (fastforce split: list.splits if_splits option.splits dest!: scan_lengths)
  ultimately show ?case by blast
qed simp

lemma parse_length:
  "parse_value n s = Some (v, t) \<Longrightarrow> length t < length s"
  "parse_elems n s = Some (vs, t) \<Longrightarrow> length t < length s"
  "parse_members n s = Some (ms, t) \<Longrightarrow> length t < length s"
  using parse_length_all by blast+

text \<open>More fuel than twice the input's length never changes what the parser returns.\<close>

definition fuel_irrelevant :: "nat \<Rightarrow> nat \<Rightarrow> string \<Rightarrow> bool" where
  "fuel_irrelevant n m s \<longleftrightarrow>
     (2 * length s < n \<longrightarrow> 2 * length s < m \<longrightarrow> parse_value n s = parse_value m s) \<and>
     (2 * length s + 1 < n \<longrightarrow> 2 * length s + 1 < m \<longrightarrow>
        parse_elems n s = parse_elems m s \<and> parse_members n s = parse_members m s)"

lemma fuel_irrelevantD:
  "fuel_irrelevant n m s \<Longrightarrow> 2 * length s < n \<Longrightarrow> 2 * length s < m \<Longrightarrow> parse_value n s = parse_value m s"
  "fuel_irrelevant n m s \<Longrightarrow> 2 * length s + 1 < n \<Longrightarrow> 2 * length s + 1 < m \<Longrightarrow>
     parse_elems n s = parse_elems m s"
  "fuel_irrelevant n m s \<Longrightarrow> 2 * length s + 1 < n \<Longrightarrow> 2 * length s + 1 < m \<Longrightarrow>
     parse_members n s = parse_members m s"
  by (auto simp: fuel_irrelevant_def)

lemma parse_value_fuel_step:
  assumes IH: "\<And>u. fuel_irrelevant n m u" and n: "2 * length s < Suc n" "2 * length s < Suc m"
  shows "parse_value (Suc n) s = parse_value (Suc m) s"
proof (cases "skip_ws s")
  case (Cons c t)
  have eq: "parse_elems n u = parse_elems m u" "parse_members n u = parse_members m u"
    if "length u < length s" for u
    using n that by (auto intro!: fuel_irrelevantD IH)
  have "length (skip_ws t) < length s"
    using Cons skip_ws_length [of t] by (meson le_less_trans skip_ws_lengthD)
  with Cons show ?thesis
    by (cases "skip_ws t") (simp_all add: eq)
qed simp

lemma parse_elems_fuel_step:
  assumes IH: "\<And>u. fuel_irrelevant n m u" and n: "2 * length s + 1 < Suc n" "2 * length s + 1 < Suc m"
  shows "parse_elems (Suc n) s = parse_elems (Suc m) s"
proof -
  have eq: "parse_elems n u = parse_elems m u" if "length u < length s" for u
    using n that by (auto intro!: fuel_irrelevantD IH)
  have v: "parse_value n s = parse_value m s"
    using n by (auto intro!: fuel_irrelevantD IH)
  have "parse_elems n u = parse_elems m u" if "parse_value m s = Some (v, t)" "skip_ws t = c # u" for v t c u
    using parse_length(1) [OF that(1)] skip_ws_lengthD [OF that(2)] by (simp add: eq)
  with v show ?thesis
    by (simp split: option.split list.split)
qed

lemma parse_members_fuel_step:
  assumes IH: "\<And>u. fuel_irrelevant n m u" and n: "2 * length s + 1 < Suc n" "2 * length s + 1 < Suc m"
  shows "parse_members (Suc n) s = parse_members (Suc m) s"
proof -
  have eq: "parse_members n u = parse_members m u" "parse_value n u = parse_value m u"
    if "length u < length s" for u
    using n that by (auto intro!: fuel_irrelevantD IH)
  have "parse_value n s3 = parse_value m s3"
    if "skip_ws s = q # s1" "unquote s1 = Some (k, s2)" "skip_ws s2 = d # s3" for q s1 k s2 d s3
    using skip_ws_lengthD [OF that(1)] unquote_length [OF that(2)] skip_ws_lengthD [OF that(3)]
    by (simp add: eq)
  moreover have "parse_members n u = parse_members m u"
    if "skip_ws s = q # s1" "unquote s1 = Some (k, s2)" "skip_ws s2 = d # s3"
      "parse_value m s3 = Some (v, s4)" "skip_ws s4 = c # u" for q s1 k s2 d s3 v s4 c u
    using skip_ws_lengthD [OF that(1)] unquote_length [OF that(2)] skip_ws_lengthD [OF that(3)]
      parse_length(1) [OF that(4)] skip_ws_lengthD [OF that(5)]
    by (simp add: eq)
  ultimately show ?thesis
    by (simp split: option.split list.split)
qed

lemma fuel_irrelevant_all: "fuel_irrelevant n m s"
proof (induction n arbitrary: m s)
  case (Suc n)
  show ?case
  proof (cases m)
    case (Suc m')
    show ?thesis
      unfolding Suc fuel_irrelevant_def
      by (intro conjI impI) (fact parse_value_fuel_step [OF Suc.IH] parse_elems_fuel_step [OF Suc.IH]
          parse_members_fuel_step [OF Suc.IH])+
  qed (simp add: fuel_irrelevant_def)
qed (simp add: fuel_irrelevant_def)

lemma parse_value_fuel:
  "2 * length s < n \<Longrightarrow> parse_value n s = parse_value (Suc (2 * length s)) s"
  by (rule fuel_irrelevantD(1) [OF fuel_irrelevant_all]) simp_all

section \<open>Printing\<close>

text \<open>
  The text \<^verbatim>\<open>json.Marshal\<close> writes for a value (\<open>html = True\<close>), and the one an encoder with
  \<^verbatim>\<open>SetEscapeHTML(false)\<close> writes (\<open>html = False\<close>), without white space.
\<close>

fun json_print :: "bool \<Rightarrow> json \<Rightarrow> string" where
  "json_print html JNull = ''null''"
| "json_print html (JBool b) = (if b then ''true'' else ''false'')"
| "json_print html (JNum l) = l"
| "json_print html (JStr s) = quote html s"
| "json_print html (JArr vs) = ''['' @ strings_Join '','' (map (json_print html) vs) @ '']''"
| "json_print html (JObj ms) =
     ''{'' @ strings_Join '','' (map (\<lambda>m. quote html (fst m) @ '':'' @ json_print html (snd m)) ms) @ ''}''"

text \<open>The values a program can build: strings are UTF-8, number literals are literals.\<close>

fun json_wf :: "json \<Rightarrow> bool" where
  "json_wf (JNum l) \<longleftrightarrow> scan_number l = Some (l, [])"
| "json_wf (JStr s) \<longleftrightarrow> valid_utf8 s"
| "json_wf (JArr vs) \<longleftrightarrow> list_all json_wf vs"
| "json_wf (JObj ms) \<longleftrightarrow> list_all (\<lambda>m. valid_utf8 (fst m) \<and> json_wf (snd m)) ms"
| "json_wf _ \<longleftrightarrow> True"

definition ends_number :: "string \<Rightarrow> bool" where
  "ends_number r \<longleftrightarrow>
     (case r of [] \<Rightarrow> True | c # _ \<Rightarrow> \<not> is_digit c \<and> c \<noteq> CHR ''.'' \<and> c \<noteq> CHR ''e'' \<and> c \<noteq> CHR ''E'')"

lemma ends_number_simps [simp]:
  "ends_number []" "ends_number (CHR '','' # r)" "ends_number (CHR '']'' # r)" "ends_number (CHR ''}'' # r)"
  by (simp_all add: ends_number_def is_digit_def byte_def)

lemma digits_append:
  "ends_number r \<Longrightarrow> dropWhile is_digit s = [] \<Longrightarrow>
     takeWhile is_digit (s @ r) = s \<and> dropWhile is_digit (s @ r) = r"
  by (induction s) (auto simp: ends_number_def split: list.splits if_splits)

lemma digits_append_more:
  "dropWhile is_digit s \<noteq> [] \<Longrightarrow>
     takeWhile is_digit (s @ r) = takeWhile is_digit s \<and> dropWhile is_digit (s @ r) = dropWhile is_digit s @ r"
  by (induction s) (auto split: if_splits)

lemma digits_append_any:
  "ends_number r \<Longrightarrow>
     takeWhile is_digit (s @ r) = takeWhile is_digit s \<and> dropWhile is_digit (s @ r) = dropWhile is_digit s @ r"
  using digits_append digits_append_more by (metis append_Nil append_Nil2 takeWhile_dropWhile_id)

lemma scan_digits_append:
  "ends_number r \<Longrightarrow> scan_digits s = Some (d, t) \<Longrightarrow> scan_digits (s @ r) = Some (d, t @ r)"
  by (auto simp: scan_digits_def digits_append_any split: if_splits)

lemma scan_int_append:
  "ends_number r \<Longrightarrow> scan_int s = Some (d, t) \<Longrightarrow> scan_int (s @ r) = Some (d, t @ r)"
  using digits_append_any [of r s]
  by (cases s) (auto simp: scan_int_def split: if_splits)

lemma scan_frac_append:
  assumes r: "ends_number r" and s: "scan_frac s = Some (d, t)"
  shows "scan_frac (s @ r) = Some (d, t @ r)"
proof (cases s)
  case Nil
  with r s show ?thesis by (auto simp: scan_frac_def ends_number_def split: list.splits)
next
  case (Cons c u)
  with s show ?thesis by (auto simp: scan_frac_def scan_digits_append [OF r] split: if_splits)
qed

lemma scan_exp_append:
  assumes r: "ends_number r" and s: "scan_exp s = Some (d, t)"
  shows "scan_exp (s @ r) = Some (d, t @ r)"
proof (cases s)
  case Nil
  with r s show ?thesis by (auto simp: scan_exp_def ends_number_def split: list.splits)
next
  case (Cons c u)
  then show ?thesis
  proof (cases u)
    case (Cons g w)
    with s \<open>s = c # u\<close> show ?thesis
      using scan_digits_append [OF r, of "g # w"]
      by (auto simp: scan_exp_def scan_digits_append [OF r] split: if_splits)
  qed (use s in \<open>auto simp: scan_exp_def split: if_splits\<close>)
qed

lemma scan_number_append:
  assumes r: "ends_number r" and l: "scan_number l = Some (l, [])"
  shows "scan_number (l @ r) = Some (l, r)"
proof (cases l)
  case (Cons c t)
  define m s0 where "m = (if c = CHR ''-'' then [c] else [])" and "s0 = (if c = CHR ''-'' then t else l)"
  have eq: "scan_number (l @ q) =
      (case scan_int (s0 @ q) of None \<Rightarrow> None
         | Some (i, s1) \<Rightarrow>
             (case scan_frac s1 of None \<Rightarrow> None
              | Some (f, s2) \<Rightarrow>
                  map_option (\<lambda>(e, s3). (m @ i @ f @ e, s3)) (scan_exp s2)))" for q
    unfolding scan_number_def m_def s0_def Cons by (cases "c = CHR ''-''") (simp_all only: append_Cons
        list.case if_True if_False Let_def prod.case simp_thms)
  obtain i s1 f s2 e where "scan_int s0 = Some (i, s1)" "scan_frac s1 = Some (f, s2)"
    "scan_exp s2 = Some (e, [])" "l = m @ i @ f @ e"
    using l unfolding eq [of "[]", unfolded append_Nil2] by (auto split: option.splits)
  then show ?thesis
    using scan_int_append [OF r] scan_frac_append [OF r] scan_exp_append [OF r] unfolding eq
    by fastforce
qed (use l in \<open>simp add: scan_number_def scan_int_def\<close>)

lemma scan_number_first:
  assumes "scan_number l = Some (l, [])"
  obtains c t where "l = c # t" "is_digit c \<or> c = CHR ''-''"
  using assms that
  by (cases l) (auto simp: scan_number_def scan_int_def is_digit_def byte_def split: if_splits option.splits)

lemma number_first_plain:
  assumes "is_digit c \<or> c = CHR ''-''"
  shows "\<not> is_ws c \<and> c \<noteq> CHR ''{'' \<and> c \<noteq> CHR ''['' \<and> c \<noteq> CHR 0x22 \<and> c \<noteq> CHR ''t'' \<and> c \<noteq> CHR ''f''
    \<and> c \<noteq> CHR ''n'' \<and> c \<noteq> CHR '']'' \<and> c \<noteq> CHR ''}''"
  using assms by (auto simp: is_digit_def is_ws_def byte_def)

text \<open>The parser reads back what the printer wrote, and leaves what follows it.\<close>

lemma scan_literal_append [simp]: "scan_literal l (l @ r) = Some r"
  by (simp add: scan_literal_def)

lemma is_ws_punct [simp]:
  "\<not> is_ws CHR 0x22" "\<not> is_ws CHR ''{''" "\<not> is_ws CHR ''}''" "\<not> is_ws CHR ''[''" "\<not> is_ws CHR '']''"
  "\<not> is_ws CHR '',''" "\<not> is_ws CHR '':''" "\<not> is_ws CHR ''t''" "\<not> is_ws CHR ''f''" "\<not> is_ws CHR ''n''"
  by (simp_all add: is_ws_def)

lemma json_print_first:
  assumes "json_wf v"
  obtains c t where "json_print html v = c # t" "\<not> is_ws c" "c \<noteq> CHR '']''" "c \<noteq> CHR ''}''"
proof (cases v)
  case (JNum l)
  with assms obtain c t where "l = c # t" "is_digit c \<or> c = CHR ''-''"
    by (auto elim: scan_number_first)
  with that JNum number_first_plain show thesis by simp
next
  case (JBool b)
  with that show thesis by (cases b) auto
qed (use that in \<open>auto simp: quote_def split: if_splits\<close>)

lemma parse_elems_print:
  assumes "\<And>v n r. v \<in> set vs \<Longrightarrow> ends_number r \<Longrightarrow> size v < n \<Longrightarrow>
      parse_value n (json_print html v @ r) = Some (v, r)"
    and "vs \<noteq> []" "size_list size vs < n"
  shows "parse_elems n (strings_Join '','' (map (json_print html) vs) @ CHR '']'' # r) = Some (vs, r)"
  using assms
proof (induction vs arbitrary: n)
  case (Cons v vs)
  then obtain n' where n: "n = Suc n'" "size v < n'" "size_list size vs < n'"
    by (cases n) auto
  show ?case
  proof (cases "vs = []")
    case True
    with Cons.prems n show ?thesis by (simp add: skip_ws_Cons)
  next
    case False
    then have "parse_elems n' (strings_Join '','' (map (json_print html) vs) @ CHR '']'' # r) = Some (vs, r)"
      using Cons n by simp
    with False Cons.prems n show ?thesis by (simp add: strings_Join_Cons skip_ws_Cons)
  qed
qed simp

lemma parse_members_print:
  assumes "\<And>k v n r. (k, v) \<in> set ms \<Longrightarrow> ends_number r \<Longrightarrow> size v < n \<Longrightarrow>
      parse_value n (json_print html v @ r) = Some (v, r)"
    and "\<And>k v. (k, v) \<in> set ms \<Longrightarrow> valid_utf8 k"
    and "ms \<noteq> []" "size_list (size_prod (\<lambda>_. 0) size) ms < n"
  shows "parse_members n (strings_Join '',''
      (map (\<lambda>m. quote html (fst m) @ '':'' @ json_print html (snd m)) ms) @ CHR ''}'' # r) = Some (ms, r)"
  using assms
proof (induction ms arbitrary: n)
  case (Cons m ms)
  obtain k v where m: "m = (k, v)" by force
  with Cons obtain n' where n: "n = Suc n'" "size v < n'" "size_list (size_prod (\<lambda>_. 0) size) ms < n'"
    by (cases n) auto
  have k: "valid_utf8 k" by (rule Cons.prems(2) [of k v]) (simp add: m)
  have v: "parse_value n' (json_print html v @ q) = Some (v, q)" if "ends_number q" for q
    by (rule Cons.prems(1) [of k v]) (simp_all add: m n that)
  show ?case
  proof (cases "ms = []")
    case True
    with n m k v show ?thesis by (simp add: skip_ws_Cons quote_def unquote_quote_body)
  next
    case False
    then have "parse_members n' (strings_Join '',''
        (map (\<lambda>m. quote html (fst m) @ '':'' @ json_print html (snd m)) ms) @ CHR ''}'' # r) = Some (ms, r)"
      by (intro Cons.IH) (auto intro: Cons.prems(1,2) simp: n)
    with False n m k v show ?thesis
      by (simp add: strings_Join_Cons skip_ws_Cons quote_def unquote_quote_body)
  qed
qed simp

lemma parse_value_print:
  "json_wf v \<Longrightarrow> ends_number r \<Longrightarrow> size v < n \<Longrightarrow> parse_value n (json_print html v @ r) = Some (v, r)"
proof (induction v arbitrary: n r)
  case (JNum l)
  obtain m where "n = Suc m" using JNum by (cases n) auto
  moreover obtain c t where "l = c # t" "is_digit c \<or> c = CHR ''-''"
    using JNum by (auto elim: scan_number_first)
  ultimately show ?case
    using JNum number_first_plain [of c] scan_number_append [of r l] by (simp add: skip_ws_Cons)
next
  case (JArr vs)
  then obtain m where n: "n = Suc m" "size_list size vs < m" by (cases n) auto
  show ?case
  proof (cases vs)
    case (Cons v ws)
    have "json_wf v" using JArr.prems Cons by simp
    then obtain c t where "json_print html v = c # t" "\<not> is_ws c" "c \<noteq> CHR '']''"
      by (rule json_print_first)
    then obtain u where u: "strings_Join '','' (map (json_print html) vs) = c # u"
      using Cons by (cases "ws = []") (auto simp: strings_Join_Cons)
    have "parse_elems m (strings_Join '','' (map (json_print html) vs) @ CHR '']'' # r) = Some (vs, r)"
      by (rule parse_elems_print) (use JArr n Cons in \<open>auto simp: list_all_iff\<close>)
    with n u \<open>\<not> is_ws c\<close> \<open>c \<noteq> CHR '']''\<close> show ?thesis by (simp add: skip_ws_Cons)
  qed (use n in \<open>simp add: skip_ws_Cons\<close>)
next
  case (JObj ms)
  then obtain m where n: "n = Suc m" "size_list (size_prod (\<lambda>_. 0) size) ms < m"
    by (cases n) auto
  let ?J = "strings_Join '','' (map (\<lambda>m. quote html (fst m) @ '':'' @ json_print html (snd m)) ms)"
  show ?case
  proof (cases ms)
    case (Cons kv ns)
    then obtain u where u: "?J = CHR 0x22 # u"
      by (cases "ns = []") (auto simp: strings_Join_Cons quote_def)
    have "parse_members m (?J @ CHR ''}'' # r) = Some (ms, r)"
    proof (rule parse_members_print)
      fix k w n' q assume "(k, w) \<in> set ms" "ends_number q" "size w < n'"
      then show "parse_value n' (json_print html w @ q) = Some (w, q)"
        by (intro JObj.IH [of "(k, w)" w]) (use JObj.prems in \<open>auto simp: list_all_iff\<close>)
    qed (use JObj.prems n Cons in \<open>auto simp: list_all_iff\<close>)
    with n u show ?thesis by (simp add: skip_ws_Cons)
  qed (use n in \<open>simp add: skip_ws_Cons\<close>)
next
  case (JBool b)
  then show ?case
    using scan_literal_append [of "''true''" r] scan_literal_append [of "''false''" r]
    by (cases n) (auto simp: skip_ws_Cons)
next
  case JNull
  then show ?case
    using scan_literal_append [of "''null''" r] by (cases n) (auto simp: skip_ws_Cons)
next
  case (JStr s)
  then show ?case by (cases n) (auto simp: skip_ws_Cons quote_def unquote_quote_body)
qed

theorem json_parse_print:
  assumes "json_wf v" "json_depth v \<le> 10000"
  shows "json_parse (json_print html v) = Some v"
proof -
  let ?s = "json_print html v"
  have "parse_value (Suc (2 * length ?s + size v)) (?s @ []) = Some (v, [])"
    by (rule parse_value_print) (use assms in simp_all)
  then have "parse_value (Suc (2 * length ?s)) ?s = Some (v, [])"
    using parse_value_fuel [of ?s "Suc (2 * length ?s + size v)"] by simp
  with assms show ?thesis by (simp add: json_parse_def)
qed

section \<open>Compaction\<close>

text \<open>
  \<^verbatim>\<open>json.Compact\<close> checks a document and drops the white space outside its strings. The flag says
  whether the scan is inside a string.
\<close>

fun compact_aux :: "bool \<Rightarrow> string \<Rightarrow> string" where
  "compact_aux inside [] = []"
| "compact_aux False (c # s) = (if is_ws c then compact_aux False s else c # compact_aux (c = CHR 0x22) s)"
| "compact_aux True (c # s) =
     (if c = CHR 0x5C then c # (case s of [] \<Rightarrow> [] | d # t \<Rightarrow> d # compact_aux True t)
      else c # compact_aux (c \<noteq> CHR 0x22) s)"

definition json_compact :: "string \<Rightarrow> string option" where
  "json_compact s = (if json_valid s then Some (compact_aux False s) else None)"

lemma compact_plain:
  "\<forall>c \<in> set p. c \<noteq> CHR 0x22 \<and> c \<noteq> CHR 0x5C \<Longrightarrow> compact_aux True (p @ r) = p @ compact_aux True r"
  by (induction p) auto

lemma compact_unescaped:
  "\<forall>c \<in> set p. c \<noteq> CHR 0x22 \<and> \<not> is_ws c \<Longrightarrow> compact_aux False (p @ r) = p @ compact_aux False r"
  by (induction p) auto

definition number_char :: "char \<Rightarrow> bool" where
  "number_char c \<longleftrightarrow> is_digit c \<or> c \<in> {CHR ''-'', CHR ''+'', CHR ''.'', CHR ''e'', CHR ''E''}"

lemma number_char_plain: "number_char c \<Longrightarrow> c \<noteq> CHR 0x22 \<and> \<not> is_ws c"
  by (auto simp: number_char_def is_digit_def is_ws_def byte_def)

lemma digits_number_char: "\<forall>c \<in> set (takeWhile is_digit s). number_char c"
  by (auto simp: number_char_def dest: set_takeWhileD)

lemma scan_int_chars: "scan_int s = Some (d, t) \<Longrightarrow> \<forall>c \<in> set d. number_char c"
  using digits_number_char [of s]
  by (auto simp: scan_int_def number_char_def is_digit_def byte_def split: list.splits if_splits)

lemma scan_digits_chars: "scan_digits s = Some (d, t) \<Longrightarrow> \<forall>c \<in> set d. number_char c"
  using digits_number_char [of s] by (auto simp: scan_digits_def split: if_splits)

lemma number_char_marks [simp]:
  "number_char CHR ''-''" "number_char CHR ''+''" "number_char CHR ''.''" "number_char CHR ''e''" "number_char CHR ''E''"
  by (simp_all add: number_char_def)

lemma scan_frac_chars: "scan_frac s = Some (d, t) \<Longrightarrow> \<forall>c \<in> set d. number_char c"
  by (auto simp: scan_frac_def split: list.splits if_splits dest!: scan_digits_chars)

lemma scan_exp_chars: "scan_exp s = Some (d, t) \<Longrightarrow> \<forall>c \<in> set d. number_char c"
  by (auto simp: scan_exp_def split: list.splits if_splits dest!: scan_digits_chars)

lemma scan_number_chars: "scan_number s = Some (l, t) \<Longrightarrow> \<forall>c \<in> set l. number_char c"
  by (auto simp: scan_number_def split: list.splits if_splits option.splits
      dest!: scan_int_chars scan_frac_chars scan_exp_chars)

lemma hex_digit_plain: "hex_digit n \<noteq> CHR 0x22 \<and> hex_digit n \<noteq> CHR 0x5C" if "n < 16"
proof -
  have "n \<in> {0..<16}" using that by simp
  moreover have "\<forall>n \<in> {0..<16}. hex_digit n \<noteq> CHR 0x22 \<and> hex_digit n \<noteq> CHR 0x5C"
    by code_simp
  ultimately show ?thesis by blast
qed

lemma compact_quote_byte:
  "byte c < 0x80 \<Longrightarrow> compact_aux True (quote_byte html c @ r) = quote_byte html c @ compact_aux True r"
  by (simp add: quote_byte_def hex_digit_plain)

lemma compact_escape_u [simp]:
  "compact_aux True (CHR 0x5C # CHR ''u'' # r) = CHR 0x5C # CHR ''u'' # compact_aux True r"
  by simp

lemma compact_quote_body:
  "compact_aux True (quote_body html s @ CHR 0x22 # r) = quote_body html s @ CHR 0x22 # compact_aux False r"
proof (induction html s rule: quote_body.induct)
  case (2 html c s)
  let ?n = "rune_len (c # s)"
  show ?case
  proof (cases "byte c < 0x80")
    case True
    with 2(1) show ?thesis by (simp add: quote_body.simps(2) compact_quote_byte)
  next
    case False
    show ?thesis
    proof (cases "?n = 0")
      case True
      with False 2(2) show ?thesis by (simp add: quote_body.simps(2))
    next
      case n: False
      have "\<forall>d \<in> set (take ?n (c # s)). d \<noteq> CHR 0x22 \<and> d \<noteq> CHR 0x5C"
        using rune_len_high [OF False n] by (auto simp: byte_def)
      note plain = compact_plain [OF this]
      have esc: "compact_aux True ([CHR 0x5C, CHR ''u'', CHR ''2'', CHR ''0'', CHR ''2'', d] @ t) =
          [CHR 0x5C, CHR ''u'', CHR ''2'', CHR ''0'', CHR ''2'', d] @ compact_aux True t"
        if "d \<noteq> CHR 0x22" "d \<noteq> CHR 0x5C" for d t
        using that by simp
      show ?thesis
        using 2(3) [OF False n]
        by (simp only: quote_body.simps(2) False n if_False Let_def append_assoc if_distrib plain esc
            split: if_split) simp
    qed
  qed
qed simp

lemma compact_quote: "compact_aux False (quote html s @ r) = quote html s @ compact_aux False r"
  using compact_quote_body [of html s r] by (simp add: quote_def)

lemma compact_join:
  assumes "\<And>x r. x \<in> set xs \<Longrightarrow> compact_aux False (x @ r) = x @ compact_aux False r"
  shows "compact_aux False (strings_Join '','' xs @ r) = strings_Join '','' xs @ compact_aux False r"
  using assms by (induction xs arbitrary: r) (simp_all add: strings_Join_Cons)

lemma compact_print:
  "json_wf v \<Longrightarrow> compact_aux False (json_print html v @ r) = json_print html v @ compact_aux False r"
proof (induction v arbitrary: r)
  case (JNum l)
  then show ?case using scan_number_chars [of l l "[]"] number_char_plain by (simp add: compact_unescaped)
next
  case (JArr vs)
  then have "compact_aux False (strings_Join '','' (map (json_print html) vs) @ q) =
      strings_Join '','' (map (json_print html) vs) @ compact_aux False q" for q
    by (intro compact_join) (auto simp: list_all_iff)
  then show ?case by simp
next
  case (JObj ms)
  let ?J = "map (\<lambda>m. quote html (fst m) @ '':'' @ json_print html (snd m)) ms"
  have "compact_aux False (json_print html w @ q) = json_print html w @ compact_aux False q"
    if "(k, w) \<in> set ms" for k w q
    by (intro JObj.IH [of "(k, w)" w]) (use that JObj.prems in \<open>auto simp: list_all_iff\<close>)
  then have "compact_aux False (strings_Join '','' ?J @ q) = strings_Join '','' ?J @ compact_aux False q" for q
    by (intro compact_join) (auto simp: compact_quote)
  then show ?case by simp
qed (simp_all add: compact_quote is_ws_def)

text \<open>An encoder's line, compacted, is the printed value.\<close>

lemma json_parse_print_newline:
  assumes "json_wf v" "json_depth v \<le> 10000"
  shows "json_parse (json_print html v @ [CHR 0x0A]) = Some v"
proof -
  let ?s = "json_print html v @ [CHR 0x0A]"
  have "ends_number [CHR 0x0A]" and ws: "skip_ws [CHR 0x0A] = []"
    by (simp_all add: ends_number_def is_digit_def byte_def skip_ws_def is_ws_def)
  then have "parse_value (Suc (2 * length ?s + size v)) ?s = Some (v, [CHR 0x0A])"
    by (intro parse_value_print) (use assms in simp_all)
  then have "parse_value (Suc (2 * length ?s)) ?s = Some (v, [CHR 0x0A])"
    using parse_value_fuel [of ?s "Suc (2 * length ?s + size v)"] by simp
  with assms ws show ?thesis by (simp add: json_parse_def)
qed

lemma json_compact_print:
  assumes "json_wf v" "json_depth v \<le> 10000"
  shows "json_compact (json_print html v @ [CHR 0x0A]) = Some (json_print html v)"
  using assms json_parse_print_newline [OF assms] compact_print [of v html "[CHR 0x0A]"]
  by (simp add: json_compact_def json_valid_def is_ws_def)

section \<open>Decoding an object into a struct\<close>

text \<open>
  A member goes to the field with its exact name, else to the first field whose name it matches
  up to case, where \<open>k\<close> and \<open>s\<close> also match the Kelvin sign and the long s. Other members are
  ignored, a later member overwrites an earlier one, and a value of the wrong kind is an error.
\<close>

definition lower :: "char \<Rightarrow> char" where
  "lower c = (if 65 \<le> byte c \<and> byte c \<le> 90 then char_of (byte c + 32) else c)"

fun fold_match :: "string \<Rightarrow> string \<Rightarrow> bool" where
  "fold_match [] t \<longleftrightarrow> t = []"
| "fold_match (c # s) t \<longleftrightarrow>
     (case t of
        [] \<Rightarrow> False
      | d # u \<Rightarrow>
          if byte d < 0x80 then lower c = lower d \<and> fold_match s u
          else if lower c = CHR ''k'' \<and> take 3 t = [CHR 0xE2, CHR 0x84, CHR 0xAA] then fold_match s (drop 3 t)
          else lower c = CHR ''s'' \<and> take 2 t = [CHR 0xC5, CHR 0xBF] \<and> fold_match s (drop 2 t))"

definition route :: "string list \<Rightarrow> string \<Rightarrow> string option" where
  "route names key = (if key \<in> set names then Some key else find (\<lambda>n. fold_match n key) names)"

definition decode_struct ::
  "string list \<Rightarrow> (string \<Rightarrow> json \<Rightarrow> 'a \<Rightarrow> 'a option) \<Rightarrow> 'a \<Rightarrow> json \<Rightarrow> 'a option" where
  "decode_struct names set_field z v =
     (case v of
        JObj ms \<Rightarrow>
          fold (\<lambda>m r. Option.bind r (\<lambda>x.
            case route names (fst m) of None \<Rightarrow> Some x | Some n \<Rightarrow> set_field n (snd m) x)) ms (Some z)
      | JNull \<Rightarrow> Some z
      | _ \<Rightarrow> None)"

definition decode_string :: "json \<Rightarrow> string \<Rightarrow> string option" where
  "decode_string v old = (case v of JStr s \<Rightarrow> Some s | JNull \<Rightarrow> Some old | _ \<Rightarrow> None)"

text \<open>A slice: elements of an earlier duplicate are decoded into again, \<^verbatim>\<open>null\<close> resets it.\<close>

fun decode_slice :: "('a \<Rightarrow> 't \<Rightarrow> 'a option) \<Rightarrow> 'a \<Rightarrow> 't list \<Rightarrow> 'a list \<Rightarrow> 'a list option" where
  "decode_slice dec z [] old = Some []"
| "decode_slice dec z (t # ts) old =
     Option.bind (dec (if old = [] then z else hd old) t) (\<lambda>x. map_option ((#) x) (decode_slice dec z ts (tl old)))"

definition decode_array :: "('a \<Rightarrow> json \<Rightarrow> 'a option) \<Rightarrow> 'a \<Rightarrow> json \<Rightarrow> 'a list \<Rightarrow> 'a list option" where
  "decode_array dec z v old = (case v of JArr vs \<Rightarrow> decode_slice dec z vs old | JNull \<Rightarrow> Some [] | _ \<Rightarrow> None)"

lemma route_exact [simp]: "key \<in> set names \<Longrightarrow> route names key = Some key"
  by (simp add: route_def)

lemma decode_string_simps [simp]:
  "decode_string (JStr s) old = Some s" "decode_string JNull old = Some old"
  by (simp_all add: decode_string_def)

end
