(* ===== verification/Go_Base64.thy ===== *)
theory Go_Base64
  imports Go_Json
begin

text \<open>
  \<^verbatim>\<open>base64.StdEncoding\<close> of the Go standard library, which \<^verbatim>\<open>encoding/json\<close> uses for byte slices:
  four letters for three bytes, padded with \<^verbatim>\<open>=\<close>. The decoder skips carriage returns and line
  feeds, and ignores the unused bits before the padding. \<open>base64_decode_encode\<close> is the round trip.
\<close>

definition b64_letter :: "nat \<Rightarrow> char" where
  "b64_letter i =
     char_of (if i < 26 then 65 + i else if i < 52 then 71 + i else if i < 62 then i - 4
              else if i = 62 then 43 else 47)"

definition b64_value :: "char \<Rightarrow> nat option" where
  "b64_value c =
     (let n = byte c
      in if 65 \<le> n \<and> n \<le> 90 then Some (n - 65)
         else if 97 \<le> n \<and> n \<le> 122 then Some (n - 71)
         else if 48 \<le> n \<and> n \<le> 57 then Some (n + 4)
         else if n = 43 then Some 62
         else if n = 47 then Some 63
         else None)"

abbreviation b64_pad :: char where
  "b64_pad \<equiv> CHR ''=''"

fun base64_encode :: "string \<Rightarrow> string" where
  "base64_encode [] = []"
| "base64_encode [a] = [b64_letter (byte a div 4), b64_letter (byte a mod 4 * 16), b64_pad, b64_pad]"
| "base64_encode [a, b] =
     [b64_letter (byte a div 4), b64_letter (byte a mod 4 * 16 + byte b div 16),
      b64_letter (byte b mod 16 * 4), b64_pad]"
| "base64_encode (a # b # c # s) =
     [b64_letter (byte a div 4), b64_letter (byte a mod 4 * 16 + byte b div 16),
      b64_letter (byte b mod 16 * 4 + byte c div 64), b64_letter (byte c mod 64)] @ base64_encode s"

fun base64_groups :: "string \<Rightarrow> string option" where
  "base64_groups [] = Some []"
| "base64_groups (a # b # c # d # s) =
     (case (b64_value a, b64_value b) of
        (Some x, Some y) \<Rightarrow>
          if c = b64_pad then
            (if d = b64_pad \<and> s = [] then Some [char_of (x * 4 + y div 16)] else None)
          else
            (case b64_value c of
               None \<Rightarrow> None
             | Some z \<Rightarrow>
                 if d = b64_pad then
                   (if s = [] then Some [char_of (x * 4 + y div 16), char_of (y mod 16 * 16 + z div 4)] else None)
                 else
                   (case (b64_value d, base64_groups s) of
                      (Some w, Some r) \<Rightarrow>
                        Some (char_of (x * 4 + y div 16) # char_of (y mod 16 * 16 + z div 4)
                              # char_of (z mod 4 * 64 + w) # r)
                    | _ \<Rightarrow> None))
      | _ \<Rightarrow> None)"
| "base64_groups _ = None"

definition base64_decode :: "string \<Rightarrow> string option" where
  "base64_decode s = base64_groups (filter (\<lambda>c. c \<noteq> CHR 0x0A \<and> c \<noteq> CHR 0x0D) s)"

lemma byte_char_of [simp]: "n < 256 \<Longrightarrow> byte (char_of n) = n"
  by (simp add: byte_def)

lemma char_of_byte [simp]: "char_of (byte c) = c"
  by (simp add: byte_def)

lemma byte_less [simp]: "byte c < 256"
  by (simp add: byte_def)

lemma b64_pad_byte: "byte b64_pad = 61"
  by (simp add: byte_def)

lemma b64_letter_byte:
  "i < 64 \<Longrightarrow> byte (b64_letter i) =
     (if i < 26 then 65 + i else if i < 52 then 71 + i else if i < 62 then i - 4 else if i = 62 then 43 else 47)"
  by (simp add: b64_letter_def)

lemma b64_value_letter [simp]: "i < 64 \<Longrightarrow> b64_value (b64_letter i) = Some i"
  by (auto simp: b64_value_def b64_letter_byte Let_def)

lemma b64_letter_plain:
  assumes "i < 64"
  shows "b64_letter i \<noteq> b64_pad \<and> b64_letter i \<noteq> CHR 0x0A \<and> b64_letter i \<noteq> CHR 0x0D \<and> byte (b64_letter i) < 0x80"
proof -
  have "byte (b64_letter i) \<notin> {61, 10, 13}" and "byte (b64_letter i) < 0x80"
    using assms by (auto simp: b64_letter_byte split: if_splits)
  then show ?thesis by (auto simp: byte_def)
qed

lemma b64_bounds:
  assumes "a < 256" "b < 256" "c < 256"
  shows "a div 4 < 64" "a mod 4 * 16 < 64" "a mod 4 * 16 + b div 16 < 64"
    "b mod 16 * 4 < 64" "b mod 16 * 4 + c div 64 < 64" "c mod 64 < (64::nat)"
proof -
  have "a mod 4 < 4" "b div 16 < 16" "b mod 16 < 16" "c div 64 < 4" using assms by auto
  then show "a div 4 < 64" "a mod 4 * 16 < 64" "a mod 4 * 16 + b div 16 < 64"
    "b mod 16 * 4 < 64" "b mod 16 * 4 + c div 64 < 64" "c mod 64 < (64::nat)"
    using assms by auto
qed

lemma byte_high_bits [simp]:
  "byte b div 16 div 16 = 0" "byte b div 16 mod 16 = byte b div 16"
  "byte b div 64 div 4 = 0" "byte b div 64 mod 4 = byte b div 64"
proof -
  have "byte b div 16 < 16" "byte b div 64 < 4"
    using byte_less [of b] by (auto simp: less_mult_imp_div_less)
  then show "byte b div 16 div 16 = 0" "byte b div 16 mod 16 = byte b div 16"
    "byte b div 64 div 4 = 0" "byte b div 64 mod 4 = byte b div 64" by simp_all
qed

lemmas b64_bytes = b64_bounds [OF byte_less byte_less byte_less]

lemma base64_groups_encode: "base64_groups (base64_encode s) = Some s"
  by (induction s rule: base64_encode.induct) (simp_all add: b64_bytes b64_letter_plain)

lemma base64_encode_chars:
  "c \<in> set (base64_encode s) \<Longrightarrow> c \<noteq> CHR 0x0A \<and> c \<noteq> CHR 0x0D \<and> byte c < 0x80"
  by (induction s rule: base64_encode.induct) (auto simp: b64_bytes b64_letter_plain b64_pad_byte)

theorem base64_decode_encode: "base64_decode (base64_encode s) = Some s"
proof -
  have "filter (\<lambda>c. c \<noteq> CHR 0x0A \<and> c \<noteq> CHR 0x0D) (base64_encode s) = base64_encode s"
    by (rule filter_True) (use base64_encode_chars in blast)
  then show ?thesis by (simp add: base64_decode_def base64_groups_encode)
qed

lemma base64_encode_utf8: "valid_utf8 (base64_encode s)"
  by (rule valid_utf8_ASCII) (use base64_encode_chars in auto)

lemma base64_encode_eq_Nil [simp]: "base64_encode s = [] \<longleftrightarrow> s = []"
  by (cases s rule: base64_encode.cases) simp_all

end
