(* ===== verification/Go_Compact.thy ===== *)
theory Go_Compact
  imports Go_Json
begin

text \<open>
  Compaction keeps the meaning of a document: \<open>json_parse_compact\<close> shows that a valid document and
  its compacted text parse to the same value, and \<open>json_compact_idem\<close> that compacting again changes
  nothing. String literals are copied byte by byte, and numbers do not run together because a
  value is always followed by punctuation or the end.
\<close>

text \<open>
  A string literal is read the same way whatever follows its closing quote, and compaction copies it.
\<close>

lemma utf8_seq_quote: "utf8_seq bs \<Longrightarrow> 34 \<in> set bs \<Longrightarrow> bs = [34]"
  by (cases bs rule: utf8_seq.cases) (auto simp: utf8_cont_def split: if_splits)

lemma utf8_seq_over_quote:
  assumes "q \<noteq> []" "length q < k"
  shows "\<not> utf8_seq (map byte (take k (q @ CHR 0x22 # t)))"
proof
  let ?bs = "map byte (take k (q @ CHR 0x22 # t))"
  assume "utf8_seq ?bs"
  obtain j where k: "k = length q + Suc j" using assms(2) less_imp_Suc_add by auto
  then have bs: "?bs = map byte q @ 34 # map byte (take j t)" by (simp add: byte_def)
  then have "34 \<in> set ?bs" by simp
  from utf8_seq_quote [OF \<open>utf8_seq ?bs\<close> this] have "length ?bs = 1" by simp
  then show False unfolding bs using assms(1) by simp
qed

lemma rune_len_after_quote: "rune_len (q @ CHR 0x22 # t) = rune_len (q @ CHR 0x22 # t')"
proof (cases "q = []")
  case False
  have "utf8_seq (map byte (take k (q @ CHR 0x22 # t))) \<longleftrightarrow> utf8_seq (map byte (take k (q @ CHR 0x22 # t')))" for k
    using utf8_seq_over_quote [OF False] by (cases "k \<le> length q") auto
  then show ?thesis unfolding rune_len_def by simp
qed (simp add: rune_len_ASCII byte_def)

lemma hex_value_quote [simp]: "hex_value CHR 0x22 = None"
  by (simp add: hex_value_def byte_def)

lemma hex4_quote:
  "hex4 (q @ CHR 0x22 # t) = map_option (\<lambda>(n, u). (n, u @ CHR 0x22 # t)) (hex4 q)"
proof (cases q rule: hex4.cases)
  case (1 a b c d s)
  then show ?thesis by (auto split: option.splits)
qed (cases t rule: hex4.cases; auto split: option.splits)+

lemma unquote_u_quote:
  "unquote_u (q @ CHR 0x22 # t) = map_option (\<lambda>(x, u). (x, u @ CHR 0x22 # t)) (unquote_u q)"
proof (cases "hex4 q")
  case (Some p)
  obtain r u where p: "p = (r, u)" by force
  show ?thesis
  proof (cases u rule: remdups_adj.cases)
    case (3 b c w)
    then show ?thesis using Some p
      by (cases "hex4 w") (auto simp: unquote_u_def hex4_quote)
  qed (use Some p in \<open>cases t; auto simp: unquote_u_def hex4_quote split: option.splits\<close>)+
qed (simp add: unquote_u_def hex4_quote)

lemma compact_hex4:
  assumes "hex4 s = Some (n, t)"
  obtains q where "s = q @ t" "length q = 4" "\<forall>c \<in> set q. hex_value c \<noteq> None"
  using assms that by (cases s rule: hex4.cases) (auto split: option.splits)

lemma hex_value_plain: "hex_value c \<noteq> None \<Longrightarrow> c \<noteq> CHR 0x22 \<and> c \<noteq> CHR 0x5C"
  by (auto simp: hex_value_def byte_def)

lemma compact_unquote_u:
  assumes "unquote_u s = Some (x, t)"
  shows "\<exists>q. s = q @ t \<and> (\<forall>r. compact_aux True (q @ r) = q @ compact_aux True r)"
proof -
  obtain n u where h: "hex4 s = Some (n, u)" using assms by (auto simp: unquote_u_def split: option.splits)
  obtain q where q: "s = q @ u" "\<forall>c \<in> set q. hex_value c \<noteq> None" using compact_hex4 [OF h] by metis
  have c: "compact_aux True (q @ r) = q @ compact_aux True r" for r
    using q(2) hex_value_plain by (intro compact_plain) blast
  show ?thesis
  proof (cases "t = u")
    case True
    with q(1) c show ?thesis by blast
  next
    case False
    then obtain w n' where w: "u = CHR 0x5C # CHR ''u'' # w" "hex4 w = Some (n', t)"
      using assms h by (auto simp: unquote_u_def split: option.splits list.splits if_splits)
    obtain q' where q': "w = q' @ t" "\<forall>c \<in> set q'. hex_value c \<noteq> None" using compact_hex4 [OF w(2)] by metis
    have "compact_aux True (q' @ r) = q' @ compact_aux True r" for r
      using q'(2) hex_value_plain by (intro compact_plain) blast
    with q(1) w(1) q'(1) c show ?thesis
      by (intro exI [of _ "q @ CHR 0x5C # CHR ''u'' # q'"]) simp
  qed
qed

lemma simple_escape_copied: "compact_aux True (CHR 0x5C # e # r) = CHR 0x5C # e # compact_aux True r"
  by simp

definition literal_of :: "string \<Rightarrow> string \<Rightarrow> string \<Rightarrow> string \<Rightarrow> bool" where
  "literal_of q s x t \<longleftrightarrow> s = q @ CHR 0x22 # t
     \<and> (\<forall>r. compact_aux True (q @ CHR 0x22 # r) = q @ CHR 0x22 # compact_aux False r)
     \<and> (\<forall>r. unquote (q @ CHR 0x22 # r) = Some (x, r))"

lemma literal_u:
  assumes u: "unquote_u s = Some (x, t)" and l: "literal_of q t y r"
  shows "\<exists>q'. literal_of (CHR 0x5C # CHR ''u'' # q') (CHR 0x5C # CHR ''u'' # s) (x @ y) r"
proof -
  obtain qu where qu: "s = qu @ t" "\<And>r. compact_aux True (qu @ r) = qu @ compact_aux True r"
    using compact_unquote_u [OF u] by blast
  have "unquote_u ((qu @ q) @ CHR 0x22 # r) = Some (x, q @ CHR 0x22 # r)"
    using u qu(1) l by (simp add: literal_of_def)
  then have uq: "unquote_u (qu @ q) = Some (x, q)"
    unfolding unquote_u_quote by auto
  have "unquote (CHR 0x5C # CHR ''u'' # (qu @ q) @ CHR 0x22 # r') = Some (x @ y, r')" for r'
    using unquote_u_quote [of "qu @ q" r'] uq l by (simp add: unquote.simps(2) literal_of_def)
  then show ?thesis
    using l qu by (intro exI [of _ "qu @ q"]) (simp add: literal_of_def)
qed

lemma literal_escape:
  assumes "simple_escape e = Some d" "e \<noteq> CHR ''u''" "literal_of q s y r"
  shows "literal_of (CHR 0x5C # e # q) (CHR 0x5C # e # s) (d # y) r"
  using assms by (simp add: literal_of_def unquote.simps(2))

lemma literal_invalid:
  assumes "c \<noteq> CHR 0x22" "c \<noteq> CHR 0x5C" "\<not> byte c < 0x20" "rune_len (c # s) = 0" "literal_of q s y r"
  shows "literal_of (c # q) (c # s) (replacement_char @ y) r"
proof -
  have "rune_len (c # q @ CHR 0x22 # r') = 0" for r'
    using assms(4,5) rune_len_after_quote [of "c # q" r' r] by (simp add: literal_of_def)
  with assms show ?thesis by (simp add: literal_of_def unquote.simps(2))
qed

lemma unquote_rune_prefix:
  assumes c: "c \<noteq> CHR 0x22" "c \<noteq> CHR 0x5C" "\<not> byte c < 0x20"
    and n: "rune_len (c # p @ w) = Suc (length p)"
  shows "unquote (c # p @ w) = map_option (\<lambda>(z, r). (c # p @ z, r)) (unquote w)"
  using c n by (simp add: unquote.simps(2))

lemma rune_plain:
  assumes c: "c \<noteq> CHR 0x22" "c \<noteq> CHR 0x5C" and n: "rune_len (c # s) \<noteq> 0"
  shows "\<forall>d \<in> set (take (rune_len (c # s)) (c # s)). d \<noteq> CHR 0x22 \<and> d \<noteq> CHR 0x5C"
proof (cases "byte c < 0x80")
  case True
  then show ?thesis using c by (simp add: rune_len_ASCII)
next
  case False
  from rune_len_high [OF False n] show ?thesis by (auto simp: byte_def)
qed

lemma literal_rune:
  assumes c: "c \<noteq> CHR 0x22" "c \<noteq> CHR 0x5C" "\<not> byte c < 0x20" and n: "rune_len (c # s) \<noteq> 0"
    and l: "literal_of q (drop (rune_len (c # s)) (c # s)) y r"
  shows "literal_of (take (rune_len (c # s)) (c # s) @ q) (c # s) (take (rune_len (c # s)) (c # s) @ y) r"
proof -
  obtain p where p: "take (rune_len (c # s)) (c # s) = c # p" using n by (cases "rune_len (c # s)") auto
  have len: "rune_len (c # s) = Suc (length p)"
    using rune_len_le [of "c # s"] arg_cong [OF p, of length] by simp
  have s: "c # s = (c # p @ q) @ CHR 0x22 # r"
    using l append_take_drop_id [of "rune_len (c # s)" "c # s"] unfolding literal_of_def p by simp
  have "rune_len ((c # p @ q) @ CHR 0x22 # r') = Suc (length p)" for r'
    using rune_len_after_quote [of "c # p @ q" r' r] len s by simp
  then have "unquote (c # p @ q @ CHR 0x22 # r') = Some (c # p @ y, r')" for r'
    using unquote_rune_prefix [OF c, of p "q @ CHR 0x22 # r'"] l by (simp add: literal_of_def)
  moreover have "compact_aux True ((c # p) @ u) = (c # p) @ compact_aux True u" for u
    using rune_plain [OF c(1,2) n] unfolding p by (rule compact_plain)
  ultimately show ?thesis
    using s l unfolding p literal_of_def by simp
qed

lemma unquote_literal: "unquote s = Some (x, t) \<Longrightarrow> \<exists>q. literal_of q s x t"
proof (induction s arbitrary: x t rule: unquote.induct)
  case (2 c s)
  consider (close) "c = CHR 0x22" | (esc) "c = CHR 0x5C"
    | (bad) "c \<noteq> CHR 0x22" "c \<noteq> CHR 0x5C" "\<not> byte c < 0x20" "rune_len (c # s) = 0"
    | (rune) "c \<noteq> CHR 0x22" "c \<noteq> CHR 0x5C" "\<not> byte c < 0x20" "rune_len (c # s) \<noteq> 0"
    using 2(5) by (auto simp: unquote.simps(2) split: if_splits)
  then show ?case
  proof cases
    case close
    then have "literal_of [] (c # s) x t" using 2(5) by (simp add: unquote.simps(2) literal_of_def)
    then show ?thesis ..
  next
    case esc
    then obtain e u where s: "s = e # u" using 2(5) by (cases s) (auto simp: unquote.simps(2))
    show ?thesis
    proof (cases "e = CHR ''u''")
      case True
      then obtain y t1 z where y: "unquote_u u = Some (y, t1)" "unquote t1 = Some (z, t)" "x = y @ z"
        using 2(5) esc s by (auto simp: unquote.simps(2) split: option.splits)
      then obtain q where "literal_of q t1 z t" using 2(1) esc s True by fastforce
      with literal_u [OF y(1)] show ?thesis using y(3) esc s True by blast
    next
      case False
      then obtain d z where d: "simple_escape e = Some d" "unquote u = Some (z, t)" "x = d # z"
        using 2(5) esc s by (auto simp: unquote.simps(2) split: option.splits)
      then obtain q where "literal_of q u z t" using 2(2) esc s False by fastforce
      with literal_escape [OF d(1) False] show ?thesis using d(3) esc s by blast
    qed
  next
    case bad
    then obtain z where z: "unquote s = Some (z, t)" "x = replacement_char @ z"
      using 2(5) by (auto simp: unquote.simps(2))
    then obtain q where "literal_of q s z t" using 2(3) bad by fastforce
    with literal_invalid [OF bad] show ?thesis using z(2) by blast
  next
    case rune
    let ?n = "rune_len (c # s)"
    obtain z where z: "unquote (drop ?n (c # s)) = Some (z, t)" "x = take ?n (c # s) @ z"
      using 2(5) rune by (auto simp: unquote.simps(2))
    then obtain q where "literal_of q (drop ?n (c # s)) z t" using 2(4) rune by fastforce
    with literal_rune [OF rune] show ?thesis using z(2) by blast
  qed
qed simp

lemma skip_ws_Nil_compact: "skip_ws s = [] \<Longrightarrow> compact_aux False s = []"
  by (induction s) (auto simp: skip_ws_def split: if_splits)

lemma skip_ws_compact: "skip_ws s = c # t \<Longrightarrow> compact_aux False s = c # compact_aux (c = CHR 0x22) t"
  by (induction s) (auto simp: skip_ws_def split: if_splits)

lemma skip_ws_hd: "skip_ws s = c # t \<Longrightarrow> \<not> is_ws c"
  by (metis skip_ws_def dropWhile_eq_Cons_conv)

definition digit_first :: "string \<Rightarrow> bool" where
  "digit_first u \<longleftrightarrow> (case u of [] \<Rightarrow> False | c # _ \<Rightarrow> is_digit c)"

lemma digits_local:
  "\<not> digit_first u \<Longrightarrow> \<forall>c \<in> set d. is_digit c \<Longrightarrow> takeWhile is_digit (d @ u) = d \<and> dropWhile is_digit (d @ u) = u"
  by (cases u) (auto simp: digit_first_def)

lemma scan_digits_local:
  assumes "scan_digits s = Some (d, t)"
  shows "s = d @ t \<and> (\<forall>u. \<not> digit_first u \<longrightarrow> scan_digits (d @ u) = Some (d, u))"
proof -
  have d: "d = takeWhile is_digit s" "t = dropWhile is_digit s" "d \<noteq> []"
    using assms by (auto simp: scan_digits_def split: if_splits)
  have "\<forall>c \<in> set d. is_digit c" using d(1) by (auto dest: set_takeWhileD)
  from digits_local [OF _ this] d show ?thesis by (auto simp: scan_digits_def)
qed

lemma scan_int_local:
  assumes "scan_int s = Some (d, t)"
  shows "s = d @ t \<and> (\<forall>u. \<not> digit_first u \<longrightarrow> scan_int (d @ u) = Some (d, u))"
proof (cases s)
  case (Cons c w)
  show ?thesis
  proof (cases "c = CHR ''0''")
    case False
    then have d: "d = takeWhile is_digit s" "t = dropWhile is_digit s" "is_digit c"
      using assms Cons by (auto simp: scan_int_def split: if_splits)
    have all: "\<forall>c \<in> set d. is_digit c" using d(1) by (auto dest: set_takeWhileD)
    obtain e where e: "d = c # e" using d Cons by simp
    have "scan_int (d @ u) = Some (d, u)" if "\<not> digit_first u" for u
      using digits_local [OF that all] d(3) False unfolding e by (simp add: scan_int_def)
    with d show ?thesis by simp
  qed (use assms Cons in \<open>auto simp: scan_int_def\<close>)
qed (use assms in \<open>simp add: scan_int_def\<close>)

lemma scan_frac_local:
  assumes "scan_frac s = Some (d, t)"
  shows "s = d @ t \<and> (d = [] \<or> hd d = CHR ''.'')
    \<and> (\<forall>u. \<not> digit_first u \<and> (d = [] \<longrightarrow> \<not> strings_HasPrefix u ''.'') \<longrightarrow> scan_frac (d @ u) = Some (d, u))"
proof (cases "d = []")
  case True
  with assms have "t = s" by (auto simp: scan_frac_def split: list.splits if_splits)
  moreover have "scan_frac u = Some ([], u)" if "\<not> strings_HasPrefix u ''.''" for u
    using that by (auto simp: scan_frac_def strings_HasPrefix_def split: list.splits)
  ultimately show ?thesis using True by simp
next
  case False
  then obtain w e where w: "s = CHR ''.'' # w" "scan_digits w = Some (e, t)" "d = CHR ''.'' # e"
    using assms by (auto simp: scan_frac_def split: list.splits if_splits)
  from scan_digits_local [OF w(2)] w show ?thesis by (auto simp: scan_frac_def)
qed

lemma scan_exp_local:
  assumes "scan_exp s = Some (d, t)"
  shows "s = d @ t \<and> (d = [] \<or> hd d \<in> {CHR ''e'', CHR ''E''})
    \<and> (\<forall>u. ends_number u \<longrightarrow> scan_exp (d @ u) = Some (d, u))"
proof (cases "d = []")
  case True
  with assms have "t = s" by (auto simp: scan_exp_def split: list.splits if_splits)
  moreover have "scan_exp u = Some ([], u)" if "ends_number u" for u
    using that by (auto simp: scan_exp_def ends_number_def split: list.splits)
  ultimately show ?thesis using True by simp
next
  case False
  then obtain c g w e v where w: "s = c # g # w" "c = CHR ''e'' \<or> c = CHR ''E''"
    "scan_digits v = Some (e, t)" "(g = CHR ''+'' \<or> g = CHR ''-'') \<and> v = w \<and> d = c # g # e
      \<or> \<not> (g = CHR ''+'' \<or> g = CHR ''-'') \<and> v = g # w \<and> d = c # e"
    using assms by (auto simp: scan_exp_def split: list.splits if_splits)
  have dig: "\<not> digit_first u" if "ends_number u" for u
    using that by (auto simp: ends_number_def digit_first_def split: list.splits)
  note v = scan_digits_local [OF w(3)]
  show ?thesis
  proof (cases "g = CHR ''+'' \<or> g = CHR ''-''")
    case True
    with w v dig show ?thesis by (auto simp: scan_exp_def)
  next
    case False
    then have "e \<noteq> []" "hd e = g" using w v by (auto simp: scan_digits_def split: if_splits)
    then obtain e' where "e = g # e'" by (cases e) auto
    with False w v dig show ?thesis by (auto simp: scan_exp_def)
  qed
qed

lemma scan_number_local:
  assumes "scan_number s = Some (l, t)"
  shows "s = l @ t \<and> (\<forall>u. ends_number u \<longrightarrow> scan_number (l @ u) = Some (l, u))"
proof -
  obtain m s0 i s1 f s2 e where sc: "scan_int s0 = Some (i, s1)" "scan_frac s1 = Some (f, s2)"
    "scan_exp s2 = Some (e, t)" "l = m @ i @ f @ e" "s = m @ s0" "m = [CHR ''-''] \<or> m = [] \<and> \<not> strings_HasPrefix s ''-''"
    using assms
    by (auto simp: scan_number_def strings_HasPrefix_def split: list.splits option.splits if_splits)
  note I = scan_int_local [OF sc(1)] and F = scan_frac_local [OF sc(2)] and E = scan_exp_local [OF sc(3)]
  have "scan_number (l @ u) = Some (l, u)" if u: "ends_number u" for u
  proof -
    have du: "\<not> digit_first u" "\<not> strings_HasPrefix u ''.''"
      using u by (auto simp: ends_number_def digit_first_def strings_HasPrefix_def split: list.splits)
    have eu: "\<not> digit_first (e @ u)" "\<not> strings_HasPrefix (e @ u) ''.''"
      using E du by (cases e; auto simp: digit_first_def strings_HasPrefix_def is_digit_def byte_def)+
    have fu: "\<not> digit_first (f @ e @ u)"
      using F eu by (cases f) (auto simp: digit_first_def is_digit_def byte_def)
    have steps: "scan_int (i @ f @ e @ u) = Some (i, f @ e @ u)" "scan_frac (f @ e @ u) = Some (f, e @ u)"
      "scan_exp (e @ u) = Some (e, u)"
      using I F E u du eu fu by auto
    have "is_digit CHR ''0''" "\<not> is_digit CHR ''-''" by (simp_all add: is_digit_def byte_def)
    then obtain c j where i: "i = c # j" "c \<noteq> CHR ''-''"
      using sc(1) by (cases i) (auto simp: scan_int_def split: list.splits if_splits)
    from sc(6) show ?thesis
    proof
      assume "m = [CHR ''-'']"
      then show ?thesis using steps by (simp add: scan_number_def sc(4))
    next
      assume "m = [] \<and> \<not> strings_HasPrefix s ''-''"
      then show ?thesis using steps i by (simp add: scan_number_def sc(4))
    qed
  qed
  moreover have "s = l @ t" using sc(4,5) I F E by simp
  ultimately show ?thesis by blast
qed

lemma ends_number_compact: "ends_number (skip_ws r) \<Longrightarrow> ends_number (compact_aux False r)"
  by (cases "skip_ws r")
    (auto simp: skip_ws_Nil_compact skip_ws_compact ends_number_def)

lemma compact_number:
  assumes "scan_number s = Some (l, t)" "ends_number (skip_ws t)"
  shows "compact_aux False s = l @ compact_aux False t" "scan_number (compact_aux False s) = Some (l, compact_aux False t)"
proof -
  have s: "s = l @ t" "\<And>u. ends_number u \<Longrightarrow> scan_number (l @ u) = Some (l, u)"
    using scan_number_local [OF assms(1)] by auto
  have "\<forall>c \<in> set l. c \<noteq> CHR 0x22 \<and> \<not> is_ws c"
    using scan_number_chars [OF assms(1)] number_char_plain by blast
  then show eq: "compact_aux False s = l @ compact_aux False t"
    unfolding s(1) by (rule compact_unescaped)
  show "scan_number (compact_aux False s) = Some (l, compact_aux False t)"
    unfolding eq by (rule s(2) [OF ends_number_compact [OF assms(2)]])
qed

lemma scan_literal_split: "scan_literal l s = Some t \<Longrightarrow> s = l @ t"
  by (auto simp: scan_literal_def split: if_splits) (metis append_take_drop_id)

lemma compact_literal_word:
  assumes "scan_literal l s = Some t" "l \<in> {''true'', ''false'', ''null''}"
  shows "scan_literal l (compact_aux False s) = Some (compact_aux False t)"
proof -
  have s: "s = l @ t" by (rule scan_literal_split [OF assms(1)])
  have "\<forall>c \<in> set l. c \<noteq> CHR 0x22 \<and> \<not> is_ws c" using assms(2) by (auto simp: is_ws_def)
  then show ?thesis unfolding s by (simp add: compact_unescaped)
qed

lemma compact_string:
  assumes "unquote s = Some (x, t)"
  shows "unquote (compact_aux True s) = Some (x, compact_aux False t)"
proof -
  obtain q where "literal_of q s x t" using unquote_literal [OF assms] ..
  then show ?thesis by (simp add: literal_of_def)
qed

text \<open>The three parts of the parser, on a text and on its compacted form.\<close>

definition compact_ok :: "nat \<Rightarrow> bool" where
  "compact_ok n \<longleftrightarrow>
     (\<forall>s v r. parse_value n s = Some (v, r) \<longrightarrow> ends_number (skip_ws r) \<longrightarrow>
        parse_value n (compact_aux False s) = Some (v, compact_aux False r)) \<and>
     (\<forall>s vs r. parse_elems n s = Some (vs, r) \<longrightarrow>
        parse_elems n (compact_aux False s) = Some (vs, compact_aux False r)) \<and>
     (\<forall>s ms r. parse_members n s = Some (ms, r) \<longrightarrow>
        parse_members n (compact_aux False s) = Some (ms, compact_aux False r))"

lemma compact_okD:
  assumes "compact_ok n"
  shows "parse_value n s = Some (v, r) \<Longrightarrow> ends_number (skip_ws r) \<Longrightarrow>
      parse_value n (compact_aux False s) = Some (v, compact_aux False r)"
    "parse_elems n s = Some (vs, r) \<Longrightarrow> parse_elems n (compact_aux False s) = Some (vs, compact_aux False r)"
    "parse_members n s = Some (ms, r) \<Longrightarrow> parse_members n (compact_aux False s) = Some (ms, compact_aux False r)"
  using assms by (auto simp: compact_ok_def)

lemma skip_ws_compact_id: "skip_ws (compact_aux False s) = compact_aux False s"
proof (cases "skip_ws s")
  case (Cons c t)
  then show ?thesis using skip_ws_hd [OF Cons] by (simp add: skip_ws_compact skip_ws_Cons)
qed (simp add: skip_ws_Nil_compact)

lemma compact_skip: "skip_ws s = c # t \<Longrightarrow> compact_aux False (c # t) = compact_aux False s"
  using skip_ws_hd [of s c t] by (simp add: skip_ws_compact)

lemma parse_value_compact_step:
  assumes ok: "compact_ok n" and p: "parse_value (Suc n) s = Some (v, r)" and e: "ends_number (skip_ws r)"
  shows "parse_value (Suc n) (compact_aux False s) = Some (v, compact_aux False r)"
proof (cases "skip_ws s")
  case (Cons c t)
  note cs = skip_ws_compact [OF Cons]
  have nw: "\<not> is_ws c" by (rule skip_ws_hd [OF Cons])
  consider (obj) "c = CHR ''{''" | (arr) "c = CHR ''[''" | (str) "c = CHR 0x22"
    | (lit) "c \<in> {CHR ''t'', CHR ''f'', CHR ''n''}"
    | (num) "c \<notin> {CHR ''{'', CHR ''['', CHR 0x22, CHR ''t'', CHR ''f'', CHR ''n''}"
    by blast
  then show ?thesis
  proof cases
    case obj
    obtain d u where u: "skip_ws t = d # u" using p Cons obj by (cases "skip_ws t") auto
    note cu = skip_ws_compact [OF u] compact_skip [OF u]
    show ?thesis
    proof (cases "d = CHR ''}''")
      case False
      then obtain ms where "v = JObj ms" "parse_members n (d # u) = Some (ms, r)"
        using p Cons obj u by auto
      with compact_okD(3) [OF ok this(2)] cs cu obj False skip_ws_hd [OF u] show ?thesis
        by (simp add: skip_ws_Cons)
    qed (use p Cons obj u cs cu in \<open>simp add: skip_ws_Cons\<close>)
  next
    case arr
    obtain d u where u: "skip_ws t = d # u" using p Cons arr by (cases "skip_ws t") auto
    note cu = skip_ws_compact [OF u] compact_skip [OF u]
    show ?thesis
    proof (cases "d = CHR '']''")
      case False
      then obtain vs where "v = JArr vs" "parse_elems n (d # u) = Some (vs, r)"
        using p Cons arr u by auto
      with compact_okD(2) [OF ok this(2)] cs cu arr False skip_ws_hd [OF u] show ?thesis
        by (simp add: skip_ws_Cons)
    qed (use p Cons arr u cs cu in \<open>simp add: skip_ws_Cons\<close>)
  next
    case str
    then show ?thesis using p Cons cs by (auto simp: skip_ws_Cons compact_string)
  next
    case lit
    have "scan_literal l (c # compact_aux False t) = Some (compact_aux False r)"
      if "scan_literal l (c # t) = Some r" "l \<in> {''true'', ''false'', ''null''}" for l
      using compact_literal_word [OF that] lit nw by (auto simp: skip_ws_compact)
    with p Cons cs lit nw show ?thesis by (auto simp: skip_ws_Cons)
  next
    case num
    then obtain l where "v = JNum l" "scan_number (c # t) = Some (l, r)" using p Cons by auto
    with compact_number(2) [OF this(2) e] num Cons cs nw show ?thesis by (simp add: skip_ws_Cons)
  qed
qed (use p in simp)

lemma parse_elems_compact_step:
  assumes ok: "compact_ok n" and p: "parse_elems (Suc n) s = Some (vs, r)"
  shows "parse_elems (Suc n) (compact_aux False s) = Some (vs, compact_aux False r)"
proof -
  obtain v t c u where v: "parse_value n s = Some (v, t)" "skip_ws t = c # u" "c = CHR '','' \<or> c = CHR '']''"
    using p by (auto split: option.splits list.splits if_splits)
  then have "ends_number (skip_ws t)" by auto
  note val = compact_okD(1) [OF ok v(1) this]
  note ct = skip_ws_compact [OF v(2)]
  show ?thesis
  proof (cases "c = CHR '',''")
    case True
    then obtain ws where "parse_elems n u = Some (ws, r)" "vs = v # ws" using p v by auto
    with compact_okD(2) [OF ok this(1)] val ct True show ?thesis by (simp add: skip_ws_Cons)
  next
    case False
    with v(3) have "c = CHR '']''" by simp
    with p v val ct show ?thesis by (simp add: skip_ws_Cons)
  qed
qed

lemma parse_members_compact_step:
  assumes ok: "compact_ok n" and p: "parse_members (Suc n) s = Some (ms, r)"
  shows "parse_members (Suc n) (compact_aux False s) = Some (ms, compact_aux False r)"
proof -
  obtain s1 k s2 s3 v s4 c u where m: "skip_ws s = CHR 0x22 # s1" "unquote s1 = Some (k, s2)"
    "skip_ws s2 = CHR '':'' # s3" "parse_value n s3 = Some (v, s4)" "skip_ws s4 = c # u"
    "c = CHR '','' \<or> c = CHR ''}''"
    using p by (auto split: option.splits list.splits if_splits)
  then have "ends_number (skip_ws s4)" by auto
  note val = compact_okD(1) [OF ok m(4) this]
  note steps = skip_ws_compact [OF m(1)] compact_string [OF m(2)] skip_ws_compact [OF m(3)] val
    skip_ws_compact [OF m(5)]
  show ?thesis
  proof (cases "c = CHR '',''")
    case True
    then obtain ns where "parse_members n u = Some (ns, r)" "ms = (k, v) # ns" using p m by auto
    with compact_okD(3) [OF ok this(1)] steps True show ?thesis by (simp add: skip_ws_Cons)
  next
    case False
    with m(6) have "c = CHR ''}''" by simp
    with p m steps show ?thesis by (simp add: skip_ws_Cons)
  qed
qed

lemma compact_ok_all: "compact_ok n"
proof (induction n)
  case (Suc n)
  show ?case
    unfolding compact_ok_def
    using parse_value_compact_step [OF Suc] parse_elems_compact_step [OF Suc] parse_members_compact_step [OF Suc]
    by blast
qed (simp add: compact_ok_def)

lemma compact_length: "length (compact_aux inside s) \<le> length s"
  by (induction inside s rule: compact_aux.induct) (auto split: list.splits)

lemma json_parse_Some:
  "json_parse s = Some v \<longleftrightarrow>
     (\<exists>r. parse_value (Suc (2 * length s)) s = Some (v, r) \<and> skip_ws r = [] \<and> json_depth v \<le> 10000)"
  by (cases "parse_value (Suc (2 * length s)) s") (auto simp: json_parse_def simp del: parse_value.simps split: if_splits)

theorem json_parse_compact:
  assumes "json_parse s = Some v"
  shows "json_parse (compact_aux False s) = Some v"
proof -
  from assms obtain r where r: "parse_value (Suc (2 * length s)) s = Some (v, r)" "skip_ws r = []" "json_depth v \<le> 10000"
    unfolding json_parse_Some by blast
  have "parse_value (Suc (2 * length s)) (compact_aux False s) = Some (v, compact_aux False r)"
    by (rule compact_okD(1) [OF compact_ok_all r(1)]) (simp add: r(2))
  moreover have "2 * length (compact_aux False s) < Suc (2 * length s)"
    using compact_length [of False s] by simp
  ultimately have "parse_value (Suc (2 * length (compact_aux False s))) (compact_aux False s) = Some (v, [])"
    using parse_value_fuel [of "compact_aux False s" "Suc (2 * length s)"] skip_ws_Nil_compact [OF r(2)]
    by (simp only:)
  with r(3) show ?thesis unfolding json_parse_Some by auto
qed

text \<open>White space at the end of a document does not change its value.\<close>

lemma skip_ws_append: "skip_ws s = c # t \<Longrightarrow> skip_ws (s @ w) = c # t @ w"
  by (induction s) (auto simp: skip_ws_def split: if_splits)

lemma ws_ends_number: "is_ws c \<Longrightarrow> ends_number (c # t)"
  by (auto simp: ends_number_def is_ws_def is_digit_def byte_def)

lemma ends_number_ws:
  assumes "ends_number (skip_ws r)" "\<forall>c \<in> set w. is_ws c"
  shows "ends_number (r @ w)"
proof (cases r)
  case Nil
  with assms(2) show ?thesis by (cases w) (auto simp: ws_ends_number)
next
  case (Cons c t)
  show ?thesis
  proof (cases "is_ws c")
    case False
    with assms(1) Cons show ?thesis by (simp add: skip_ws_Cons ends_number_def)
  qed (simp add: Cons ws_ends_number)
qed

lemma unquote_append:
  assumes "unquote s = Some (x, t)"
  shows "unquote (s @ w) = Some (x, t @ w)"
proof -
  obtain q where "literal_of q s x t" using unquote_literal [OF assms] ..
  then show ?thesis by (simp add: literal_of_def)
qed

lemma scan_literal_append_ws: "scan_literal l s = Some t \<Longrightarrow> scan_literal l (s @ w) = Some (t @ w)"
  using scan_literal_split [of l s t] scan_literal_append [of l "t @ w"] by simp

definition append_ok :: "string \<Rightarrow> nat \<Rightarrow> bool" where
  "append_ok w n \<longleftrightarrow>
     (\<forall>s v r. parse_value n s = Some (v, r) \<longrightarrow> ends_number (skip_ws r) \<longrightarrow>
        parse_value n (s @ w) = Some (v, r @ w)) \<and>
     (\<forall>s vs r. parse_elems n s = Some (vs, r) \<longrightarrow> parse_elems n (s @ w) = Some (vs, r @ w)) \<and>
     (\<forall>s ms r. parse_members n s = Some (ms, r) \<longrightarrow> parse_members n (s @ w) = Some (ms, r @ w))"

lemma append_okD:
  assumes "append_ok w n"
  shows "parse_value n s = Some (v, r) \<Longrightarrow> ends_number (skip_ws r) \<Longrightarrow> parse_value n (s @ w) = Some (v, r @ w)"
    "parse_elems n s = Some (vs, r) \<Longrightarrow> parse_elems n (s @ w) = Some (vs, r @ w)"
    "parse_members n s = Some (ms, r) \<Longrightarrow> parse_members n (s @ w) = Some (ms, r @ w)"
  using assms by (auto simp: append_ok_def)

lemma parse_value_append_step:
  assumes w: "\<forall>c \<in> set w. is_ws c" and ok: "append_ok w n"
    and p: "parse_value (Suc n) s = Some (v, r)" and e: "ends_number (skip_ws r)"
  shows "parse_value (Suc n) (s @ w) = Some (v, r @ w)"
proof (cases "skip_ws s")
  case (Cons c t)
  note cs = skip_ws_append [OF Cons, of w]
  consider (obj) "c = CHR ''{''" | (arr) "c = CHR ''[''" | (str) "c = CHR 0x22"
    | (lit) "c \<in> {CHR ''t'', CHR ''f'', CHR ''n''}"
    | (num) "c \<notin> {CHR ''{'', CHR ''['', CHR 0x22, CHR ''t'', CHR ''f'', CHR ''n''}"
    by blast
  then show ?thesis
  proof cases
    case obj
    obtain d u where u: "skip_ws t = d # u" using p Cons obj by (cases "skip_ws t") auto
    show ?thesis
    proof (cases "d = CHR ''}''")
      case False
      then obtain ms where "v = JObj ms" "parse_members n (d # u) = Some (ms, r)"
        using p Cons obj u by auto
      with append_okD(3) [OF ok this(2)] cs skip_ws_append [OF u, of w] obj False show ?thesis by simp
    qed (use p Cons obj u cs skip_ws_append [OF u, of w] in simp)
  next
    case arr
    obtain d u where u: "skip_ws t = d # u" using p Cons arr by (cases "skip_ws t") auto
    show ?thesis
    proof (cases "d = CHR '']''")
      case False
      then obtain vs where "v = JArr vs" "parse_elems n (d # u) = Some (vs, r)"
        using p Cons arr u by auto
      with append_okD(2) [OF ok this(2)] cs skip_ws_append [OF u, of w] arr False show ?thesis by simp
    qed (use p Cons arr u cs skip_ws_append [OF u, of w] in simp)
  next
    case str
    then show ?thesis using p Cons cs by (auto simp: unquote_append)
  next
    case lit
    have "scan_literal l (c # t @ w) = Some (r @ w)" if "scan_literal l (c # t) = Some r" for l
      using scan_literal_append_ws [OF that] by simp
    with p Cons cs lit show ?thesis by auto
  next
    case num
    then obtain l where l: "v = JNum l" "scan_number (c # t) = Some (l, r)" using p Cons by auto
    have ct: "c # t = l @ r" and ln: "\<And>u. ends_number u \<Longrightarrow> scan_number (l @ u) = Some (l, u)"
      using scan_number_local [OF l(2)] by auto
    have "scan_number ((c # t) @ w) = Some (l, r @ w)"
      unfolding ct append_assoc by (rule ln [OF ends_number_ws [OF e w]])
    then have "scan_number (c # t @ w) = Some (l, r @ w)" by simp
    with l num Cons cs show ?thesis by simp
  qed
qed (use p in simp)

lemma parse_elems_append_step:
  assumes ok: "append_ok w n" and p: "parse_elems (Suc n) s = Some (vs, r)"
  shows "parse_elems (Suc n) (s @ w) = Some (vs, r @ w)"
proof -
  obtain v t c u where v: "parse_value n s = Some (v, t)" "skip_ws t = c # u" "c = CHR '','' \<or> c = CHR '']''"
    using p by (auto split: option.splits list.splits if_splits)
  then have "ends_number (skip_ws t)" by auto
  note steps = append_okD(1) [OF ok v(1) this] skip_ws_append [OF v(2), of w]
  show ?thesis
  proof (cases "c = CHR '',''")
    case True
    then obtain ws where "parse_elems n u = Some (ws, r)" "vs = v # ws" using p v by auto
    with append_okD(2) [OF ok this(1)] steps True show ?thesis by simp
  qed (use v p steps in auto)
qed

lemma parse_members_append_step:
  assumes ok: "append_ok w n" and p: "parse_members (Suc n) s = Some (ms, r)"
  shows "parse_members (Suc n) (s @ w) = Some (ms, r @ w)"
proof -
  obtain s1 k s2 s3 v s4 c u where m: "skip_ws s = CHR 0x22 # s1" "unquote s1 = Some (k, s2)"
    "skip_ws s2 = CHR '':'' # s3" "parse_value n s3 = Some (v, s4)" "skip_ws s4 = c # u"
    "c = CHR '','' \<or> c = CHR ''}''"
    using p by (auto split: option.splits list.splits if_splits)
  then have "ends_number (skip_ws s4)" by auto
  note steps = skip_ws_append [OF m(1), of w] unquote_append [OF m(2), of w] skip_ws_append [OF m(3), of w]
    append_okD(1) [OF ok m(4) this] skip_ws_append [OF m(5), of w]
  show ?thesis
  proof (cases "c = CHR '',''")
    case True
    then obtain ns where "parse_members n u = Some (ns, r)" "ms = (k, v) # ns" using p m by auto
    with append_okD(3) [OF ok this(1)] steps True show ?thesis by simp
  qed (use m p steps in auto)
qed

lemma append_ok_all: "\<forall>c \<in> set w. is_ws c \<Longrightarrow> append_ok w n"
proof (induction n)
  case (Suc n)
  show ?case
    unfolding append_ok_def
    using parse_value_append_step [OF Suc.prems Suc.IH [OF Suc.prems]]
      parse_elems_append_step [OF Suc.IH [OF Suc.prems]] parse_members_append_step [OF Suc.IH [OF Suc.prems]]
    by blast
qed (simp add: append_ok_def)

lemma json_parse_append_ws:
  assumes w: "\<forall>c \<in> set w. is_ws c" and p: "json_parse s = Some v"
  shows "json_parse (s @ w) = Some v"
proof -
  from p obtain r where r: "parse_value (Suc (2 * length s)) s = Some (v, r)" "skip_ws r = []" "json_depth v \<le> 10000"
    unfolding json_parse_Some by blast
  let ?n = "Suc (2 * length (s @ w))"
  have "parse_value ?n s = Some (v, r)"
    using r(1) parse_value_fuel [of s ?n] by (simp only: length_append) simp
  then have "parse_value ?n (s @ w) = Some (v, r @ w)"
    by (rule append_okD(1) [OF append_ok_all [OF w]]) (simp add: r(2))
  moreover have "skip_ws (r @ w) = []"
    using r(2) w by (simp add: skip_ws_def)
  ultimately show ?thesis using r(3) unfolding json_parse_Some by blast
qed

section \<open>Compacting twice\<close>

lemma compact_idem: "compact_aux inside (compact_aux inside s) = compact_aux inside s"
  by (induction inside s rule: compact_aux.induct) (auto split: list.splits)

lemma json_compact_Some: "json_compact s = Some t \<Longrightarrow> t = compact_aux False s \<and> json_parse t = json_parse s"
  using json_parse_compact [of s] by (auto simp: json_compact_def json_valid_def split: if_splits)

theorem json_compact_idem: "json_compact s = Some t \<Longrightarrow> json_compact t = Some t"
  using json_parse_compact [of s]
  by (auto simp: json_compact_def json_valid_def compact_idem split: if_splits)

section \<open>Documents end outside strings\<close>

text \<open>The texts after which a scan is outside strings again.\<close>

definition seg :: "string \<Rightarrow> string \<Rightarrow> bool" where
  "seg s r \<longleftrightarrow> (\<exists>p. s = p @ r \<and> (\<forall>w. compact_aux False (p @ w) = compact_aux False p @ compact_aux False w))"

lemma seg_refl: "seg s s"
  unfolding seg_def by (intro exI [of _ "[]"]) simp

lemma seg_trans:
  assumes "seg s t" "seg t r"
  shows "seg s r"
proof -
  from assms obtain p q where p: "s = p @ t" "\<And>w. compact_aux False (p @ w) = compact_aux False p @ compact_aux False w"
    and q: "t = q @ r" "\<And>w. compact_aux False (q @ w) = compact_aux False q @ compact_aux False w"
    unfolding seg_def by blast
  have "compact_aux False ((p @ q) @ w) = compact_aux False (p @ q) @ compact_aux False w" for w
    using p(2) [of "q @ w"] p(2) [of q] q(2) [of w] by simp
  with p(1) q(1) show ?thesis unfolding seg_def by (intro exI [of _ "p @ q"]) simp
qed

lemma seg_char: "c \<noteq> CHR 0x22 \<Longrightarrow> seg (c # t) t"
  unfolding seg_def by (rule exI [of _ "[c]"]) simp

lemma seg_chars: "\<forall>c \<in> set p. c \<noteq> CHR 0x22 \<Longrightarrow> seg (p @ t) t"
proof (induction p)
  case (Cons c p)
  then have "seg (c # p @ t) (p @ t)" "seg (p @ t) t" by (simp_all add: seg_char)
  then show ?case unfolding append_Cons by (rule seg_trans)
qed (simp add: seg_refl)

lemma seg_skip: "skip_ws s = c # t \<Longrightarrow> seg s (c # t)"
proof (induction s)
  case (Cons d s)
  show ?case
  proof (cases "is_ws d")
    case True
    then have "d \<noteq> CHR 0x22" by (auto simp: is_ws_def)
    moreover have "seg s (c # t)" using True Cons by (simp add: skip_ws_def)
    ultimately show ?thesis by (intro seg_trans [OF seg_char])
  next
    case False
    with Cons.prems show ?thesis by (simp add: skip_ws_Cons seg_refl)
  qed
qed simp

lemma seg_string:
  assumes "unquote s = Some (x, t)"
  shows "seg (CHR 0x22 # s) t"
proof -
  obtain q where "literal_of q s x t" using unquote_literal [OF assms] ..
  then show ?thesis
    unfolding seg_def literal_of_def by (intro exI [of _ "CHR 0x22 # q @ [CHR 0x22]"]) simp
qed

lemma seg_number: "scan_number s = Some (l, t) \<Longrightarrow> seg s t"
  using scan_number_local [of s l t] scan_number_chars [of s l t] number_char_plain seg_chars [of l t] by auto

lemma seg_word: "scan_literal l s = Some t \<Longrightarrow> CHR 0x22 \<notin> set l \<Longrightarrow> seg s t"
  using scan_literal_split [of l s t] seg_chars [of l t] by auto

definition seg_ok :: "nat \<Rightarrow> bool" where
  "seg_ok n \<longleftrightarrow> (\<forall>s v r. parse_value n s = Some (v, r) \<longrightarrow> seg s r)
     \<and> (\<forall>s vs r. parse_elems n s = Some (vs, r) \<longrightarrow> seg s r)
     \<and> (\<forall>s ms r. parse_members n s = Some (ms, r) \<longrightarrow> seg s r)"

lemma seg_okD:
  assumes "seg_ok n"
  shows "parse_value n s = Some (v, r) \<Longrightarrow> seg s r" "parse_elems n s = Some (vs, r) \<Longrightarrow> seg s r"
    "parse_members n s = Some (ms, r) \<Longrightarrow> seg s r"
  using assms by (auto simp: seg_ok_def)

lemma seg_after: "skip_ws s = c # t \<Longrightarrow> c \<noteq> CHR 0x22 \<Longrightarrow> seg s t"
  by (rule seg_trans [OF seg_skip seg_char])

lemma parse_value_seg_step:
  assumes ok: "seg_ok n" and p: "parse_value (Suc n) s = Some (v, r)"
  shows "seg s r"
proof (cases "skip_ws s")
  case (Cons c t)
  have open_seg: "seg s r" if "c \<noteq> CHR 0x22" "skip_ws t = d # u" "seg (d # u) r" for d u
    by (rule seg_trans [OF seg_trans [OF seg_after [OF Cons that(1)] seg_skip [OF that(2)]] that(3)])
  have close_seg: "seg s r" if "c \<noteq> CHR 0x22" "skip_ws t = d # r" "d \<noteq> CHR 0x22" for d
    by (rule open_seg [OF that(1,2) seg_char [OF that(3)]])
  have word: "seg s r" if "scan_literal l (c # t) = Some r" "CHR 0x22 \<notin> set l" for l
    by (rule seg_trans [OF seg_skip [OF Cons] seg_word [OF that]])
  consider (obj) "c = CHR ''{''" | (arr) "c = CHR ''[''" | (str) "c = CHR 0x22"
    | (lit) "c \<in> {CHR ''t'', CHR ''f'', CHR ''n''}"
    | (num) "c \<notin> {CHR ''{'', CHR ''['', CHR 0x22, CHR ''t'', CHR ''f'', CHR ''n''}"
    by blast
  then show ?thesis
  proof cases
    case obj
    obtain d u where u: "skip_ws t = d # u" using p Cons obj by (cases "skip_ws t") auto
    show ?thesis
    proof (cases "d = CHR ''}''")
      case True
      with p Cons obj u close_seg show ?thesis by simp
    next
      case False
      then obtain ms where "parse_members n (d # u) = Some (ms, r)" using p Cons obj u by auto
      with open_seg u obj seg_okD(3) [OF ok] show ?thesis by simp
    qed
  next
    case arr
    obtain d u where u: "skip_ws t = d # u" using p Cons arr by (cases "skip_ws t") auto
    show ?thesis
    proof (cases "d = CHR '']''")
      case True
      with p Cons arr u close_seg show ?thesis by simp
    next
      case False
      then obtain vs where "parse_elems n (d # u) = Some (vs, r)" using p Cons arr u by auto
      with open_seg u arr seg_okD(2) [OF ok] show ?thesis by simp
    qed
  next
    case str
    then obtain x where "unquote t = Some (x, r)" using p Cons by auto
    from seg_string [OF this] show ?thesis unfolding str [symmetric] by (rule seg_trans [OF seg_skip [OF Cons]])
  next
    case lit
    then show ?thesis using p Cons word by auto
  next
    case num
    then obtain l where "scan_number (c # t) = Some (l, r)" using p Cons by auto
    from seg_trans [OF seg_skip [OF Cons] seg_number [OF this]] show ?thesis .
  qed
qed (use p in simp)

lemma parse_elems_seg_step:
  assumes ok: "seg_ok n" and p: "parse_elems (Suc n) s = Some (vs, r)"
  shows "seg s r"
proof -
  obtain v t c u where v: "parse_value n s = Some (v, t)" "skip_ws t = c # u" "c = CHR '','' \<or> c = CHR '']''"
    using p by (auto split: option.splits list.splits if_splits)
  have "seg s u" by (rule seg_trans [OF seg_okD(1) [OF ok v(1)] seg_after [OF v(2)]]) (use v(3) in auto)
  moreover have "seg u r" using p v seg_okD(2) [OF ok] seg_refl by auto
  ultimately show ?thesis by (rule seg_trans)
qed

lemma parse_members_seg_step:
  assumes ok: "seg_ok n" and p: "parse_members (Suc n) s = Some (ms, r)"
  shows "seg s r"
proof -
  obtain s1 k s2 s3 v s4 c u where m: "skip_ws s = CHR 0x22 # s1" "unquote s1 = Some (k, s2)"
    "skip_ws s2 = CHR '':'' # s3" "parse_value n s3 = Some (v, s4)" "skip_ws s4 = c # u"
    "c = CHR '','' \<or> c = CHR ''}''"
    using p by (auto split: option.splits list.splits if_splits)
  have a: "seg s s2" by (rule seg_trans [OF seg_skip [OF m(1)] seg_string [OF m(2)]])
  have b: "seg s2 s4" by (rule seg_trans [OF seg_after [OF m(3)] seg_okD(1) [OF ok m(4)]]) simp
  have c: "seg s4 u" using seg_after [OF m(5)] m(6) by auto
  have d: "seg u r" using p m seg_okD(3) [OF ok] seg_refl by auto
  show ?thesis by (rule seg_trans [OF seg_trans [OF seg_trans [OF a b] c] d])
qed

lemma seg_ok_all: "seg_ok n"
proof (induction n)
  case (Suc n)
  show ?case
    unfolding seg_ok_def
    using parse_value_seg_step [OF Suc] parse_elems_seg_step [OF Suc] parse_members_seg_step [OF Suc] by blast
qed (simp add: seg_ok_def)

lemma skip_ws_Nil_all: "skip_ws r = [] \<Longrightarrow> \<forall>c \<in> set r. is_ws c"
  by (simp add: skip_ws_def dropWhile_eq_Nil_conv)

lemma compact_document_end:
  assumes "json_parse s = Some v" "\<forall>c \<in> set w. is_ws c"
  shows "compact_aux False (s @ w) = compact_aux False s"
proof -
  obtain r where r: "parse_value (Suc (2 * length s)) s = Some (v, r)" "skip_ws r = []"
    using assms(1) unfolding json_parse_Some by blast
  obtain p where p: "s = p @ r" "\<And>w. compact_aux False (p @ w) = compact_aux False p @ compact_aux False w"
    using seg_okD(1) [OF seg_ok_all r(1)] unfolding seg_def by blast
  have "compact_aux False (r @ w) = []"
    by (rule skip_ws_Nil_compact) (use r(2) assms(2) in \<open>simp add: skip_ws_def\<close>)
  then show ?thesis using p(2) [of "r @ w"] p(2) [of r] skip_ws_Nil_compact [OF r(2)] unfolding p(1) by simp
qed

text \<open>Marshalling a compact document gives it back.\<close>

theorem json_compact_line:
  assumes "json_compact s = Some t"
  shows "json_compact (t @ [CHR 0x0A]) = Some t"
proof -
  obtain v where v: "json_parse t = Some v"
    using json_compact_idem [OF assms] by (auto simp: json_compact_def json_valid_def split: if_splits)
  have ws: "\<forall>c \<in> set [CHR 0x0A]. is_ws c" by (simp add: is_ws_def)
  have "compact_aux False t = t"
    using json_compact_idem [OF assms] by (simp add: json_compact_def split: if_splits)
  then show ?thesis
    using json_parse_append_ws [OF ws v] compact_document_end [OF v ws]
    by (simp add: json_compact_def json_valid_def)
qed

end
