(* ===== verification/Property.thy ===== *)
theory Property
  imports Go_Base64 Go_Compact
begin

text \<open>
  The package \<^verbatim>\<open>internal/property\<close>: opaque properties, the typed properties with their JSON forms,
  the type scheme, \<^verbatim>\<open>Parse\<close>, \<^verbatim>\<open>Build\<close> and \<^verbatim>\<open>Deduplicate\<close>.

  A \<^verbatim>\<open>json.RawMessage\<close> is a \<open>string option\<close>, \<open>None\<close> for a nil slice. The locale \<open>json_codec\<close> is the
  contract between a typed property and \<^verbatim>\<open>encoding/json\<close>; it is interpreted on each of the eight
  registered types, and the round trip of \<^verbatim>\<open>Build\<close> and \<^verbatim>\<open>Parse\<close> rests on the interpretations.
\<close>

section \<open>Data\<close>

type_synonym raw_message = "string option"

definition raw_bytes :: "raw_message \<Rightarrow> string" where
  "raw_bytes r = (case r of None \<Rightarrow> [] | Some s \<Rightarrow> s)"

record Property =
  p_Type :: string
  p_Value :: raw_message

record Package =
  pkg_PackageName :: string
  pkg_Version :: string

record PackageRequired =
  req_PackageName :: string
  req_VersionRange :: string

record Channel =
  chan_Name :: string
  chan_Replaces :: string

record GVK =
  gvk_Group :: string
  gvk_Kind :: string
  gvk_Version :: string

record GVKRequired =
  gvkr_Group :: string
  gvkr_Kind :: string
  gvkr_Version :: string

type_synonym Skips = string
type_synonym SkipRange = string

text \<open>A file is a reference or the data itself; a nil and an empty data slice are not told apart.\<close>

record File =
  f_ref :: string
  f_data :: string

type_synonym BundleObject = File

record Properties =
  Packages :: "Package list"
  PackagesRequired :: "PackageRequired list"
  Channels :: "Channel list"
  GVKs :: "GVK list"
  GVKsRequired :: "GVKRequired list"
  SkipsL :: "Skips list"
  SkipRanges :: "SkipRange list"
  BundleObjects :: "BundleObject list"
  Others :: "Property list"

abbreviation no_properties :: Properties where
  "no_properties \<equiv>
     \<lparr>Packages = [], PackagesRequired = [], Channels = [], GVKs = [], GVKsRequired = [], SkipsL = [],
      SkipRanges = [], BundleObjects = [], Others = []\<rparr>"

definition TypePackage :: string where "TypePackage = ''olm.package''"
definition TypePackageRequired :: string where "TypePackageRequired = ''olm.package.required''"
definition TypeChannel :: string where "TypeChannel = ''olm.channel''"
definition TypeGVK :: string where "TypeGVK = ''olm.gvk''"
definition TypeGVKRequired :: string where "TypeGVKRequired = ''olm.gvk.required''"
definition TypeSkips :: string where "TypeSkips = ''olm.skips''"
definition TypeSkipRange :: string where "TypeSkipRange = ''olm.skipRange''"
definition TypeBundleObject :: string where "TypeBundleObject = ''olm.bundle.object''"

lemmas type_names = TypePackage_def TypePackageRequired_def TypeChannel_def TypeGVK_def
  TypeGVKRequired_def TypeSkips_def TypeSkipRange_def TypeBundleObject_def

section \<open>Validation\<close>

datatype property_error = TypeMustBeSet | ValueMustBeSet | ValueNotJSON

definition Property_Validate :: "Property \<Rightarrow> property_error + unit" where
  "Property_Validate p =
     (if p_Type p = [] then Inl TypeMustBeSet
      else if raw_bytes (p_Value p) = [] then Inl ValueMustBeSet
      else if \<not> json_valid (raw_bytes (p_Value p)) then Inl ValueNotJSON
      else Inr ())"

section \<open>JSON forms\<close>

text \<open>Encoding follows the order of the fields and leaves out empty fields marked \<^verbatim>\<open>omitempty\<close>.\<close>

definition omitempty :: "string \<Rightarrow> string \<Rightarrow> (string \<times> json) list" where
  "omitempty k s = (if s = [] then [] else [(k, JStr s)])"

definition enc_Package :: "Package \<Rightarrow> json" where
  "enc_Package p = JObj [(''packageName'', JStr (pkg_PackageName p)), (''version'', JStr (pkg_Version p))]"

definition dec_Package :: "json \<Rightarrow> Package option" where
  "dec_Package =
     decode_struct [''packageName'', ''version'']
       (\<lambda>n v p. if n = ''packageName''
                then map_option (\<lambda>s. p\<lparr>pkg_PackageName := s\<rparr>) (decode_string v (pkg_PackageName p))
                else map_option (\<lambda>s. p\<lparr>pkg_Version := s\<rparr>) (decode_string v (pkg_Version p)))
       \<lparr>pkg_PackageName = [], pkg_Version = []\<rparr>"

definition enc_PackageRequired :: "PackageRequired \<Rightarrow> json" where
  "enc_PackageRequired p =
     JObj [(''packageName'', JStr (req_PackageName p)), (''versionRange'', JStr (req_VersionRange p))]"

definition dec_PackageRequired :: "json \<Rightarrow> PackageRequired option" where
  "dec_PackageRequired =
     decode_struct [''packageName'', ''versionRange'']
       (\<lambda>n v p. if n = ''packageName''
                then map_option (\<lambda>s. p\<lparr>req_PackageName := s\<rparr>) (decode_string v (req_PackageName p))
                else map_option (\<lambda>s. p\<lparr>req_VersionRange := s\<rparr>) (decode_string v (req_VersionRange p)))
       \<lparr>req_PackageName = [], req_VersionRange = []\<rparr>"

definition enc_Channel :: "Channel \<Rightarrow> json" where
  "enc_Channel c = JObj ((''name'', JStr (chan_Name c)) # omitempty ''replaces'' (chan_Replaces c))"

definition dec_Channel :: "json \<Rightarrow> Channel option" where
  "dec_Channel =
     decode_struct [''name'', ''replaces'']
       (\<lambda>n v c. if n = ''name''
                then map_option (\<lambda>s. c\<lparr>chan_Name := s\<rparr>) (decode_string v (chan_Name c))
                else map_option (\<lambda>s. c\<lparr>chan_Replaces := s\<rparr>) (decode_string v (chan_Replaces c)))
       \<lparr>chan_Name = [], chan_Replaces = []\<rparr>"

definition enc_GVK :: "GVK \<Rightarrow> json" where
  "enc_GVK g =
     JObj [(''group'', JStr (gvk_Group g)), (''kind'', JStr (gvk_Kind g)), (''version'', JStr (gvk_Version g))]"

definition dec_GVK :: "json \<Rightarrow> GVK option" where
  "dec_GVK =
     decode_struct [''group'', ''kind'', ''version'']
       (\<lambda>n v g. if n = ''group'' then map_option (\<lambda>s. g\<lparr>gvk_Group := s\<rparr>) (decode_string v (gvk_Group g))
                else if n = ''kind'' then map_option (\<lambda>s. g\<lparr>gvk_Kind := s\<rparr>) (decode_string v (gvk_Kind g))
                else map_option (\<lambda>s. g\<lparr>gvk_Version := s\<rparr>) (decode_string v (gvk_Version g)))
       \<lparr>gvk_Group = [], gvk_Kind = [], gvk_Version = []\<rparr>"

definition enc_GVKRequired :: "GVKRequired \<Rightarrow> json" where
  "enc_GVKRequired g =
     JObj [(''group'', JStr (gvkr_Group g)), (''kind'', JStr (gvkr_Kind g)), (''version'', JStr (gvkr_Version g))]"

definition dec_GVKRequired :: "json \<Rightarrow> GVKRequired option" where
  "dec_GVKRequired =
     decode_struct [''group'', ''kind'', ''version'']
       (\<lambda>n v g. if n = ''group'' then map_option (\<lambda>s. g\<lparr>gvkr_Group := s\<rparr>) (decode_string v (gvkr_Group g))
                else if n = ''kind'' then map_option (\<lambda>s. g\<lparr>gvkr_Kind := s\<rparr>) (decode_string v (gvkr_Kind g))
                else map_option (\<lambda>s. g\<lparr>gvkr_Version := s\<rparr>) (decode_string v (gvkr_Version g)))
       \<lparr>gvkr_Group = [], gvkr_Kind = [], gvkr_Version = []\<rparr>"

definition dec_Skips :: "json \<Rightarrow> Skips option" where
  "dec_Skips v = decode_string v []"

definition dec_SkipRange :: "json \<Rightarrow> SkipRange option" where
  "dec_SkipRange v = decode_string v []"

text \<open>
  A byte slice is decoded from base64 text, from \<^verbatim>\<open>null\<close>, or from an array of numbers below 256,
  where a \<^verbatim>\<open>null\<close> element keeps the byte an earlier duplicate of the member put there.
\<close>

definition decode_uint8 :: "string \<Rightarrow> char option" where
  "decode_uint8 l =
     (let n = foldl (\<lambda>a c. 10 * a + (byte c - 48)) 0 l
      in if list_all is_digit l \<and> n < 256 then Some (char_of n) else None)"

fun decode_byte_list :: "json list \<Rightarrow> string \<Rightarrow> string option" where
  "decode_byte_list [] old = Some []"
| "decode_byte_list (v # vs) old =
     Option.bind (case v of JNum l \<Rightarrow> decode_uint8 l
                  | JNull \<Rightarrow> Some (if old = [] then CHR 0x00 else hd old)
                  | _ \<Rightarrow> None)
       (\<lambda>b. map_option ((#) b) (decode_byte_list vs (tl old)))"

definition decode_bytes :: "json \<Rightarrow> string \<Rightarrow> string option" where
  "decode_bytes v old =
     (case v of JStr s \<Rightarrow> base64_decode s | JNull \<Rightarrow> Some [] | JArr vs \<Rightarrow> decode_byte_list vs old | _ \<Rightarrow> None)"

definition File_UnmarshalJSON :: "json \<Rightarrow> File option" where
  "File_UnmarshalJSON v =
     Option.bind
       (decode_struct [''ref'', ''data'']
          (\<lambda>n v t. if n = ''ref'' then map_option (\<lambda>s. t\<lparr>f_ref := s\<rparr>) (decode_string v (f_ref t))
                   else map_option (\<lambda>s. t\<lparr>f_data := s\<rparr>) (decode_bytes v (f_data t)))
          \<lparr>f_ref = [], f_data = []\<rparr> v)
       (\<lambda>t. if f_ref t \<noteq> [] \<and> f_data t \<noteq> [] then None else Some t)"

definition enc_fileJSON :: "File \<Rightarrow> json" where
  "enc_fileJSON f = JObj (omitempty ''ref'' (f_ref f) @ omitempty ''data'' (base64_encode (f_data f)))"

definition File_MarshalJSON :: "File \<Rightarrow> string" where
  "File_MarshalJSON f = json_print True (enc_fileJSON f)"

definition File_IsRef :: "File \<Rightarrow> bool" where
  "File_IsRef f \<longleftrightarrow> f_ref f \<noteq> []"

definition File_GetRef :: "File \<Rightarrow> string" where
  "File_GetRef f = f_ref f"

text \<open>
  Reading a file: \<open>open_read\<close> is the file system that the caller passes, from a cleaned path to the
  contents, or to nothing when opening or reading fails.
\<close>

datatype file_error = RefMustBeRelative | FileNotReadable

definition File_GetData :: "(string \<Rightarrow> string option) \<Rightarrow> string \<Rightarrow> File \<Rightarrow> file_error + string" where
  "File_GetData open_read cwd f =
     (if \<not> File_IsRef f then Inr (f_data f)
      else if strings_HasPrefix (f_ref f) ''/'' then Inl RefMustBeRelative
      else of_option FileNotReadable (open_read (filepath_Join [cwd, f_ref f])))"

section \<open>Parse, Deduplicate\<close>

definition unmarshal :: "(json \<Rightarrow> 'a option) \<Rightarrow> raw_message \<Rightarrow> 'a option" where
  "unmarshal dec r = Option.bind (json_parse (raw_bytes r)) dec"

datatype parse_error = ParseError nat string

definition Parse_step :: "Property \<Rightarrow> Properties \<Rightarrow> Properties option" where
  "Parse_step prop out =
     (if p_Type prop = TypePackage then
        map_option (\<lambda>p. out\<lparr>Packages := Packages out @ [p]\<rparr>) (unmarshal dec_Package (p_Value prop))
      else if p_Type prop = TypePackageRequired then
        map_option (\<lambda>p. out\<lparr>PackagesRequired := PackagesRequired out @ [p]\<rparr>)
          (unmarshal dec_PackageRequired (p_Value prop))
      else if p_Type prop = TypeChannel then
        map_option (\<lambda>p. out\<lparr>Channels := Channels out @ [p]\<rparr>) (unmarshal dec_Channel (p_Value prop))
      else if p_Type prop = TypeGVK then
        map_option (\<lambda>p. out\<lparr>GVKs := GVKs out @ [p]\<rparr>) (unmarshal dec_GVK (p_Value prop))
      else if p_Type prop = TypeGVKRequired then
        map_option (\<lambda>p. out\<lparr>GVKsRequired := GVKsRequired out @ [p]\<rparr>) (unmarshal dec_GVKRequired (p_Value prop))
      else if p_Type prop = TypeSkips then
        map_option (\<lambda>p. out\<lparr>SkipsL := SkipsL out @ [p]\<rparr>) (unmarshal dec_Skips (p_Value prop))
      else if p_Type prop = TypeSkipRange then
        map_option (\<lambda>p. out\<lparr>SkipRanges := SkipRanges out @ [p]\<rparr>) (unmarshal dec_SkipRange (p_Value prop))
      else if p_Type prop = TypeBundleObject then
        map_option (\<lambda>p. out\<lparr>BundleObjects := BundleObjects out @ [p]\<rparr>)
          (unmarshal File_UnmarshalJSON (p_Value prop))
      else
        map_option (\<lambda>_. out\<lparr>Others := Others out @ [prop]\<rparr>) (unmarshal Some (p_Value prop)))"

fun Parse_loop :: "nat \<Rightarrow> Property list \<Rightarrow> Properties \<Rightarrow> parse_error + Properties" where
  "Parse_loop i [] out = Inr out"
| "Parse_loop i (prop # ps) out =
     (case Parse_step prop out of
        None \<Rightarrow> Inl (ParseError i (p_Type prop))
      | Some out' \<Rightarrow> Parse_loop (Suc i) ps out')"

definition Parse :: "Property list \<Rightarrow> parse_error + Properties" where
  "Parse ps = Parse_loop 0 ps no_properties"

definition dedup_key :: "Property \<Rightarrow> string \<times> string" where
  "dedup_key p = (p_Type p, raw_bytes (p_Value p))"

fun Deduplicate_loop ::
  "Property list \<Rightarrow> (string \<times> string, Property) gomap \<Rightarrow> Property list \<Rightarrow> Property list" where
  "Deduplicate_loop [] props out = out"
| "Deduplicate_loop (p # ps) props out =
     (if gm_has props (dedup_key p) then Deduplicate_loop ps props out
      else Deduplicate_loop ps (gm_put (dedup_key p) p props) (out @ [p]))"

definition Deduplicate :: "Property list \<Rightarrow> Property list" where
  "Deduplicate ps = Deduplicate_loop ps [] []"

section \<open>The scheme and Build\<close>

text \<open>
  The dynamic values \<^verbatim>\<open>Build\<close> is called with: pointers to the types of this package, a pointer to
  another type with the outcome of encoding what it points to, a value that is no pointer, and the
  nil interface.
\<close>

datatype iface = IProperty Property | IPackage Package | IPackageRequired PackageRequired
  | IChannel Channel | IGVK GVK | IGVKRequired GVKRequired | ISkips Skips | ISkipRange SkipRange
  | IBundleObject BundleObject | IPointer string "json option" | IValue string | INil

datatype gotype = Ptr string | Val string

fun TypeOf :: "iface \<Rightarrow> gotype option" where
  "TypeOf (IProperty _) = Some (Ptr ''Property'')"
| "TypeOf (IPackage _) = Some (Ptr ''Package'')"
| "TypeOf (IPackageRequired _) = Some (Ptr ''PackageRequired'')"
| "TypeOf (IChannel _) = Some (Ptr ''Channel'')"
| "TypeOf (IGVK _) = Some (Ptr ''GVK'')"
| "TypeOf (IGVKRequired _) = Some (Ptr ''GVKRequired'')"
| "TypeOf (ISkips _) = Some (Ptr ''Skips'')"
| "TypeOf (ISkipRange _) = Some (Ptr ''SkipRange'')"
| "TypeOf (IBundleObject _) = Some (Ptr ''BundleObject'')"
| "TypeOf (IPointer t _) = Some (Ptr t)"
| "TypeOf (IValue t) = Some (Val t)"
| "TypeOf INil = None"

type_synonym scheme = "(gotype, string) gomap"

definition scheme_init :: scheme where
  "scheme_init =
     [(Ptr ''Package'', TypePackage), (Ptr ''PackageRequired'', TypePackageRequired),
      (Ptr ''Channel'', TypeChannel), (Ptr ''GVK'', TypeGVK), (Ptr ''GVKRequired'', TypeGVKRequired),
      (Ptr ''Skips'', TypeSkips), (Ptr ''SkipRange'', TypeSkipRange),
      (Ptr ''BundleObject'', TypeBundleObject)]"

datatype scheme_panic = NilType | NotAPointer | AlreadyRegistered gotype

definition AddToScheme :: "string \<Rightarrow> iface \<Rightarrow> scheme \<Rightarrow> scheme_panic + scheme" where
  "AddToScheme typ p sch =
     (case TypeOf p of
        None \<Rightarrow> Inl NilType
      | Some (Val _) \<Rightarrow> Inl NotAPointer
      | Some (Ptr t) \<Rightarrow>
          if gm_has sch (Ptr t) then Inl (AlreadyRegistered (Ptr t)) else Inr (gm_put (Ptr t) typ sch))"

datatype build_error = InputNotPointer | NotRegistered gotype | MarshalFailed | NilInput

text \<open>
  What the encoder writes before its newline. A raw message and a file marshal themselves, and the
  encoder compacts their text; a nil raw message is \<^verbatim>\<open>null\<close>.
\<close>

fun encode_text :: "iface \<Rightarrow> string option" where
  "encode_text (IProperty p) = json_compact (case p_Value p of None \<Rightarrow> ''null'' | Some d \<Rightarrow> d)"
| "encode_text (IPackage p) = Some (json_print False (enc_Package p))"
| "encode_text (IPackageRequired p) = Some (json_print False (enc_PackageRequired p))"
| "encode_text (IChannel c) = Some (json_print False (enc_Channel c))"
| "encode_text (IGVK g) = Some (json_print False (enc_GVK g))"
| "encode_text (IGVKRequired g) = Some (json_print False (enc_GVKRequired g))"
| "encode_text (ISkips s) = Some (json_print False (JStr s))"
| "encode_text (ISkipRange s) = Some (json_print False (JStr s))"
| "encode_text (IBundleObject f) = json_compact (File_MarshalJSON f)"
| "encode_text (IPointer t v) = map_option (json_print False) v"
| "encode_text (IValue t) = None"
| "encode_text INil = None"

definition jsonMarshal :: "iface \<Rightarrow> build_error + string" where
  "jsonMarshal p =
     (case encode_text p of
        None \<Rightarrow> Inl MarshalFailed
      | Some d \<Rightarrow> of_option MarshalFailed (json_compact (d @ [CHR 0x0A])))"

definition Build :: "scheme \<Rightarrow> iface \<Rightarrow> build_error + Property" where
  "Build sch p =
     bindr
       (case p of
          IProperty prop \<Rightarrow> Inr (p_Type prop)
        | _ \<Rightarrow>
            (case TypeOf p of
               None \<Rightarrow> Inl NilInput
             | Some (Val _) \<Rightarrow> Inl InputNotPointer
             | Some (Ptr t) \<Rightarrow> of_option (NotRegistered (Ptr t)) (gm_get sch (Ptr t))))
       (\<lambda>typ. bindr (jsonMarshal p) (\<lambda>d. Inr \<lparr>p_Type = typ, p_Value = Some d\<rparr>))"

text \<open>\<^verbatim>\<open>MustBuild\<close> panics with the error of \<^verbatim>\<open>Build\<close>.\<close>

datatype 'e panic = Panic 'e

definition MustBuild :: "scheme \<Rightarrow> iface \<Rightarrow> build_error panic + Property" where
  "MustBuild sch p = (case Build sch p of Inl e \<Rightarrow> Inl (Panic e) | Inr prop \<Rightarrow> Inr prop)"

definition MustBuildPackage :: "scheme \<Rightarrow> string \<Rightarrow> string \<Rightarrow> build_error panic + Property" where
  "MustBuildPackage sch name version = MustBuild sch (IPackage \<lparr>pkg_PackageName = name, pkg_Version = version\<rparr>)"

definition MustBuildPackageRequired :: "scheme \<Rightarrow> string \<Rightarrow> string \<Rightarrow> build_error panic + Property" where
  "MustBuildPackageRequired sch name versionRange =
     MustBuild sch (IPackageRequired \<lparr>req_PackageName = name, req_VersionRange = versionRange\<rparr>)"

definition MustBuildChannel :: "scheme \<Rightarrow> string \<Rightarrow> string \<Rightarrow> build_error panic + Property" where
  "MustBuildChannel sch name replaces = MustBuild sch (IChannel \<lparr>chan_Name = name, chan_Replaces = replaces\<rparr>)"

definition MustBuildGVK :: "scheme \<Rightarrow> string \<Rightarrow> string \<Rightarrow> string \<Rightarrow> build_error panic + Property" where
  "MustBuildGVK sch grp version kind =
     MustBuild sch (IGVK \<lparr>gvk_Group = grp, gvk_Kind = kind, gvk_Version = version\<rparr>)"

definition MustBuildGVKRequired :: "scheme \<Rightarrow> string \<Rightarrow> string \<Rightarrow> string \<Rightarrow> build_error panic + Property" where
  "MustBuildGVKRequired sch grp version kind =
     MustBuild sch (IGVKRequired \<lparr>gvkr_Group = grp, gvkr_Kind = kind, gvkr_Version = version\<rparr>)"

definition MustBuildSkips :: "scheme \<Rightarrow> string \<Rightarrow> build_error panic + Property" where
  "MustBuildSkips sch skips = MustBuild sch (ISkips skips)"

definition MustBuildSkipRange :: "scheme \<Rightarrow> string \<Rightarrow> build_error panic + Property" where
  "MustBuildSkipRange sch skipRange = MustBuild sch (ISkipRange skipRange)"

definition MustBuildBundleObjectRef :: "scheme \<Rightarrow> string \<Rightarrow> build_error panic + Property" where
  "MustBuildBundleObjectRef sch ref = MustBuild sch (IBundleObject \<lparr>f_ref = ref, f_data = []\<rparr>)"

definition MustBuildBundleObjectData :: "scheme \<Rightarrow> string \<Rightarrow> build_error panic + Property" where
  "MustBuildBundleObjectData sch data = MustBuild sch (IBundleObject \<lparr>f_ref = [], f_data = data\<rparr>)"

section \<open>The contract of a typed property\<close>

locale json_codec =
  fixes enc :: "'a \<Rightarrow> json" and dec :: "json \<Rightarrow> 'a option" and ok :: "'a \<Rightarrow> bool"
  assumes dec_enc: "ok x \<Longrightarrow> dec (enc x) = Some x"
    and enc_wf: "ok x \<Longrightarrow> json_wf (enc x)"
    and enc_depth: "json_depth (enc x) \<le> 10000"
begin

lemma unmarshal_print: "ok x \<Longrightarrow> unmarshal dec (Some (json_print html (enc x))) = Some x"
  by (simp add: unmarshal_def raw_bytes_def json_parse_print enc_wf enc_depth dec_enc)

lemma compact_text: "ok x \<Longrightarrow> json_compact (json_print html (enc x)) = Some (json_print html (enc x))"
  using compact_print [of "enc x" html "[]"]
  by (simp add: json_compact_def json_valid_def json_parse_print enc_wf enc_depth)

lemma compact_line: "ok x \<Longrightarrow> json_compact (json_print html (enc x) @ [CHR 0x0A]) = Some (json_print html (enc x))"
  by (simp add: json_compact_print enc_wf enc_depth)

end

text \<open>The values whose strings are UTF-8, with at most one of reference and data in a file.\<close>

definition ok_Package :: "Package \<Rightarrow> bool" where
  "ok_Package p \<longleftrightarrow> valid_utf8 (pkg_PackageName p) \<and> valid_utf8 (pkg_Version p)"

definition ok_PackageRequired :: "PackageRequired \<Rightarrow> bool" where
  "ok_PackageRequired p \<longleftrightarrow> valid_utf8 (req_PackageName p) \<and> valid_utf8 (req_VersionRange p)"

definition ok_Channel :: "Channel \<Rightarrow> bool" where
  "ok_Channel c \<longleftrightarrow> valid_utf8 (chan_Name c) \<and> valid_utf8 (chan_Replaces c)"

definition ok_GVK :: "GVK \<Rightarrow> bool" where
  "ok_GVK g \<longleftrightarrow> valid_utf8 (gvk_Group g) \<and> valid_utf8 (gvk_Kind g) \<and> valid_utf8 (gvk_Version g)"

definition ok_GVKRequired :: "GVKRequired \<Rightarrow> bool" where
  "ok_GVKRequired g \<longleftrightarrow> valid_utf8 (gvkr_Group g) \<and> valid_utf8 (gvkr_Kind g) \<and> valid_utf8 (gvkr_Version g)"

definition ok_File :: "File \<Rightarrow> bool" where
  "ok_File f \<longleftrightarrow> valid_utf8 (f_ref f) \<and> (f_ref f = [] \<or> f_data f = [])"

lemma valid_utf8_literal: "list_all (\<lambda>c. byte c < 0x80) s \<Longrightarrow> valid_utf8 s"
  by (rule valid_utf8_ASCII) (simp add: list_all_iff)

named_theorems codec_simps

lemmas codec_defs [codec_simps] = enc_Package_def dec_Package_def ok_Package_def enc_PackageRequired_def
  dec_PackageRequired_def ok_PackageRequired_def enc_Channel_def dec_Channel_def ok_Channel_def
  enc_GVK_def dec_GVK_def ok_GVK_def enc_GVKRequired_def dec_GVKRequired_def ok_GVKRequired_def
  dec_Skips_def dec_SkipRange_def enc_fileJSON_def File_UnmarshalJSON_def ok_File_def
  omitempty_def decode_struct_def valid_utf8_literal byte_def decode_bytes_def
  base64_decode_encode base64_encode_utf8

interpretation pkg: json_codec enc_Package dec_Package ok_Package
  by unfold_locales (auto simp: codec_simps)

interpretation req: json_codec enc_PackageRequired dec_PackageRequired ok_PackageRequired
  by unfold_locales (auto simp: codec_simps)

interpretation chan: json_codec enc_Channel dec_Channel ok_Channel
  by unfold_locales (auto simp: codec_simps)

interpretation gvk: json_codec enc_GVK dec_GVK ok_GVK
  by unfold_locales (auto simp: codec_simps)

interpretation gvkr: json_codec enc_GVKRequired dec_GVKRequired ok_GVKRequired
  by unfold_locales (auto simp: codec_simps)

interpretation skip: json_codec JStr dec_Skips valid_utf8
  by unfold_locales (auto simp: codec_simps)

interpretation skipr: json_codec JStr dec_SkipRange valid_utf8
  by unfold_locales (auto simp: codec_simps)

interpretation bobj: json_codec enc_fileJSON File_UnmarshalJSON ok_File
  by unfold_locales (auto simp: codec_simps)

section \<open>Properties of Parse\<close>

text \<open>What the value of a property must decode to, by its type.\<close>

definition decodes :: "Property \<Rightarrow> bool" where
  "decodes p \<longleftrightarrow>
     (if p_Type p = TypePackage then unmarshal dec_Package (p_Value p) \<noteq> None
      else if p_Type p = TypePackageRequired then unmarshal dec_PackageRequired (p_Value p) \<noteq> None
      else if p_Type p = TypeChannel then unmarshal dec_Channel (p_Value p) \<noteq> None
      else if p_Type p = TypeGVK then unmarshal dec_GVK (p_Value p) \<noteq> None
      else if p_Type p = TypeGVKRequired then unmarshal dec_GVKRequired (p_Value p) \<noteq> None
      else if p_Type p = TypeSkips then unmarshal dec_Skips (p_Value p) \<noteq> None
      else if p_Type p = TypeSkipRange then unmarshal dec_SkipRange (p_Value p) \<noteq> None
      else if p_Type p = TypeBundleObject then unmarshal File_UnmarshalJSON (p_Value p) \<noteq> None
      else json_valid (raw_bytes (p_Value p)))"

definition of_type :: "string \<Rightarrow> (json \<Rightarrow> 'a option) \<Rightarrow> Property list \<Rightarrow> 'a list" where
  "of_type t dec ps = map (\<lambda>p. the (unmarshal dec (p_Value p))) (filter (\<lambda>p. p_Type p = t) ps)"

definition known_types :: "string list" where
  "known_types = [TypePackage, TypePackageRequired, TypeChannel, TypeGVK, TypeGVKRequired, TypeSkips,
     TypeSkipRange, TypeBundleObject]"

text \<open>Every property in the list of its type, in the order of the input.\<close>

definition classified :: "Property list \<Rightarrow> Properties" where
  "classified ps =
     \<lparr>Packages = of_type TypePackage dec_Package ps,
      PackagesRequired = of_type TypePackageRequired dec_PackageRequired ps,
      Channels = of_type TypeChannel dec_Channel ps,
      GVKs = of_type TypeGVK dec_GVK ps,
      GVKsRequired = of_type TypeGVKRequired dec_GVKRequired ps,
      SkipsL = of_type TypeSkips dec_Skips ps,
      SkipRanges = of_type TypeSkipRange dec_SkipRange ps,
      BundleObjects = of_type TypeBundleObject File_UnmarshalJSON ps,
      Others = filter (\<lambda>p. p_Type p \<notin> set known_types) ps\<rparr>"

definition props_append :: "Properties \<Rightarrow> Properties \<Rightarrow> Properties" where
  "props_append a b =
     \<lparr>Packages = Packages a @ Packages b, PackagesRequired = PackagesRequired a @ PackagesRequired b,
      Channels = Channels a @ Channels b, GVKs = GVKs a @ GVKs b, GVKsRequired = GVKsRequired a @ GVKsRequired b,
      SkipsL = SkipsL a @ SkipsL b, SkipRanges = SkipRanges a @ SkipRanges b,
      BundleObjects = BundleObjects a @ BundleObjects b, Others = Others a @ Others b\<rparr>"

lemma type_names_distinct: "distinct known_types"
  by (simp add: known_types_def type_names)

lemma props_append_assoc: "props_append (props_append a b) c = props_append a (props_append b c)"
  by (simp add: props_append_def)

lemma props_append_Nil [simp]: "props_append no_properties b = b"
  by (simp add: props_append_def)

lemma classified_append: "classified (ps @ qs) = props_append (classified ps) (classified qs)"
  by (simp add: classified_def props_append_def of_type_def)

lemma classified_Cons: "classified (p # ps) = props_append (classified [p]) (classified ps)"
  using classified_append [of "[p]" ps] by (simp only: append_Cons append_Nil)

lemma classified_Nil: "classified [] = no_properties"
  by (simp add: classified_def of_type_def)

lemma props_append_classified_Nil [simp]: "props_append a (classified []) = a"
  by (simp add: classified_def of_type_def props_append_def)

lemma eq_False_sym: "(a = b) = False \<Longrightarrow> (b = a) = False"
  by auto

lemma type_name_cases:
  obtains "t = TypePackage" | "t = TypePackageRequired" | "t = TypeChannel" | "t = TypeGVK"
    | "t = TypeGVKRequired" | "t = TypeSkips" | "t = TypeSkipRange" | "t = TypeBundleObject"
    | "t \<notin> set known_types"
  unfolding known_types_def list.set insert_iff empty_iff by blast

lemma type_names_distinct_simps [simp]:
  "(TypePackage = TypePackageRequired) = False" "(TypePackage = TypeChannel) = False"
  "(TypePackage = TypeGVK) = False" "(TypePackage = TypeGVKRequired) = False"
  "(TypePackage = TypeSkips) = False" "(TypePackage = TypeSkipRange) = False"
  "(TypePackage = TypeBundleObject) = False" "(TypePackageRequired = TypeChannel) = False"
  "(TypePackageRequired = TypeGVK) = False" "(TypePackageRequired = TypeGVKRequired) = False"
  "(TypePackageRequired = TypeSkips) = False" "(TypePackageRequired = TypeSkipRange) = False"
  "(TypePackageRequired = TypeBundleObject) = False" "(TypeChannel = TypeGVK) = False"
  "(TypeChannel = TypeGVKRequired) = False" "(TypeChannel = TypeSkips) = False"
  "(TypeChannel = TypeSkipRange) = False" "(TypeChannel = TypeBundleObject) = False"
  "(TypeGVK = TypeGVKRequired) = False" "(TypeGVK = TypeSkips) = False" "(TypeGVK = TypeSkipRange) = False"
  "(TypeGVK = TypeBundleObject) = False" "(TypeGVKRequired = TypeSkips) = False"
  "(TypeGVKRequired = TypeSkipRange) = False" "(TypeGVKRequired = TypeBundleObject) = False"
  "(TypeSkips = TypeSkipRange) = False" "(TypeSkips = TypeBundleObject) = False"
  "(TypeSkipRange = TypeBundleObject) = False"
  by (simp_all add: type_names)

lemmas type_names_distinct_sym [simp] = type_names_distinct_simps [THEN eq_False_sym]

lemma unmarshal_Some: "unmarshal Some r = json_parse (raw_bytes r)"
  by (simp add: unmarshal_def)

lemma known_types_mem [simp]:
  "TypePackage \<in> set known_types" "TypePackageRequired \<in> set known_types" "TypeChannel \<in> set known_types"
  "TypeGVK \<in> set known_types" "TypeGVKRequired \<in> set known_types" "TypeSkips \<in> set known_types"
  "TypeSkipRange \<in> set known_types" "TypeBundleObject \<in> set known_types"
  by (simp_all add: known_types_def)

lemma unknown_type:
  "t \<notin> set known_types \<Longrightarrow> t \<noteq> TypePackage \<and> t \<noteq> TypePackageRequired \<and> t \<noteq> TypeChannel \<and> t \<noteq> TypeGVK
     \<and> t \<noteq> TypeGVKRequired \<and> t \<noteq> TypeSkips \<and> t \<noteq> TypeSkipRange \<and> t \<noteq> TypeBundleObject"
  unfolding known_types_def list.set insert_iff empty_iff by blast

lemma of_type_single:
  "of_type t dec [p] = (if p_Type p = t then [the (unmarshal dec (p_Value p))] else [])"
  by (simp add: of_type_def)

lemmas Parse_step_simps = Parse_step_def decodes_def classified_def of_type_single props_append_def

lemma Parse_step_eq:
  "Parse_step p out = (if decodes p then Some (props_append out (classified [p])) else None)"
proof (cases "p_Type p" rule: type_name_cases)
  case 1
  then show ?thesis by (cases out; cases "unmarshal dec_Package (p_Value p)") (simp_all add: Parse_step_simps)
next
  case 2
  then show ?thesis
    by (cases out; cases "unmarshal dec_PackageRequired (p_Value p)") (simp_all add: Parse_step_simps)
next
  case 3
  then show ?thesis by (cases out; cases "unmarshal dec_Channel (p_Value p)") (simp_all add: Parse_step_simps)
next
  case 4
  then show ?thesis by (cases out; cases "unmarshal dec_GVK (p_Value p)") (simp_all add: Parse_step_simps)
next
  case 5
  then show ?thesis by (cases out; cases "unmarshal dec_GVKRequired (p_Value p)") (simp_all add: Parse_step_simps)
next
  case 6
  then show ?thesis by (cases out; cases "unmarshal dec_Skips (p_Value p)") (simp_all add: Parse_step_simps)
next
  case 7
  then show ?thesis by (cases out; cases "unmarshal dec_SkipRange (p_Value p)") (simp_all add: Parse_step_simps)
next
  case 8
  then show ?thesis
    by (cases out; cases "unmarshal File_UnmarshalJSON (p_Value p)") (simp_all add: Parse_step_simps)
next
  case 9
  then show ?thesis
    using unknown_type [OF 9]
    by (cases out; cases "json_parse (raw_bytes (p_Value p))")
      (simp_all add: Parse_step_simps unmarshal_Some json_valid_def)
qed

lemma Parse_loop_ok:
  "\<forall>p \<in> set ps. decodes p \<Longrightarrow> Parse_loop i ps out = Inr (props_append out (classified ps))"
  by (induction ps arbitrary: i out)
    (simp_all add: Parse_step_eq props_append_assoc flip: classified_Cons)

lemma Parse_loop_error:
  "j < length ps \<Longrightarrow> \<forall>k < j. decodes (ps ! k) \<Longrightarrow> \<not> decodes (ps ! j) \<Longrightarrow>
     Parse_loop i ps out = Inl (ParseError (i + j) (p_Type (ps ! j)))"
proof (induction ps arbitrary: i j out)
  case (Cons p ps)
  show ?case
  proof (cases j)
    case (Suc j')
    have "decodes p" using Cons.prems(2) [rule_format, of 0] Suc by simp
    moreover have "\<forall>k < j'. decodes (ps ! k)" using Cons.prems(2) [rule_format, of "Suc _"] Suc by simp
    ultimately show ?thesis
      using Cons.IH [of j' "Suc i" "props_append out (classified [p])"] Cons.prems Suc
      by (simp add: Parse_step_eq)
  qed (use Cons.prems in \<open>simp add: Parse_step_eq\<close>)
qed simp

lemma first_failure:
  assumes "\<not> (\<forall>p \<in> set ps. decodes p)"
  obtains j where "j < length ps" "\<forall>k < j. decodes (ps ! k)" "\<not> decodes (ps ! j)"
proof -
  let ?P = "\<lambda>j. j < length ps \<and> \<not> decodes (ps ! j)"
  have "\<exists>j. ?P j" using assms by (metis in_set_conv_nth)
  then have "?P (LEAST j. ?P j)" by (rule LeastI_ex)
  moreover have "\<forall>k < (LEAST j. ?P j). decodes (ps ! k)"
    using calculation not_less_Least [of _ ?P] less_trans by blast
  ultimately show thesis using that by blast
qed

text \<open>
  C7: \<^verbatim>\<open>Parse\<close> returns an error exactly when some property's value does not decode at its type, and then
  names the first such property; otherwise every property is in the list of its type, in input order,
  and a property of an unknown type is kept unchanged.
\<close>

theorem Parse_spec:
  "case Parse ps of
     Inr out \<Rightarrow> (\<forall>p. p \<in> set ps \<longrightarrow> decodes p) \<and> out = classified ps
   | Inl (ParseError i t) \<Rightarrow>
       i < length ps \<and> \<not> decodes (ps ! i) \<and> t = p_Type (ps ! i) \<and> (\<forall>j. j < i \<longrightarrow> decodes (ps ! j))"
proof (cases "\<forall>p \<in> set ps. decodes p")
  case True
  then show ?thesis by (simp add: Parse_def Parse_loop_ok)
next
  case False
  then show ?thesis
    by (rule first_failure) (simp add: Parse_def Parse_loop_error)
qed

theorem Parse_spec_witness:
  "Parse [\<lparr>p_Type = ''x'', p_Value = Some ''1''\<rparr>, \<lparr>p_Type = TypeSkips, p_Value = Some ''1''\<rparr>]
     = Inl (ParseError 1 TypeSkips)
   \<and> decodes \<lparr>p_Type = ''x'', p_Value = Some ''1''\<rparr> \<and> \<not> decodes \<lparr>p_Type = TypeSkips, p_Value = Some ''1''\<rparr>"
proof -
  have "Parse [\<lparr>p_Type = ''x'', p_Value = Some ''1''\<rparr>, \<lparr>p_Type = TypeSkips, p_Value = Some ''1''\<rparr>]
     = Inl (ParseError 1 TypeSkips)"
    by code_simp
  with Parse_spec [of "[\<lparr>p_Type = ''x'', p_Value = Some ''1''\<rparr>, \<lparr>p_Type = TypeSkips, p_Value = Some ''1''\<rparr>]"]
  show ?thesis by simp
qed

section \<open>Build followed by Parse\<close>

definition iface_ok :: "iface \<Rightarrow> bool" where
  "iface_ok p =
     (case p of IPackage x \<Rightarrow> ok_Package x | IPackageRequired x \<Rightarrow> ok_PackageRequired x
      | IChannel x \<Rightarrow> ok_Channel x | IGVK x \<Rightarrow> ok_GVK x | IGVKRequired x \<Rightarrow> ok_GVKRequired x
      | ISkips x \<Rightarrow> valid_utf8 x | ISkipRange x \<Rightarrow> valid_utf8 x | IBundleObject x \<Rightarrow> ok_File x
      | _ \<Rightarrow> False)"

definition collected :: "iface list \<Rightarrow> Properties" where
  "collected is =
     \<lparr>Packages = [x. IPackage x \<leftarrow> is], PackagesRequired = [x. IPackageRequired x \<leftarrow> is],
      Channels = [x. IChannel x \<leftarrow> is], GVKs = [x. IGVK x \<leftarrow> is], GVKsRequired = [x. IGVKRequired x \<leftarrow> is],
      SkipsL = [x. ISkips x \<leftarrow> is], SkipRanges = [x. ISkipRange x \<leftarrow> is],
      BundleObjects = [x. IBundleObject x \<leftarrow> is], Others = []\<rparr>"

lemmas codec_lines = pkg.compact_line req.compact_line chan.compact_line gvk.compact_line gvkr.compact_line
  skip.compact_line skipr.compact_line bobj.compact_line bobj.compact_text

lemmas codec_prints = pkg.unmarshal_print req.unmarshal_print chan.unmarshal_print gvk.unmarshal_print
  gvkr.unmarshal_print skip.unmarshal_print skipr.unmarshal_print bobj.unmarshal_print

lemma scheme_get [simp]:
  "gm_get scheme_init (Ptr ''Package'') = Some TypePackage"
  "gm_get scheme_init (Ptr ''PackageRequired'') = Some TypePackageRequired"
  "gm_get scheme_init (Ptr ''Channel'') = Some TypeChannel"
  "gm_get scheme_init (Ptr ''GVK'') = Some TypeGVK"
  "gm_get scheme_init (Ptr ''GVKRequired'') = Some TypeGVKRequired"
  "gm_get scheme_init (Ptr ''Skips'') = Some TypeSkips"
  "gm_get scheme_init (Ptr ''SkipRange'') = Some TypeSkipRange"
  "gm_get scheme_init (Ptr ''BundleObject'') = Some TypeBundleObject"
  by (simp_all add: scheme_init_def)

text \<open>What \<^verbatim>\<open>Build\<close> makes of one value.\<close>

definition built :: "iface \<Rightarrow> Property" where
  "built p =
     (case p of
        IPackage x \<Rightarrow> \<lparr>p_Type = TypePackage, p_Value = Some (json_print False (enc_Package x))\<rparr>
      | IPackageRequired x \<Rightarrow> \<lparr>p_Type = TypePackageRequired, p_Value = Some (json_print False (enc_PackageRequired x))\<rparr>
      | IChannel x \<Rightarrow> \<lparr>p_Type = TypeChannel, p_Value = Some (json_print False (enc_Channel x))\<rparr>
      | IGVK x \<Rightarrow> \<lparr>p_Type = TypeGVK, p_Value = Some (json_print False (enc_GVK x))\<rparr>
      | IGVKRequired x \<Rightarrow> \<lparr>p_Type = TypeGVKRequired, p_Value = Some (json_print False (enc_GVKRequired x))\<rparr>
      | ISkips x \<Rightarrow> \<lparr>p_Type = TypeSkips, p_Value = Some (json_print False (JStr x))\<rparr>
      | ISkipRange x \<Rightarrow> \<lparr>p_Type = TypeSkipRange, p_Value = Some (json_print False (JStr x))\<rparr>
      | IBundleObject x \<Rightarrow> \<lparr>p_Type = TypeBundleObject, p_Value = Some (json_print True (enc_fileJSON x))\<rparr>
      | _ \<Rightarrow> \<lparr>p_Type = [], p_Value = None\<rparr>)"

lemma Build_built: "iface_ok p \<Longrightarrow> Build scheme_init p = Inr (built p)"
  by (cases p)
    (simp_all add: iface_ok_def Build_def jsonMarshal_def File_MarshalJSON_def built_def codec_lines
      del: json_print.simps)

lemma built_classified: "iface_ok p \<Longrightarrow> decodes (built p) \<and> classified [built p] = collected [p]"
  by (cases p)
    (simp_all add: iface_ok_def built_def decodes_def classified_def of_type_single collected_def codec_prints
      del: json_print.simps)

lemma collected_Cons: "collected (p # ps) = props_append (collected [p]) (collected ps)"
  by (simp add: collected_def props_append_def)

lemma classified_built: "list_all iface_ok is \<Longrightarrow> classified (map built is) = collected is"
proof (induction "is")
  case (Cons p ps)
  have "classified (map built (p # ps)) = props_append (classified [built p]) (classified (map built ps))"
    unfolding list.map by (rule classified_Cons)
  also have "\<dots> = collected (p # ps)"
    using Cons built_classified [of p] unfolding collected_Cons [of p ps] by simp
  finally show ?case .
qed (simp add: classified_Nil collected_def)

lemma mapM_Build: "list_all iface_ok is \<Longrightarrow> mapM (Build scheme_init) is = Inr (map built is)"
  by (induction "is") (simp_all add: Build_built)

lemma json_parse_Nil [simp]: "json_parse [] = None"
  by (simp add: json_parse_def)

lemma decodes_json_valid: "decodes p \<Longrightarrow> json_valid (raw_bytes (p_Value p))"
  by (auto simp: decodes_def unmarshal_def json_valid_def bind_eq_None_conv split: if_splits)

lemma decodes_Validate: "decodes p \<Longrightarrow> p_Type p \<noteq> [] \<Longrightarrow> Property_Validate p = Inr ()"
  using decodes_json_valid [of p] by (auto simp: Property_Validate_def json_valid_def)

lemma built_type: "iface_ok p \<Longrightarrow> p_Type (built p) \<noteq> []"
  by (cases p) (simp_all add: iface_ok_def built_def type_names)

text \<open>
  C5: Typed properties survive \<^verbatim>\<open>Build\<close> followed by \<^verbatim>\<open>Parse\<close>: for any list of values of the eight registered
  types whose strings are UTF-8, building each one succeeds, what is built passes \<^verbatim>\<open>Validate\<close>, and
  parsing the built properties gives back exactly the values, in order, and no other property.
\<close>

theorem Parse_Build:
  assumes "list_all iface_ok is"
  shows "\<exists>ps. mapM (Build scheme_init) is = Inr ps \<and> list_all (\<lambda>p. Property_Validate p = Inr ()) ps
    \<and> Parse ps = Inr (collected is)"
proof -
  have "\<forall>p \<in> set (map built is). decodes p \<and> p_Type p \<noteq> []"
    using assms built_classified built_type by (auto simp: list_all_iff)
  then show ?thesis
    using mapM_Build [OF assms] classified_built [OF assms]
    by (simp add: list_all_iff decodes_Validate Parse_def Parse_loop_ok)
qed

definition sample_values :: "iface list" where
  "sample_values = [IPackage \<lparr>pkg_PackageName = ''etcd'', pkg_Version = ''0.9.0''\<rparr>, ISkips ''etcd.v0.8.0'',
     IChannel \<lparr>chan_Name = ''alpha'', chan_Replaces = []\<rparr>, IBundleObject \<lparr>f_ref = [], f_data = ''<&>''\<rparr>]"

theorem Parse_Build_witness:
  "\<exists>ps. mapM (Build scheme_init) sample_values = Inr ps \<and> list_all (\<lambda>p. Property_Validate p = Inr ()) ps
    \<and> Parse ps = Inr (collected sample_values)"
  by (rule Parse_Build)
    (simp add: sample_values_def iface_ok_def ok_Package_def ok_Channel_def ok_File_def valid_utf8_literal byte_def)

section \<open>Properties of Deduplicate\<close>

fun first_occurrences :: "Property list \<Rightarrow> Property list" where
  "first_occurrences [] = []"
| "first_occurrences (p # ps) = p # filter (\<lambda>q. dedup_key q \<noteq> dedup_key p) (first_occurrences ps)"

lemma Deduplicate_loop_eq:
  "Deduplicate_loop ps props out = out @ filter (\<lambda>q. \<not> gm_has props (dedup_key q)) (first_occurrences ps)"
proof (induction ps arbitrary: props out)
  case (Cons p ps)
  show ?case
  proof (cases "gm_has props (dedup_key p)")
    case True
    then have "filter (\<lambda>q. \<not> gm_has props (dedup_key q) \<and> dedup_key q \<noteq> dedup_key p) (first_occurrences ps)
      = filter (\<lambda>q. \<not> gm_has props (dedup_key q)) (first_occurrences ps)"
      by (intro filter_cong) auto
    with True Cons show ?thesis by (simp add: conj_commute)
  next
    case False
    have "filter (\<lambda>q. \<not> gm_has (gm_put (dedup_key p) p props) (dedup_key q)) (first_occurrences ps)
      = filter (\<lambda>q. \<not> gm_has props (dedup_key q) \<and> dedup_key q \<noteq> dedup_key p) (first_occurrences ps)"
      by (intro filter_cong) (auto simp: gm_get_put)
    with False Cons show ?thesis by (simp add: conj_commute)
  qed
qed simp

lemma Deduplicate_eq: "Deduplicate ps = first_occurrences ps"
  by (simp add: Deduplicate_def Deduplicate_loop_eq)

lemma first_occurrences_distinct: "distinct (map dedup_key (first_occurrences ps))"
proof (induction ps)
  case (Cons p ps)
  then have "distinct (map dedup_key (filter (\<lambda>q. dedup_key q \<noteq> dedup_key p) (first_occurrences ps)))"
    by (rule distinct_map_filter)
  then show ?case by auto
qed simp

lemma first_occurrences_keys: "dedup_key ` set (first_occurrences ps) = dedup_key ` set ps"
proof (induction ps)
  case (Cons p ps)
  have "dedup_key ` set (first_occurrences (p # ps)) =
      insert (dedup_key p) (dedup_key ` set (first_occurrences ps))" by auto
  with Cons show ?case by simp
qed simp

lemma first_occurrences_subseq: "subseq (first_occurrences ps) ps"
  by (induction ps) (auto intro: subseq_order.trans subseq_filter_left)

lemma first_occurrences_find:
  "p \<in> set (first_occurrences ps) \<Longrightarrow> find (\<lambda>q. dedup_key q = dedup_key p) ps = Some p"
  by (induction ps) auto

lemma first_occurrences_id: "distinct (map dedup_key ps) \<Longrightarrow> first_occurrences ps = ps"
proof (induction ps)
  case (Cons p ps)
  then have "filter (\<lambda>q. dedup_key q \<noteq> dedup_key p) ps = ps"
    by (intro filter_True) (auto simp: image_iff)
  with Cons show ?case by simp
qed simp

text \<open>
  C8: \<^verbatim>\<open>Deduplicate\<close> keeps the first property of every type and value and nothing else, in input order, and a
  second pass changes nothing.
\<close>

theorem Deduplicate_spec:
  "distinct (map dedup_key (Deduplicate ps))
   \<and> dedup_key ` set (Deduplicate ps) = dedup_key ` set ps
   \<and> subseq (Deduplicate ps) ps
   \<and> (\<forall>p. p \<in> set (Deduplicate ps) \<longrightarrow> find (\<lambda>q. dedup_key q = dedup_key p) ps = Some p)
   \<and> Deduplicate (Deduplicate ps) = Deduplicate ps"
  by (simp add: Deduplicate_eq first_occurrences_distinct first_occurrences_keys first_occurrences_subseq
      first_occurrences_find first_occurrences_id)

definition sample_props :: "Property list" where
  "sample_props = [\<lparr>p_Type = ''a'', p_Value = Some ''1''\<rparr>, \<lparr>p_Type = ''b'', p_Value = Some ''1''\<rparr>,
     \<lparr>p_Type = ''a'', p_Value = Some ''1''\<rparr>]"

theorem Deduplicate_spec_witness:
  "Deduplicate sample_props = take 2 sample_props \<and> distinct (map dedup_key (Deduplicate sample_props))
   \<and> find (\<lambda>q. dedup_key q = dedup_key (hd (Deduplicate sample_props))) sample_props = Some (hd sample_props)"
proof -
  have eq: "Deduplicate sample_props = take 2 sample_props" by code_simp
  then have "hd sample_props \<in> set (Deduplicate sample_props)" by (simp add: sample_props_def)
  with eq Deduplicate_spec [of sample_props] show ?thesis by (auto simp: sample_props_def)
qed

end
