(* ===== verification/Model.thy ===== *)
theory Model
  imports Property
begin

text \<open>
  The package \<^verbatim>\<open>internal/model\<close>: packages, channels and bundles, which point at each other, with
  \<^verbatim>\<open>Validate\<close>, \<^verbatim>\<open>Head\<close>, \<^verbatim>\<open>Normalize\<close> and \<^verbatim>\<open>AddBundle\<close>.

  Objects live in a heap, a pointer is an address, and a nil pointer or map is \<open>None\<close>. Following an
  address that holds no object is a panic, as is writing to a nil map. Icon data is a byte string.
  A bundle owns its properties here; in the program the bundles that \<^verbatim>\<open>ConvertToModel\<close> makes of one
  blob share a slice, which only \<^verbatim>\<open>Normalize\<close> writes, and always the same values.
\<close>

section \<open>Data\<close>

type_synonym addr = nat

record Icon =
  ic_Data :: string
  ic_MediaType :: string

record RelatedImage =
  ri_Name :: string
  ri_Image :: string

record ModelPackage =
  mp_Name :: string
  mp_Description :: string
  mp_Icon :: "Icon option"
  mp_DefaultChannel :: "addr option"
  mp_Channels :: "(string, addr) gomap option"

record ModelChannel =
  mc_Package :: "addr option"
  mc_Name :: string
  mc_Bundles :: "(string, addr) gomap option"

record ModelBundle =
  mb_Package :: "addr option"
  mb_Channel :: "addr option"
  mb_Name :: string
  mb_Image :: string
  mb_Replaces :: string
  mb_Skips :: "string list"
  mb_Properties :: "Property list"
  mb_RelatedImages :: "RelatedImage list"
  mb_Objects :: "string list"
  mb_CsvJSON :: string

type_synonym Model = "(string, addr) gomap"

record heap =
  h_pkg :: "addr \<Rightarrow> ModelPackage option"
  h_ch :: "addr \<Rightarrow> ModelChannel option"
  h_bun :: "addr \<Rightarrow> ModelBundle option"
  h_next :: addr

definition entries :: "('k, 'v) gomap option \<Rightarrow> ('k, 'v) gomap" where
  "entries m = (case m of None \<Rightarrow> [] | Some xs \<Rightarrow> xs)"

lemma entries_simps [simp]: "entries None = []" "entries (Some xs) = xs"
  by (simp_all add: entries_def)

datatype go_panic = NilDereference | NilMapWrite

abbreviation deref_pkg :: "heap \<Rightarrow> addr \<Rightarrow> go_panic + ModelPackage" where
  "deref_pkg h a \<equiv> of_option NilDereference (h_pkg h a)"

abbreviation deref_ch :: "heap \<Rightarrow> addr \<Rightarrow> go_panic + ModelChannel" where
  "deref_ch h a \<equiv> of_option NilDereference (h_ch h a)"

abbreviation deref_bun :: "heap \<Rightarrow> addr \<Rightarrow> go_panic + ModelBundle" where
  "deref_bun h a \<equiv> of_option NilDereference (h_bun h a)"

section \<open>Channel head\<close>

datatype head_error = NoHead | MultipleHeads "string list"

definition incr :: "string \<Rightarrow> (string, int) gomap \<Rightarrow> (string, int) gomap" where
  "incr k m = gm_put k ((case gm_get m k of None \<Rightarrow> 0 | Some n \<Rightarrow> n) + 1) m"

definition incoming_of :: "ModelBundle \<Rightarrow> (string, int) gomap \<Rightarrow> (string, int) gomap" where
  "incoming_of b inc =
     fold incr (mb_Skips b) (if mb_Replaces b \<noteq> [] then incr (mb_Replaces b) inc else inc)"

definition channel_bundles :: "heap \<Rightarrow> ModelChannel \<Rightarrow> go_panic + (addr \<times> ModelBundle) list" where
  "channel_bundles h c =
     mapM (\<lambda>e. bindr (deref_bun h (snd e)) (\<lambda>b. Inr (snd e, b))) (entries (mc_Bundles c))"

definition heads_of :: "(addr \<times> ModelBundle) list \<Rightarrow> (addr \<times> ModelBundle) list" where
  "heads_of bs =
     (let incoming = fold incoming_of (map snd bs) []
      in filter (\<lambda>e. \<not> gm_has incoming (mb_Name (snd e))) bs)"

definition Channel_Head :: "heap \<Rightarrow> ModelChannel \<Rightarrow> go_panic + (head_error + addr)" where
  "Channel_Head h c =
     bindr (channel_bundles h c) (\<lambda>bs.
       let heads = heads_of bs
       in if heads = [] then Inr (Inl NoHead)
          else if length heads > 1 then Inr (Inl (MultipleHeads (map (\<lambda>e. mb_Name (snd e)) heads)))
          else Inr (Inr (fst (hd heads))))"

section \<open>Validation\<close>

text \<open>The tree of errors; the leaves stand for the messages, with the values they are formatted with.\<close>

datatype verr_head = InvalidIndex | InvalidPackage string | InvalidIcon | InvalidChannel string
  | InvalidBundle string | InvalidRelatedImage

datatype validationError = VNode verr_head "validationError list"
  | PackageKeyMismatch string string | PackageNameEmpty | DefaultChannelUnset | NoChannels
  | ChannelKeyMismatch string string | ChannelNotLinked string | DefaultChannelNotFound string
  | ChannelNameEmpty | ChannelPackageUnset | NoBundles | HeadError head_error
  | BundleKeyMismatch string string | BundleNotLinked string
  | BundleNameEmpty | BundleChannelUnset | BundlePackageUnset | BundlePackageMismatch
  | BundleProperties parse_error | SkipEmpty nat | NotOnePackageProperty | BundleImageUnset
  | RelatedImageUnset

definition orNil :: "verr_head \<Rightarrow> validationError list \<Rightarrow> validationError list" where
  "orNil msg subs = (if subs = [] then [] else [VNode msg subs])"

definition when_err :: "bool \<Rightarrow> validationError \<Rightarrow> validationError list" where
  "when_err c e = (if c then [e] else [])"

definition Icon_Validate :: "Icon option \<Rightarrow> validationError list" where
  "Icon_Validate i = (case i of None \<Rightarrow> [] | Some _ \<Rightarrow> orNil InvalidIcon [])"

definition RelatedImage_Validate :: "RelatedImage \<Rightarrow> validationError list" where
  "RelatedImage_Validate i = orNil InvalidRelatedImage (when_err (ri_Image i = []) RelatedImageUnset)"

definition Bundle_Validate :: "heap \<Rightarrow> addr \<Rightarrow> go_panic + validationError list" where
  "Bundle_Validate h a =
     bindr (deref_bun h a) (\<lambda>b.
     bindr (case (mb_Channel b, mb_Package b) of
              (Some c, Some p) \<Rightarrow>
                bindr (deref_ch h c) (\<lambda>ch. Inr (when_err (Some p \<noteq> mc_Package ch) BundlePackageMismatch))
            | _ \<Rightarrow> Inr []) (\<lambda>mismatch.
     Inr (orNil (InvalidBundle (mb_Name b))
       (when_err (mb_Name b = []) BundleNameEmpty
        @ when_err (mb_Channel b = None) BundleChannelUnset
        @ when_err (mb_Package b = None) BundlePackageUnset
        @ mismatch
        @ (case Parse (mb_Properties b) of Inl e \<Rightarrow> [BundleProperties e] | Inr _ \<Rightarrow> [])
        @ concat (map (\<lambda>(i, s). when_err (s = []) (SkipEmpty i)) (enumerate 0 (mb_Skips b)))
        @ (case Parse (mb_Properties b) of
             Inl _ \<Rightarrow> []
           | Inr props \<Rightarrow> when_err (length (Packages props) \<noteq> 1) NotOnePackageProperty)
        @ when_err (mb_Image b = [] \<and> mb_Objects b = []) BundleImageUnset))))"

definition Channel_Validate :: "heap \<Rightarrow> addr \<Rightarrow> go_panic + validationError list" where
  "Channel_Validate h a =
     bindr (deref_ch h a) (\<lambda>c.
     bindr (if entries (mc_Bundles c) = [] then Inr []
            else bindr (Channel_Head h c) (\<lambda>r. Inr (case r of Inl e \<Rightarrow> [HeadError e] | Inr _ \<Rightarrow> [])))
       (\<lambda>head_errs.
     bindr (mapM (\<lambda>e. bindr (deref_bun h (snd e)) (\<lambda>b.
                       bindr (Bundle_Validate h (snd e)) (\<lambda>errs.
                       Inr (when_err (fst e \<noteq> mb_Name b) (BundleKeyMismatch (fst e) (mb_Name b))
                            @ errs
                            @ when_err (mb_Channel b \<noteq> Some a) (BundleNotLinked (mb_Name b))))))
             (entries (mc_Bundles c))) (\<lambda>bundle_errs.
     Inr (orNil (InvalidChannel (mc_Name c))
       (when_err (mc_Name c = []) ChannelNameEmpty
        @ when_err (mc_Package c = None) ChannelPackageUnset
        @ when_err (entries (mc_Bundles c) = []) NoBundles
        @ head_errs
        @ concat bundle_errs)))))"

definition Package_Validate :: "heap \<Rightarrow> addr \<Rightarrow> go_panic + validationError list" where
  "Package_Validate h a =
     bindr (deref_pkg h a) (\<lambda>p.
     bindr (mapM (\<lambda>e. bindr (deref_ch h (snd e)) (\<lambda>c.
                       bindr (Channel_Validate h (snd e)) (\<lambda>errs.
                       Inr (when_err (fst e \<noteq> mc_Name c) (ChannelKeyMismatch (fst e) (mc_Name c))
                            @ errs
                            @ when_err (mc_Package c \<noteq> Some a) (ChannelNotLinked (mc_Name c))))))
             (entries (mp_Channels p))) (\<lambda>channel_errs.
     bindr (case mp_DefaultChannel p of
              None \<Rightarrow> Inr []
            | Some d \<Rightarrow>
                if d \<in> snd ` set (entries (mp_Channels p)) then Inr []
                else bindr (deref_ch h d) (\<lambda>dc. Inr [DefaultChannelNotFound (mc_Name dc)])) (\<lambda>default_errs.
     Inr (orNil (InvalidPackage (mp_Name p))
       (when_err (mp_Name p = []) PackageNameEmpty
        @ Icon_Validate (mp_Icon p)
        @ when_err (mp_DefaultChannel p = None) DefaultChannelUnset
        @ when_err (entries (mp_Channels p) = []) NoChannels
        @ concat channel_errs
        @ default_errs)))))"

definition Model_Validate :: "heap \<Rightarrow> Model \<Rightarrow> go_panic + validationError list" where
  "Model_Validate h m =
     bindr (mapM (\<lambda>e. bindr (deref_pkg h (snd e)) (\<lambda>p.
                       bindr (Package_Validate h (snd e)) (\<lambda>errs.
                       Inr (when_err (fst e \<noteq> mp_Name p) (PackageKeyMismatch (fst e) (mp_Name p)) @ errs)))) m)
       (\<lambda>errs. Inr (orNil InvalidIndex (concat errs)))"

section \<open>Normalize\<close>

definition normalize_property :: "Property \<Rightarrow> Property" where
  "normalize_property p = (case Build scheme_init (IProperty p) of Inl _ \<Rightarrow> p | Inr q \<Rightarrow> q)"

definition normalize_bundle :: "heap \<Rightarrow> addr \<Rightarrow> go_panic + heap" where
  "normalize_bundle h a =
     bindr (deref_bun h a) (\<lambda>b.
       Inr (h\<lparr>h_bun := (h_bun h)(a := Some (b\<lparr>mb_Properties := map normalize_property (mb_Properties b)\<rparr>))\<rparr>))"

definition normalize_channel :: "heap \<Rightarrow> addr \<Rightarrow> go_panic + heap" where
  "normalize_channel h a =
     bindr (deref_ch h a) (\<lambda>c. foldM normalize_bundle h (map snd (entries (mc_Bundles c))))"

definition normalize_package :: "heap \<Rightarrow> addr \<Rightarrow> go_panic + heap" where
  "normalize_package h a =
     bindr (deref_pkg h a) (\<lambda>p. foldM normalize_channel h (map snd (entries (mp_Channels p))))"

definition Model_Normalize :: "heap \<Rightarrow> Model \<Rightarrow> go_panic + heap" where
  "Model_Normalize h m = foldM normalize_package h (map snd m)"

section \<open>AddBundle\<close>

definition alloc_ch :: "ModelChannel \<Rightarrow> heap \<Rightarrow> addr \<times> heap" where
  "alloc_ch c h = (h_next h, h\<lparr>h_ch := (h_ch h)(h_next h := Some c), h_next := Suc (h_next h)\<rparr>)"

definition alloc_bun :: "ModelBundle \<Rightarrow> heap \<Rightarrow> addr \<times> heap" where
  "alloc_bun b h = (h_next h, h\<lparr>h_bun := (h_bun h)(h_next h := Some b), h_next := Suc (h_next h)\<rparr>)"

definition alloc_pkg :: "ModelPackage \<Rightarrow> heap \<Rightarrow> addr \<times> heap" where
  "alloc_pkg p h = (h_next h, h\<lparr>h_pkg := (h_pkg h)(h_next h := Some p), h_next := Suc (h_next h)\<rparr>)"

definition set_pkg :: "addr \<Rightarrow> ModelPackage \<Rightarrow> heap \<Rightarrow> heap" where
  "set_pkg a p h = h\<lparr>h_pkg := (h_pkg h)(a := Some p)\<rparr>"

definition set_ch :: "addr \<Rightarrow> ModelChannel \<Rightarrow> heap \<Rightarrow> heap" where
  "set_ch a c h = h\<lparr>h_ch := (h_ch h)(a := Some c)\<rparr>"

text \<open>\<^verbatim>\<open>m[k] = v\<close>, a panic on a nil map.\<close>

definition map_write :: "'k \<Rightarrow> 'v \<Rightarrow> ('k, 'v) gomap option \<Rightarrow> go_panic + ('k, 'v) gomap option" where
  "map_write k v m = (case m of None \<Rightarrow> Inl NilMapWrite | Some xs \<Rightarrow> Inr (Some (gm_put k v xs)))"

definition deref_opt :: "(addr \<Rightarrow> 'a option) \<Rightarrow> addr option \<Rightarrow> go_panic + 'a" where
  "deref_opt f a = (case a of None \<Rightarrow> Inl NilDereference | Some x \<Rightarrow> of_option NilDereference (f x))"

text \<open>\<^verbatim>\<open>ch.Bundles[b.Name] = &b\<close>, where \<open>b\<close> is the copy that the caller passed.\<close>

definition put_bundle :: "addr \<Rightarrow> ModelBundle \<Rightarrow> heap \<Rightarrow> go_panic + heap" where
  "put_bundle c b h =
     bindr (deref_ch h c) (\<lambda>ch.
       let (a, h1) = alloc_bun b h
       in bindr (map_write (mb_Name b) a (mc_Bundles ch)) (\<lambda>bs.
          Inr (set_ch c (ch\<lparr>mc_Bundles := bs\<rparr>) h1)))"

definition AddBundle :: "heap \<Rightarrow> Model \<Rightarrow> ModelBundle \<Rightarrow> go_panic + heap \<times> Model" where
  "AddBundle h m b =
     bindr (deref_opt (h_pkg h) (mb_Package b)) (\<lambda>bp.
     let m1 = (if gm_has m (mp_Name bp) then m else gm_put (mp_Name bp) (the (mb_Package b)) m);
         p = the (gm_get m1 (mp_Name bp))
     in
     bindr (deref_pkg h p) (\<lambda>pk.
     bindr (deref_opt (h_ch h) (mb_Channel b)) (\<lambda>bc.
     bindr
       (case gm_get (entries (mp_Channels pk)) (mc_Name bc) of
          Some c \<Rightarrow>
            bindr (put_bundle c (b\<lparr>mb_Package := Some p, mb_Channel := Some c\<rparr>) h) (\<lambda>h1. Inr (c, pk, h1))
        | None \<Rightarrow>
            let (c, h1) = alloc_ch \<lparr>mc_Package = Some p, mc_Name = mc_Name bc, mc_Bundles = Some []\<rparr> h
            in bindr (put_bundle c (b\<lparr>mb_Package := Some p, mb_Channel := Some c\<rparr>) h1) (\<lambda>h2.
               bindr (map_write (mc_Name bc) c (mp_Channels pk)) (\<lambda>cs.
               Inr (c, pk\<lparr>mp_Channels := cs\<rparr>, h2))))
       (\<lambda>(c, pk1, h2).
     Inr (set_pkg p (if mp_DefaultChannel pk1 = None then pk1\<lparr>mp_DefaultChannel := Some c\<rparr> else pk1) h2, m1)))))"

section \<open>Heads\<close>

text \<open>The names that some bundle of the channel replaces or skips.\<close>

definition edge_targets :: "ModelBundle \<Rightarrow> string set" where
  "edge_targets b = set (mb_Skips b) \<union> (if mb_Replaces b = [] then {} else {mb_Replaces b})"

lemma incr_keys: "fst ` set (incr k m) = insert k (fst ` set m)"
  by (simp add: incr_def gm_keys_put)

lemma fold_incr_keys: "fst ` set (fold incr ks m) = set ks \<union> fst ` set m"
  by (induction ks arbitrary: m) (auto simp: incr_keys)

lemma incoming_of_keys: "fst ` set (incoming_of b m) = edge_targets b \<union> fst ` set m"
  by (auto simp: incoming_of_def edge_targets_def fold_incr_keys incr_keys)

lemma fold_incoming_keys: "fst ` set (fold incoming_of bs m) = (\<Union>b \<in> set bs. edge_targets b) \<union> fst ` set m"
  by (induction bs arbitrary: m) (auto simp: incoming_of_keys)

lemma heads_of_eq:
  "heads_of bs = filter (\<lambda>e. \<forall>b \<in> set (map snd bs). mb_Name (snd e) \<notin> edge_targets b) bs"
  unfolding heads_of_def Let_def gm_has_iff fold_incoming_keys by (rule filter_cong) auto

definition no_incoming :: "heap \<Rightarrow> ModelChannel \<Rightarrow> ModelBundle \<Rightarrow> bool" where
  "no_incoming h c b \<longleftrightarrow>
     (\<forall>k a d. (k, a) \<in> set (entries (mc_Bundles c)) \<longrightarrow> h_bun h a = Some d \<longrightarrow> mb_Name b \<notin> edge_targets d)"

definition head_keys :: "heap \<Rightarrow> ModelChannel \<Rightarrow> string set" where
  "head_keys h c =
     {k. \<exists>a b. (k, a) \<in> set (entries (mc_Bundles c)) \<and> h_bun h a = Some b \<and> no_incoming h c b}"

definition bundles_present :: "heap \<Rightarrow> ModelChannel \<Rightarrow> bool" where
  "bundles_present h c \<longleftrightarrow> list_all (\<lambda>e. h_bun h (snd e) \<noteq> None) (entries (mc_Bundles c))"

lemma channel_bundles_present:
  assumes "bundles_present h c"
  shows "channel_bundles h c = Inr (map (\<lambda>e. (snd e, the (h_bun h (snd e)))) (entries (mc_Bundles c)))"
  unfolding channel_bundles_def
  using assms by (intro mapM_total) (auto simp: bundles_present_def list_all_iff)

lemma no_incoming_iff:
  assumes "bundles_present h c"
  shows "no_incoming h c x \<longleftrightarrow>
    list_all (\<lambda>e. mb_Name x \<notin> edge_targets (the (h_bun h (snd e)))) (entries (mc_Bundles c))"
proof
  assume "no_incoming h c x"
  then show "list_all (\<lambda>e. mb_Name x \<notin> edge_targets (the (h_bun h (snd e)))) (entries (mc_Bundles c))"
    using assms unfolding no_incoming_def bundles_present_def list_all_iff by (metis option.collapse prod.collapse)
next
  assume "list_all (\<lambda>e. mb_Name x \<notin> edge_targets (the (h_bun h (snd e)))) (entries (mc_Bundles c))"
  then show "no_incoming h c x"
    unfolding no_incoming_def list_all_iff by force
qed

lemma head_keys_iff:
  assumes "bundles_present h c" and wf: "gm_wf (entries (mc_Bundles c))"
    and mem: "(k, a) \<in> set (entries (mc_Bundles c))"
  shows "k \<in> head_keys h c \<longleftrightarrow> no_incoming h c (the (h_bun h a))"
proof -
  obtain b where b: "h_bun h a = Some b"
    using mem assms(1) by (auto simp: bundles_present_def list_all_iff)
  show ?thesis
  proof
    assume "k \<in> head_keys h c"
    then obtain x y where x: "(k, x) \<in> set (entries (mc_Bundles c))" "h_bun h x = Some y" "no_incoming h c y"
      by (auto simp: head_keys_def)
    have "x = a" using eq_key_imp_eq_value [OF wf [unfolded gm_wf_def] x(1) mem] .
    with x show "no_incoming h c (the (h_bun h a))" by simp
  next
    assume "no_incoming h c (the (h_bun h a))"
    with mem b show "k \<in> head_keys h c" by (auto simp: head_keys_def)
  qed
qed

lemma heads_of_entries:
  assumes "bundles_present h c" and wf: "gm_wf (entries (mc_Bundles c))"
  shows "heads_of (map (\<lambda>e. (snd e, the (h_bun h (snd e)))) (entries (mc_Bundles c)))
    = map (\<lambda>e. (snd e, the (h_bun h (snd e)))) (filter (\<lambda>e. fst e \<in> head_keys h c) (entries (mc_Bundles c)))"
proof -
  let ?E = "entries (mc_Bundles c)"
  have "fst e \<in> head_keys h c \<longleftrightarrow>
      (\<forall>b \<in> set (map snd (map (\<lambda>e. (snd e, the (h_bun h (snd e)))) ?E)). mb_Name (the (h_bun h (snd e))) \<notin> edge_targets b)"
    if "e \<in> set ?E" for e
    using head_keys_iff [OF assms, of "fst e" "snd e"] that
    by (simp add: no_incoming_iff [OF assms(1)] list_all_iff)
  then have "filter (\<lambda>e. fst e \<in> head_keys h c) ?E = filter (\<lambda>e. \<forall>b \<in> set (map snd (map (\<lambda>e. (snd e, the (h_bun h (snd e)))) ?E)).
      mb_Name (the (h_bun h (snd e))) \<notin> edge_targets b) ?E"
    by (intro filter_cong) simp_all
  then show ?thesis
    unfolding heads_of_eq filter_map comp_def snd_conv by simp
qed

lemma head_keys_subset: "head_keys h c \<subseteq> fst ` set (entries (mc_Bundles c))"
  by (force simp: head_keys_def)

lemma filter_keys_length:
  assumes "gm_wf m" "K \<subseteq> fst ` set m"
  shows "length (filter (\<lambda>e. fst e \<in> K) m) = card K"
proof -
  have "distinct (map fst (filter (\<lambda>e. fst e \<in> K) m))"
    using assms(1) by (simp add: gm_wf_def distinct_map_filter)
  moreover have "set (map fst (filter (\<lambda>e. fst e \<in> K) m)) = K"
    using assms(2) by force
  ultimately show ?thesis
    by (metis distinct_card length_map)
qed

text \<open>
  C6: \<^verbatim>\<open>Head\<close> returns a bundle exactly when it is the only bundle of the channel that no bundle of the channel
  replaces or skips; with no such bundle or several it reports that, and with several it names each.
\<close>

theorem Channel_Head_spec:
  assumes "gm_wf (entries (mc_Bundles c))" "bundles_present h c"
  shows "case Channel_Head h c of
      Inl _ \<Rightarrow> False
    | Inr (Inr a) \<Rightarrow> (\<exists>k. head_keys h c = {k} \<and> gm_get (entries (mc_Bundles c)) k = Some a)
    | Inr (Inl NoHead) \<Rightarrow> head_keys h c = {}
    | Inr (Inl (MultipleHeads ns)) \<Rightarrow> card (head_keys h c) > 1 \<and> length ns = card (head_keys h c)"
proof -
  let ?E = "entries (mc_Bundles c)" and ?K = "head_keys h c"
  define F where "F = filter (\<lambda>e. fst e \<in> ?K) ?E"
  have len: "length F = card ?K"
    unfolding F_def by (rule filter_keys_length [OF assms(1) head_keys_subset])
  have fin: "finite ?K"
    using head_keys_subset by (rule finite_subset) simp
  have heads: "Channel_Head h c =
      (if F = [] then Inr (Inl NoHead)
       else if length F > 1 then Inr (Inl (MultipleHeads (map (\<lambda>e. mb_Name (the (h_bun h (snd e)))) F)))
       else Inr (Inr (snd (hd F))))"
    unfolding Channel_Head_def channel_bundles_present [OF assms(2)] bindr.simps
      heads_of_entries [OF assms(2,1)] F_def [symmetric] Let_def
    by (simp add: hd_map comp_def)
  consider "F = []" | e where "F = [e]" | "length F > 1"
    by (cases F rule: remdups_adj.cases) auto
  then show ?thesis
  proof cases
    case 1
    then show ?thesis using heads len fin by simp
  next
    case 2
    then have mem: "e \<in> set ?E" "fst e \<in> ?K" by (auto simp: F_def dest!: arg_cong [where f = set])
    have "card ?K = 1" using 2 len by simp
    then obtain k where "?K = {k}" by (rule card_1_singletonE)
    with mem(2) have "?K = {fst e}" by simp
    moreover have "gm_get ?E (fst e) = Some (snd e)"
      using mem(1) assms(1) by (simp add: gm_get_Some_iff)
    ultimately show ?thesis
      using heads 2 by simp
  next
    case 3
    then have "F \<noteq> []" by auto
    with 3 show ?thesis using heads len by simp
  qed
qed

section \<open>Validate\<close>

text \<open>What a valid index is, without the order in which maps are ranged over and errors collected.\<close>

definition bundle_valid :: "heap \<Rightarrow> addr \<Rightarrow> bool" where
  "bundle_valid h a \<longleftrightarrow>
     (\<exists>b c p ch props. h_bun h a = Some b \<and> mb_Name b \<noteq> []
        \<and> mb_Channel b = Some c \<and> mb_Package b = Some p \<and> h_ch h c = Some ch \<and> mc_Package ch = Some p
        \<and> [] \<notin> set (mb_Skips b)
        \<and> Parse (mb_Properties b) = Inr props \<and> length (Packages props) = 1
        \<and> (mb_Image b \<noteq> [] \<or> mb_Objects b \<noteq> []))"

definition channel_valid :: "heap \<Rightarrow> addr \<Rightarrow> bool" where
  "channel_valid h a \<longleftrightarrow>
     (\<exists>c d. h_ch h a = Some c \<and> mc_Name c \<noteq> [] \<and> mc_Package c \<noteq> None \<and> entries (mc_Bundles c) \<noteq> []
        \<and> Channel_Head h c = Inr (Inr d)
        \<and> (\<forall>e \<in> set (entries (mc_Bundles c)). bundle_valid h (snd e)
             \<and> (\<exists>b. h_bun h (snd e) = Some b \<and> mb_Name b = fst e \<and> mb_Channel b = Some a)))"

definition package_valid :: "heap \<Rightarrow> addr \<Rightarrow> bool" where
  "package_valid h a \<longleftrightarrow>
     (\<exists>p d. h_pkg h a = Some p \<and> mp_Name p \<noteq> [] \<and> entries (mp_Channels p) \<noteq> []
        \<and> mp_DefaultChannel p = Some d \<and> d \<in> snd ` set (entries (mp_Channels p))
        \<and> (\<forall>e \<in> set (entries (mp_Channels p)). channel_valid h (snd e)
             \<and> (\<exists>c. h_ch h (snd e) = Some c \<and> mc_Name c = fst e \<and> mc_Package c = Some a)))"

definition model_valid :: "heap \<Rightarrow> Model \<Rightarrow> bool" where
  "model_valid h m \<longleftrightarrow>
     (\<forall>e \<in> set m. package_valid h (snd e) \<and> (\<exists>p. h_pkg h (snd e) = Some p \<and> mp_Name p = fst e))"

lemma orNil_Nil [simp]: "orNil msg es = [] \<longleftrightarrow> es = []" "[] = orNil msg es \<longleftrightarrow> es = []"
  by (auto simp: orNil_def)

lemma when_err_Nil [simp]: "when_err c e = [] \<longleftrightarrow> \<not> c"
  by (simp add: when_err_def)

lemma Icon_Validate_Nil [simp]: "Icon_Validate i = []"
  by (simp add: Icon_Validate_def split: option.split)

lemma mapM_concat_NilD: "mapM f xs = Inr yss \<Longrightarrow> concat yss = [] \<Longrightarrow> x \<in> set xs \<Longrightarrow> f x = Inr []"
  by (induction xs arbitrary: yss) auto

lemma mapM_concat_Nil:
  "(\<exists>yss. mapM f xs = Inr yss \<and> concat yss = []) \<longleftrightarrow> (\<forall>x \<in> set xs. f x = Inr [])"
proof
  assume "\<exists>yss. mapM f xs = Inr yss \<and> concat yss = []"
  then obtain yss where yss: "mapM f xs = Inr yss" "concat yss = []" by auto
  show "\<forall>x \<in> set xs. f x = Inr []"
    by (intro ballI) (rule mapM_concat_NilD [OF yss])
next
  assume "\<forall>x \<in> set xs. f x = Inr []"
  then have "mapM f xs = Inr (map (\<lambda>_. []) xs)" by (intro mapM_total) (rule bspec)
  then show "\<exists>yss. mapM f xs = Inr yss \<and> concat yss = []" by simp
qed

lemma skips_Nil:
  "concat (map (\<lambda>(i, s). when_err (s = []) (SkipEmpty i)) (enumerate n ss)) = [] \<longleftrightarrow> [] \<notin> set ss"
  by (induction ss arbitrary: n) auto

lemma parse_errs_Nil [simp]:
  "(case r of Inl e \<Rightarrow> [BundleProperties e] | Inr _ \<Rightarrow> []) = [] \<longleftrightarrow> (\<exists>x. r = Inr x)"
  "(case r of Inl _ \<Rightarrow> [] | Inr props \<Rightarrow> when_err (length (Packages props) \<noteq> 1) NotOnePackageProperty) = []
     \<longleftrightarrow> (\<forall>x. r = Inr x \<longrightarrow> length (Packages x) = 1)"
  by (cases r; simp)+

lemma head_errs_Nil [simp]: "(case r of Inl e \<Rightarrow> [HeadError e] | Inr _ \<Rightarrow> []) = [] \<longleftrightarrow> (\<exists>d. r = Inr d)"
  by (cases r) simp_all

lemma Bundle_Validate_valid: "Bundle_Validate h a = Inr [] \<longleftrightarrow> bundle_valid h a"
proof (cases "h_bun h a")
  case (Some b)
  then show ?thesis
    by (cases "mb_Channel b"; cases "mb_Package b")
      (auto simp: Bundle_Validate_def bundle_valid_def skips_Nil simp del: concat_eq_Nil_conv)
qed (simp_all add: Bundle_Validate_def bundle_valid_def)

lemma Channel_Validate_valid: "Channel_Validate h a = Inr [] \<longleftrightarrow> channel_valid h a"
proof (cases "h_ch h a")
  case (Some c)
  let ?f = "\<lambda>e. bindr (deref_bun h (snd e)) (\<lambda>b.
     bindr (Bundle_Validate h (snd e)) (\<lambda>errs.
       Inr (when_err (fst e \<noteq> mb_Name b) (BundleKeyMismatch (fst e) (mb_Name b)) @ errs
            @ when_err (mb_Channel b \<noteq> Some a) (BundleNotLinked (mb_Name b)))))"
  have f: "?f e = Inr [] \<longleftrightarrow> bundle_valid h (snd e)
      \<and> (\<exists>b. h_bun h (snd e) = Some b \<and> mb_Name b = fst e \<and> mb_Channel b = Some a)" for e
    by (auto simp: Bundle_Validate_valid [symmetric])
  have "Channel_Validate h a = Inr [] \<longleftrightarrow>
      mc_Name c \<noteq> [] \<and> mc_Package c \<noteq> None \<and> entries (mc_Bundles c) \<noteq> []
      \<and> (\<exists>d. Channel_Head h c = Inr (Inr d)) \<and> (\<exists>yss. mapM ?f (entries (mc_Bundles c)) = Inr yss \<and> concat yss = [])"
    using Some by (auto simp: Channel_Validate_def simp del: concat_eq_Nil_conv split: if_splits)
  then show ?thesis
    unfolding mapM_concat_Nil f channel_valid_def using Some by auto
qed (simp_all add: Channel_Validate_def channel_valid_def)

lemma Package_Validate_valid: "Package_Validate h a = Inr [] \<longleftrightarrow> package_valid h a"
proof (cases "h_pkg h a")
  case (Some p)
  let ?f = "\<lambda>e. bindr (deref_ch h (snd e)) (\<lambda>c.
     bindr (Channel_Validate h (snd e)) (\<lambda>errs.
       Inr (when_err (fst e \<noteq> mc_Name c) (ChannelKeyMismatch (fst e) (mc_Name c)) @ errs
            @ when_err (mc_Package c \<noteq> Some a) (ChannelNotLinked (mc_Name c)))))"
  have f: "?f e = Inr [] \<longleftrightarrow> channel_valid h (snd e)
      \<and> (\<exists>c. h_ch h (snd e) = Some c \<and> mc_Name c = fst e \<and> mc_Package c = Some a)" for e
    by (auto simp: Channel_Validate_valid [symmetric])
  have "Package_Validate h a = Inr [] \<longleftrightarrow>
      mp_Name p \<noteq> [] \<and> entries (mp_Channels p) \<noteq> []
      \<and> (\<exists>d. mp_DefaultChannel p = Some d \<and> d \<in> snd ` set (entries (mp_Channels p)))
      \<and> (\<exists>yss. mapM ?f (entries (mp_Channels p)) = Inr yss \<and> concat yss = [])"
    using Some
    by (cases "mp_DefaultChannel p") (auto simp: Package_Validate_def simp del: concat_eq_Nil_conv split: if_splits)
  then show ?thesis
    unfolding mapM_concat_Nil f package_valid_def using Some by auto
qed (simp_all add: Package_Validate_def package_valid_def)

lemma Model_Validate_iff: "Model_Validate h m = Inr [] \<longleftrightarrow> model_valid h m"
proof -
  let ?f = "\<lambda>e. bindr (deref_pkg h (snd e)) (\<lambda>p. bindr (Package_Validate h (snd e)) (\<lambda>errs.
      Inr (when_err (fst e \<noteq> mp_Name p) (PackageKeyMismatch (fst e) (mp_Name p)) @ errs)))"
  have "Model_Validate h m = Inr [] \<longleftrightarrow> (\<exists>yss. mapM ?f m = Inr yss \<and> concat yss = [])"
    by (simp add: Model_Validate_def del: concat_eq_Nil_conv)
  moreover have "?f e = Inr [] \<longleftrightarrow> package_valid h (snd e) \<and> (\<exists>p. h_pkg h (snd e) = Some p \<and> mp_Name p = fst e)" for e
    by (auto simp: Package_Validate_valid [symmetric])
  ultimately show ?thesis
    unfolding mapM_concat_Nil model_valid_def by simp
qed


section \<open>Linked indexes\<close>

text \<open>
  The invariant of the pointers: keys are names, children point at the objects that hold them, maps
  are allocated, a default channel is one of the package's channels, and every address in use is
  below the next fresh one.
\<close>

definition bundle_linked :: "heap \<Rightarrow> addr \<Rightarrow> addr \<Rightarrow> string \<Rightarrow> addr \<Rightarrow> bool" where
  "bundle_linked h p c n a \<longleftrightarrow>
     (\<exists>b. h_bun h a = Some b \<and> mb_Name b = n \<and> mb_Channel b = Some c \<and> mb_Package b = Some p)"

definition channel_linked :: "heap \<Rightarrow> addr \<Rightarrow> string \<Rightarrow> addr \<Rightarrow> bool" where
  "channel_linked h p n a \<longleftrightarrow>
     (\<exists>c bs. h_ch h a = Some c \<and> mc_Name c = n \<and> mc_Package c = Some p \<and> mc_Bundles c = Some bs \<and> gm_wf bs
        \<and> (\<forall>(k, b) \<in> set bs. bundle_linked h p a k b))"

definition package_linked :: "heap \<Rightarrow> addr \<Rightarrow> bool" where
  "package_linked h a \<longleftrightarrow>
     (\<exists>p cs. h_pkg h a = Some p \<and> mp_Channels p = Some cs \<and> gm_wf cs
        \<and> (\<forall>(k, c) \<in> set cs. channel_linked h a k c)
        \<and> (\<forall>d. mp_DefaultChannel p = Some d \<longrightarrow> d \<in> snd ` set cs))"

definition heap_fresh :: "heap \<Rightarrow> bool" where
  "heap_fresh h \<longleftrightarrow>
     (\<forall>a \<ge> h_next h. h_pkg h a = None \<and> h_ch h a = None \<and> h_bun h a = None)"

definition linked :: "heap \<Rightarrow> Model \<Rightarrow> bool" where
  "linked h m \<longleftrightarrow> heap_fresh h \<and> gm_wf m
     \<and> (\<forall>(n, a) \<in> set m. package_linked h a \<and> (\<exists>p. h_pkg h a = Some p \<and> mp_Name p = n))"

text \<open>The content of an index: what a bundle holds besides its pointers, by package, channel and name.\<close>

definition find_channel :: "heap \<Rightarrow> Model \<Rightarrow> string \<Rightarrow> string \<Rightarrow> addr option" where
  "find_channel h m pn cn =
     Option.bind (gm_get m pn) (\<lambda>p. Option.bind (h_pkg h p) (\<lambda>pk. gm_get (entries (mp_Channels pk)) cn))"

definition bundle_in :: "heap \<Rightarrow> addr \<Rightarrow> string \<Rightarrow> ModelBundle option" where
  "bundle_in h c bn =
     Option.bind (h_ch h c) (\<lambda>ch. Option.bind (gm_get (entries (mc_Bundles ch)) bn) (\<lambda>b.
       map_option (\<lambda>bd. bd\<lparr>mb_Package := None, mb_Channel := None\<rparr>) (h_bun h b)))"

definition lookup :: "heap \<Rightarrow> Model \<Rightarrow> string \<Rightarrow> string \<Rightarrow> string \<Rightarrow> ModelBundle option" where
  "lookup h m pn cn bn = Option.bind (find_channel h m pn cn) (\<lambda>c. bundle_in h c bn)"

definition lookup_upd ::
  "string \<Rightarrow> string \<Rightarrow> ModelBundle \<Rightarrow> (string \<Rightarrow> string \<Rightarrow> string \<Rightarrow> ModelBundle option) \<Rightarrow>
   string \<Rightarrow> string \<Rightarrow> string \<Rightarrow> ModelBundle option" where
  "lookup_upd pn cn b f =
     (\<lambda>pn' cn' bn. if pn' = pn \<and> cn' = cn \<and> bn = mb_Name b
                   then Some (b\<lparr>mb_Package := None, mb_Channel := None\<rparr>) else f pn' cn' bn)"

lemma lookup_upd_links [simp]:
  "lookup_upd pn cn (b\<lparr>mb_Package := p, mb_Channel := c\<rparr>) f = lookup_upd pn cn b f"
  by (cases b) (auto simp: lookup_upd_def fun_eq_iff)

lemma linkedD:
  assumes "linked h m"
  shows "gm_wf m" "heap_fresh h" "(n, a) \<in> set m \<Longrightarrow> package_linked h a"
    "(n, a) \<in> set m \<Longrightarrow> \<exists>p. h_pkg h a = Some p \<and> mp_Name p = n"
  using assms by (auto simp: linked_def)

lemma linked_name:
  "linked h m \<Longrightarrow> (n, a) \<in> set m \<Longrightarrow> h_pkg h a = Some p \<Longrightarrow> mp_Name p = n"
  using linkedD(4) by fastforce

lemma find_channel_linked:
  assumes "linked h m" "find_channel h m pn cn = Some c"
  obtains p where "(pn, p) \<in> set m" "channel_linked h p cn c"
proof -
  from assms(2) obtain p pk where p: "gm_get m pn = Some p" "h_pkg h p = Some pk"
    "gm_get (entries (mp_Channels pk)) cn = Some c"
    by (auto simp: find_channel_def bind_eq_Some_conv)
  then have mem: "(pn, p) \<in> set m" by (simp add: map_of_SomeD)
  then have "package_linked h p" using assms(1) linkedD(3) by blast
  with p have "channel_linked h p cn c"
    by (auto simp: package_linked_def dest!: map_of_SomeD)
  with mem that show thesis by blast
qed

lemma find_channel_inj:
  assumes l: "linked h m" and f: "find_channel h m pn cn = Some c" "find_channel h m pn' cn' = Some c"
  shows "pn' = pn \<and> cn' = cn"
proof -
  obtain p where p: "(pn, p) \<in> set m" "channel_linked h p cn c" using find_channel_linked [OF l f(1)] .
  obtain q where q: "(pn', q) \<in> set m" "channel_linked h q cn' c" using find_channel_linked [OF l f(2)] .
  from p(2) q(2) have "q = p" "cn' = cn" by (auto simp: channel_linked_def)
  moreover have "pn' = pn"
    using linkedD(4) [OF l p(1)] linkedD(4) [OF l q(1)] \<open>q = p\<close> by auto
  ultimately show ?thesis by simp
qed

lemma channel_linked_frame:
  assumes "channel_linked h p n a" "h_ch h' a = h_ch h a"
    and "\<And>b. h_bun h b \<noteq> None \<Longrightarrow> h_bun h' b = h_bun h b"
  shows "channel_linked h' p n a"
proof -
  from assms(1) obtain c bs where c: "h_ch h a = Some c" "mc_Name c = n" "mc_Package c = Some p"
    "mc_Bundles c = Some bs" "gm_wf bs" "\<forall>(k, b) \<in> set bs. bundle_linked h p a k b"
    by (auto simp: channel_linked_def)
  have "bundle_linked h' p a k b" if "bundle_linked h p a k b" for k b
    using that assms(3) [of b] by (auto simp: bundle_linked_def)
  with c assms(2) show ?thesis by (auto simp: channel_linked_def)
qed

lemma package_linked_frame:
  assumes "package_linked h a" "h_pkg h' a = h_pkg h a"
    and ch: "\<And>c ch. h_ch h c = Some ch \<Longrightarrow> mc_Package ch = Some a \<Longrightarrow> h_ch h' c = Some ch"
    and bun: "\<And>b. h_bun h b \<noteq> None \<Longrightarrow> h_bun h' b = h_bun h b"
  shows "package_linked h' a"
proof -
  from assms(1) obtain p cs where p: "h_pkg h a = Some p" "mp_Channels p = Some cs" "gm_wf cs"
    "\<forall>(k, c) \<in> set cs. channel_linked h a k c" "\<forall>d. mp_DefaultChannel p = Some d \<longrightarrow> d \<in> snd ` set cs"
    by (auto simp: package_linked_def)
  have "channel_linked h' a k c" if "channel_linked h a k c" for k c
  proof (rule channel_linked_frame [OF that])
    show "h_ch h' c = h_ch h c" using that ch by (auto simp: channel_linked_def)
  qed (rule bun)
  with p assms(2) show ?thesis by (auto simp: package_linked_def)
qed

lemma bundle_in_frame:
  assumes "channel_linked h p n c" "h_ch h' c = h_ch h c"
    and "\<And>b. h_bun h b \<noteq> None \<Longrightarrow> h_bun h' b = h_bun h b"
  shows "bundle_in h' c bn = bundle_in h c bn"
proof -
  from assms(1) obtain ch bs where c: "h_ch h c = Some ch" "mc_Bundles ch = Some bs"
    "\<forall>(k, b) \<in> set bs. bundle_linked h p c k b"
    by (auto simp: channel_linked_def)
  have "h_bun h' b = h_bun h b" if "gm_get bs bn = Some b" for b
    using c(3) map_of_SomeD [OF that] assms(3) by (auto simp: bundle_linked_def)
  then show ?thesis
    using c assms(2) by (cases "gm_get bs bn") (auto simp: bundle_in_def)
qed

text \<open>The four changes an index goes through, each with what it does to the invariant and the content.\<close>

definition add_channel :: "addr \<Rightarrow> string \<Rightarrow> heap \<Rightarrow> heap" where
  "add_channel p n h =
     (let (c, h1) = alloc_ch \<lparr>mc_Package = Some p, mc_Name = n, mc_Bundles = Some []\<rparr> h;
          pk = the (h_pkg h p)
      in set_pkg p (pk\<lparr>mp_Channels := Some (gm_put n c (entries (mp_Channels pk)))\<rparr>) h1)"

lemma add_channel_heap:
  assumes "h_pkg h p = Some pk"
  shows "h_pkg (add_channel p n h) =
      (h_pkg h)(p := Some (pk\<lparr>mp_Channels := Some (gm_put n (h_next h) (entries (mp_Channels pk)))\<rparr>))"
    "h_ch (add_channel p n h) =
      (h_ch h)(h_next h := Some \<lparr>mc_Package = Some p, mc_Name = n, mc_Bundles = Some []\<rparr>)"
    "h_bun (add_channel p n h) = h_bun h" "h_next (add_channel p n h) = Suc (h_next h)"
  using assms by (simp_all add: add_channel_def alloc_ch_def set_pkg_def)

lemma heap_freshD: "heap_fresh h \<Longrightarrow> h_next h \<le> a \<Longrightarrow> h_pkg h a = None \<and> h_ch h a = None \<and> h_bun h a = None"
  by (auto simp: heap_fresh_def)

lemma channel_linked_not_fresh: "heap_fresh h \<Longrightarrow> channel_linked h p n c \<Longrightarrow> c \<noteq> h_next h"
  using heap_freshD [of h "h_next h"] by (auto simp: channel_linked_def)

lemma add_channel_package_linked:
  assumes fr: "heap_fresh h" and pl: "package_linked h p"
    and pk: "h_pkg h p = Some pk" "gm_get (entries (mp_Channels pk)) n = None"
  shows "package_linked (add_channel p n h) p"
proof -
  let ?h = "add_channel p n h"
  note heap = add_channel_heap [OF pk(1), of n]
  from pl pk(1) obtain cs where cs: "mp_Channels pk = Some cs" "gm_wf cs"
    "\<forall>(k, c) \<in> set cs. channel_linked h p k c" "\<forall>d. mp_DefaultChannel pk = Some d \<longrightarrow> d \<in> snd ` set cs"
    by (auto simp: package_linked_def)
  have old: "channel_linked ?h p k c" if "channel_linked h p k c" for k c
    by (rule channel_linked_frame [OF that])
      (use channel_linked_not_fresh [OF fr that] in \<open>simp_all add: heap\<close>)
  have new: "channel_linked ?h p n (h_next h)"
    by (simp add: channel_linked_def heap)
  have keep: "{e \<in> set cs. fst e \<noteq> n} = set cs"
    using pk(2) cs(1) by (auto simp: map_of_eq_None_iff)
  then have set: "set (gm_put n (h_next h) cs) = insert (n, h_next h) (set cs)"
    using cs(2) by (simp add: gm_set_put)
  have "\<forall>(k, c) \<in> set (gm_put n (h_next h) cs). channel_linked ?h p k c"
    using cs(3) old new unfolding set by auto
  moreover have "\<forall>d. mp_DefaultChannel pk = Some d \<longrightarrow> d \<in> snd ` set (gm_put n (h_next h) cs)"
    using cs(4) unfolding set by auto
  ultimately show ?thesis
    unfolding package_linked_def using cs(1,2) by (simp add: heap)
qed

lemma add_channel_linked:
  assumes l: "linked h m" and mem: "(pn, p) \<in> set m"
    and pk: "h_pkg h p = Some pk" "gm_get (entries (mp_Channels pk)) n = None"
  shows "linked (add_channel p n h) m"
    "find_channel (add_channel p n h) m pn' cn =
      (if pn' = pn \<and> cn = n then Some (h_next h) else find_channel h m pn' cn)"
    "lookup (add_channel p n h) m pn' cn bn = lookup h m pn' cn bn"
proof -
  let ?h = "add_channel p n h"
  note heap = add_channel_heap [OF pk(1), of n]
  note fr = linkedD(2) [OF l]
  have ch_keep: "h_ch ?h c = Some ch" if "h_ch h c = Some ch" for c ch
    using that heap_freshD [OF fr, of "h_next h"] by (auto simp: heap)
  have "package_linked ?h a" if "(k, a) \<in> set m" for k a
  proof (cases "a = p")
    case True
    then show ?thesis
      using add_channel_package_linked [OF fr _ pk] linkedD(3) [OF l mem] by simp
  next
    case False
    show ?thesis
      by (rule package_linked_frame [OF linkedD(3) [OF l that]]) (use False ch_keep in \<open>simp_all add: heap\<close>)
  qed
  moreover have "\<exists>q. h_pkg ?h a = Some q \<and> mp_Name q = k" if "(k, a) \<in> set m" for k a
    using linkedD(4) [OF l that] pk(1) by (auto simp: heap)
  moreover have "heap_fresh ?h"
    using fr pk(1) by (auto simp: heap_fresh_def heap)
  ultimately show "linked ?h m"
    using linkedD(1) [OF l] by (auto simp: linked_def)
  have name: "gm_get m pn' = Some p \<longleftrightarrow> pn' = pn" for pn'
    using l mem pk(1) linked_name [OF l] linkedD(1) [OF l] by (metis gm_get_Some_iff)
  show find: "find_channel ?h m pn' cn =
      (if pn' = pn \<and> cn = n then Some (h_next h) else find_channel h m pn' cn)" for pn' cn
  proof (cases "gm_get m pn'")
    case (Some a)
    then show ?thesis
      using name [of pn'] pk(1) by (cases "a = p") (auto simp: find_channel_def heap)
  qed (use name [of pn] in \<open>auto simp: find_channel_def\<close>)
  show "lookup ?h m pn' cn bn = lookup h m pn' cn bn"
  proof (cases "pn' = pn \<and> cn = n")
    case True
    have "find_channel h m pn n = None"
      using name [of pn] pk by (simp add: find_channel_def)
    with True show ?thesis
      by (simp add: lookup_def find bundle_in_def heap)
  next
    case False
    show ?thesis
    proof (cases "find_channel h m pn' cn")
      case (Some c)
      then obtain q where "channel_linked h q cn c" using find_channel_linked [OF l] by blast
      then have "bundle_in ?h c bn = bundle_in h c bn"
        by (rule bundle_in_frame) (use channel_linked_not_fresh [OF fr \<open>channel_linked h q cn c\<close>] in \<open>simp_all add: heap\<close>)
      with False Some show ?thesis by (auto simp: lookup_def find)
    qed (use False in \<open>auto simp: lookup_def find\<close>)
  qed
qed

lemma put_bundle_heap:
  assumes "h_ch h c = Some ch" "mc_Bundles ch = Some bs"
  obtains h' where "put_bundle c b h = Inr h'" "h_pkg h' = h_pkg h"
    "h_ch h' = (h_ch h)(c := Some (ch\<lparr>mc_Bundles := Some (gm_put (mb_Name b) (h_next h) bs)\<rparr>))"
    "h_bun h' = (h_bun h)(h_next h := Some b)" "h_next h' = Suc (h_next h)"
proof (rule that)
  show "put_bundle c b h = Inr (set_ch c (ch\<lparr>mc_Bundles := Some (gm_put (mb_Name b) (h_next h) bs)\<rparr>)
      (snd (alloc_bun b h)))"
    using assms by (simp add: put_bundle_def alloc_bun_def map_write_def)
qed (simp_all add: alloc_bun_def set_ch_def)

definition bundle_put :: "heap \<Rightarrow> heap \<Rightarrow> addr \<Rightarrow> ModelBundle \<Rightarrow> ModelChannel \<Rightarrow> (string, addr) gomap \<Rightarrow> bool" where
  "bundle_put h h' c b ch bs \<longleftrightarrow>
     heap_fresh h \<and> h_ch h c = Some ch \<and> mc_Bundles ch = Some bs \<and> h_pkg h' = h_pkg h
     \<and> h_ch h' = (h_ch h)(c := Some (ch\<lparr>mc_Bundles := Some (gm_put (mb_Name b) (h_next h) bs)\<rparr>))
     \<and> h_bun h' = (h_bun h)(h_next h := Some b) \<and> h_next h' = Suc (h_next h)"

lemma bundle_putD:
  assumes "bundle_put h h' c b ch bs"
  shows "heap_fresh h" "h_ch h c = Some ch" "mc_Bundles ch = Some bs" "h_pkg h' = h_pkg h"
    "h_ch h' = (h_ch h)(c := Some (ch\<lparr>mc_Bundles := Some (gm_put (mb_Name b) (h_next h) bs)\<rparr>))"
    "h_bun h' = (h_bun h)(h_next h := Some b)" "h_next h' = Suc (h_next h)"
  using assms by (simp_all add: bundle_put_def)

lemma bundle_put_keep:
  assumes "bundle_put h h' c b ch bs" "h_bun h x \<noteq> None"
  shows "h_bun h' x = h_bun h x"
  using assms heap_freshD [of h "h_next h"] by (auto simp: bundle_put_def)

lemma bundle_put_channel_linked:
  assumes put: "bundle_put h h' c b ch bs" and c: "channel_linked h p cn c"
    and b: "mb_Package b = Some p" "mb_Channel b = Some c"
    and x: "channel_linked h a k x"
  shows "channel_linked h' a k x"
proof (cases "x = c")
  case True
  note heap = bundle_putD [OF put]
  from c heap(2,3) have ch: "mc_Name ch = cn" "mc_Package ch = Some p" "gm_wf bs"
    "\<And>k y. (k, y) \<in> set bs \<Longrightarrow> bundle_linked h p c k y"
    by (auto simp: channel_linked_def)
  from x True heap(2) ch have ak: "a = p" "k = cn" by (auto simp: channel_linked_def)
  have "bundle_linked h' p c k y" if "(k, y) \<in> set (gm_put (mb_Name b) (h_next h) bs)" for k y
  proof (cases "(k, y) = (mb_Name b, h_next h)")
    case False
    with that ch(3) have "bundle_linked h p c k y" by (intro ch(4)) (auto simp: gm_set_put)
    then show ?thesis using bundle_put_keep [OF put, of y] by (auto simp: bundle_linked_def)
  qed (simp add: bundle_linked_def heap(6) b)
  then show ?thesis
    unfolding True ak channel_linked_def using ch by (auto simp: heap(5))
next
  case False
  show ?thesis
    by (rule channel_linked_frame [OF x])
      (use False bundle_put_keep [OF put] bundle_putD(5) [OF put] in simp_all)
qed

lemma bundle_put_linked:
  assumes put: "bundle_put h h' c b ch bs" and c: "channel_linked h p cn c"
    and b: "mb_Package b = Some p" "mb_Channel b = Some c" and l: "linked h m"
  shows "linked h' m"
proof -
  note heap = bundle_putD [OF put]
  have "package_linked h' a" if "package_linked h a" for a
  proof -
    from that obtain q cs where q: "h_pkg h a = Some q" "mp_Channels q = Some cs" "gm_wf cs"
      "\<forall>(k, c) \<in> set cs. channel_linked h a k c" "\<forall>d. mp_DefaultChannel q = Some d \<longrightarrow> d \<in> snd ` set cs"
      by (auto simp: package_linked_def)
    have "\<forall>(k, x) \<in> set cs. channel_linked h' a k x"
      using q(4) bundle_put_channel_linked [OF put c b] by fast
    with q show ?thesis by (auto simp: package_linked_def heap(4))
  qed
  moreover have "heap_fresh h'"
    using heap(1,2) by (auto simp: heap_fresh_def heap(4-7))
  ultimately show ?thesis
    using linkedD [OF l] unfolding linked_def heap(4) by blast
qed

lemma bundle_put_lookup:
  assumes put: "bundle_put h h' c b ch bs" and l: "linked h m" and find: "find_channel h m pn cn = Some c"
  shows "lookup h' m = lookup_upd pn cn b (lookup h m)"
proof (intro ext)
  fix pn' cn' bn
  note heap = bundle_putD [OF put]
  have eq: "find_channel h' m = find_channel h m"
    by (intro ext) (simp add: find_channel_def heap(4))
  obtain p where p: "channel_linked h p cn c" using find_channel_linked [OF l find] by blast
  show "lookup h' m pn' cn' bn = lookup_upd pn cn b (lookup h m) pn' cn' bn"
  proof (cases "find_channel h m pn' cn'")
    case None
    with find show ?thesis by (auto simp: lookup_def lookup_upd_def eq)
  next
    case (Some x)
    show ?thesis
    proof (cases "x = c")
      case True
      then have names: "pn' = pn" "cn' = cn" using find_channel_inj [OF l find] Some by auto
      have "h_bun h' y = h_bun h y" if "gm_get bs bn = Some y" for y
      proof -
        have "bundle_linked h p c bn y"
          using p heap(2,3) map_of_SomeD [OF that] by (auto simp: channel_linked_def)
        then show ?thesis using bundle_put_keep [OF put, of y] by (auto simp: bundle_linked_def)
      qed
      then have "bundle_in h' c bn = (if bn = mb_Name b then Some (b\<lparr>mb_Package := None, mb_Channel := None\<rparr>)
          else bundle_in h c bn)"
        using heap(2,3) by (cases "gm_get bs bn") (auto simp: bundle_in_def heap(5) heap(6))
      with Some True names show ?thesis by (simp add: lookup_def lookup_upd_def eq)
    next
      case False
      then have names: "\<not> (pn' = pn \<and> cn' = cn)" using find Some by auto
      obtain q where "channel_linked h q cn' x" using find_channel_linked [OF l Some] by blast
      then have "bundle_in h' x bn = bundle_in h x bn"
        by (rule bundle_in_frame) (use False bundle_put_keep [OF put] heap(5) in simp_all)
      with Some names show ?thesis by (auto simp: lookup_def lookup_upd_def eq)
    qed
  qed
qed

lemma put_bundle_linked:
  assumes l: "linked h m" and find: "find_channel h m pn cn = Some c" and mem: "(pn, p) \<in> set m"
    and b: "mb_Package b = Some p" "mb_Channel b = Some c"
  obtains h' where "put_bundle c b h = Inr h'" "linked h' m" "h_pkg h' = h_pkg h"
    "lookup h' m = lookup_upd pn cn b (lookup h m)"
proof -
  obtain q where q: "(pn, q) \<in> set m" "channel_linked h q cn c" using find_channel_linked [OF l find] .
  have "q = p" using eq_key_imp_eq_value [OF linkedD(1) [OF l, unfolded gm_wf_def] q(1) mem] .
  with q have c: "channel_linked h p cn c" by simp
  then obtain ch bs where ch: "h_ch h c = Some ch" "mc_Bundles ch = Some bs"
    by (auto simp: channel_linked_def)
  obtain h' where h': "put_bundle c b h = Inr h'" and put: "bundle_put h h' c b ch bs"
    using put_bundle_heap [OF ch] ch linkedD(2) [OF l] unfolding bundle_put_def by metis
  show thesis
    using that [OF h' bundle_put_linked [OF put c b l] bundle_putD(4) [OF put]]
      bundle_put_lookup [OF put l find] by blast
qed

lemma set_pkg_linked:
  assumes l: "linked h m" and mem: "(pn, p) \<in> set m" and pk: "h_pkg h p = Some pk"
    and new: "mp_Name pk' = mp_Name pk" "mp_Channels pk' = mp_Channels pk"
      "\<And>d. mp_DefaultChannel pk' = Some d \<Longrightarrow> d \<in> snd ` set (entries (mp_Channels pk))"
  shows "linked (set_pkg p pk' h) m" "lookup (set_pkg p pk' h) m = lookup h m"
    "find_channel (set_pkg p pk' h) m = find_channel h m"
proof -
  let ?h = "set_pkg p pk' h"
  have heap: "h_pkg ?h = (h_pkg h)(p := Some pk')" "h_ch ?h = h_ch h" "h_bun ?h = h_bun h" "h_next ?h = h_next h"
    by (simp_all add: set_pkg_def)
  have chl: "channel_linked ?h = channel_linked h"
    by (intro ext) (simp add: channel_linked_def bundle_linked_def heap)
  have "package_linked ?h a" if "(k, a) \<in> set m" for k a
    using linkedD(3) [OF l that] pk new by (auto simp: package_linked_def heap chl)
  moreover have "\<exists>q. h_pkg ?h a = Some q \<and> mp_Name q = k" if "(k, a) \<in> set m" for k a
    using linkedD(4) [OF l that] pk new(1) by (auto simp: heap)
  moreover have "heap_fresh ?h"
    using linkedD(2) [OF l] pk by (auto simp: heap_fresh_def heap)
  ultimately show "linked ?h m"
    using linkedD(1) [OF l] unfolding linked_def by blast
  show find: "find_channel ?h m = find_channel h m"
  proof (intro ext)
    fix pn cn
    show "find_channel ?h m pn cn = find_channel h m pn cn"
      using pk new(2) by (cases "gm_get m pn") (auto simp: find_channel_def heap)
  qed
  show "lookup ?h m = lookup h m"
    by (intro ext) (simp add: lookup_def find bundle_in_def heap)
qed

lemma register_linked:
  assumes l: "linked h m" and pl: "package_linked h p" and pk: "h_pkg h p = Some pk"
    and none: "gm_get m (mp_Name pk) = None"
  shows "linked h (gm_put (mp_Name pk) p m)"
proof -
  have "{e \<in> set m. fst e \<noteq> mp_Name pk} = set m"
    using none by (force simp: map_of_eq_None_iff)
  then have set: "set (gm_put (mp_Name pk) p m) = insert (mp_Name pk, p) (set m)"
    using linkedD(1) [OF l] by (simp add: gm_set_put)
  show ?thesis
    unfolding linked_def set using linkedD [OF l] pl pk by auto
qed

lemma put_bundle_set_pkg:
  "put_bundle c b (set_pkg p q h) = bindr (put_bundle c b h) (\<lambda>h'. Inr (set_pkg p q h'))"
proof (cases "h_ch h c")
  case (Some ch)
  then show ?thesis
    by (cases "mc_Bundles ch") (simp_all add: put_bundle_def set_pkg_def set_ch_def alloc_bun_def map_write_def)
qed (simp add: put_bundle_def set_pkg_def)

lemma set_pkg_set_pkg [simp]: "set_pkg p q (set_pkg p q' h) = set_pkg p q h"
  by (simp add: set_pkg_def)

definition or_default :: "addr \<Rightarrow> ModelPackage \<Rightarrow> ModelPackage" where
  "or_default c pk = (if mp_DefaultChannel pk = None then pk\<lparr>mp_DefaultChannel := Some c\<rparr> else pk)"

lemma or_default_simps [simp]:
  "mp_Name (or_default c pk) = mp_Name pk" "mp_Channels (or_default c pk) = mp_Channels pk"
  "mp_DefaultChannel (or_default c pk) = Some (case mp_DefaultChannel pk of None \<Rightarrow> c | Some d \<Rightarrow> d)"
  by (auto simp: or_default_def)

lemma or_default_linked:
  assumes l: "linked h m" and mem: "(pn, p) \<in> set m" and pk: "h_pkg h p = Some pk"
    and c: "c \<in> snd ` set (entries (mp_Channels pk))"
  shows "linked (set_pkg p (or_default c pk) h) m" "lookup (set_pkg p (or_default c pk) h) m = lookup h m"
proof -
  have "package_linked h p" by (rule linkedD(3) [OF l mem])
  then have "d \<in> snd ` set (entries (mp_Channels pk))" if "mp_DefaultChannel (or_default c pk) = Some d" for d
    using that c pk by (auto simp: package_linked_def split: option.splits)
  then show "linked (set_pkg p (or_default c pk) h) m" "lookup (set_pkg p (or_default c pk) h) m = lookup h m"
    using set_pkg_linked [OF l mem pk, of "or_default c pk"] by simp_all
qed

lemma AddBundle_old_channel:
  assumes l: "linked h m" and mem: "(pn, p) \<in> set m" and pk: "h_pkg h p = Some pk"
    and c: "gm_get (entries (mp_Channels pk)) cn = Some c"
    and b: "mb_Package b = Some p" "mb_Channel b = Some c"
  obtains h' where "put_bundle c b h = Inr h'" "linked (set_pkg p (or_default c pk) h') m"
    "lookup (set_pkg p (or_default c pk) h') m = lookup_upd pn cn b (lookup h m)"
proof -
  have get: "gm_get m pn = Some p" using mem linkedD(1) [OF l] by (simp add: gm_get_Some_iff)
  have find: "find_channel h m pn cn = Some c" using get pk c by (simp add: find_channel_def)
  obtain h' where h': "put_bundle c b h = Inr h'" "linked h' m" "h_pkg h' = h_pkg h"
    "lookup h' m = lookup_upd pn cn b (lookup h m)"
    using put_bundle_linked [OF l find mem b] .
  have "c \<in> snd ` set (entries (mp_Channels pk))" using map_of_SomeD [OF c] by force
  with h' pk have "linked (set_pkg p (or_default c pk) h') m"
    "lookup (set_pkg p (or_default c pk) h') m = lookup h' m"
    using or_default_linked [OF h'(2) mem, of pk c] by simp_all
  with h' that show thesis by simp
qed

lemma AddBundle_new_channel:
  assumes l: "linked h m" and mem: "(pn, p) \<in> set m" and pk: "h_pkg h p = Some pk"
    and c: "gm_get (entries (mp_Channels pk)) cn = None"
    and b: "mb_Package b = Some p" "mb_Channel b = Some (h_next h)"
  obtains h' pk1 where
    "put_bundle (h_next h) b (snd (alloc_ch \<lparr>mc_Package = Some p, mc_Name = cn, mc_Bundles = Some []\<rparr> h)) = Inr h'"
    "map_write cn (h_next h) (mp_Channels pk) = Inr (mp_Channels pk1)"
    "pk1 = pk\<lparr>mp_Channels := mp_Channels pk1\<rparr>"
    "linked (set_pkg p (or_default (h_next h) pk1) h') m"
    "lookup (set_pkg p (or_default (h_next h) pk1) h') m = lookup_upd pn cn b (lookup h m)"
proof -
  let ?h1 = "add_channel p cn h" and ?c = "h_next h"
  let ?h0 = "snd (alloc_ch \<lparr>mc_Package = Some p, mc_Name = cn, mc_Bundles = Some []\<rparr> h)"
  obtain cs where cs: "mp_Channels pk = Some cs"
    using linkedD(3) [OF l mem] pk by (auto simp: package_linked_def)
  define pk1 where "pk1 = pk\<lparr>mp_Channels := Some (gm_put cn ?c cs)\<rparr>"
  have h1: "?h1 = set_pkg p pk1 ?h0"
    using pk cs by (simp add: add_channel_def alloc_ch_def pk1_def)
  note a = add_channel_linked [OF l mem pk c]
  have pk1: "h_pkg ?h1 p = Some pk1" by (simp add: h1 set_pkg_def)
  have get: "gm_get (entries (mp_Channels pk1)) cn = Some ?c" by (simp add: pk1_def)
  obtain h' where h': "put_bundle ?c b ?h1 = Inr h'" "linked (set_pkg p (or_default ?c pk1) h') m"
    "lookup (set_pkg p (or_default ?c pk1) h') m = lookup_upd pn cn b (lookup ?h1 m)"
    using AddBundle_old_channel [OF a(1) mem pk1 get b] .
  obtain h2 where h2: "put_bundle ?c b ?h0 = Inr h2" "h' = set_pkg p pk1 h2"
    using h'(1) unfolding h1 put_bundle_set_pkg by auto
  have "lookup ?h1 m = lookup h m" by (intro ext) (rule a(3))
  with h' h2 show thesis
    by (intro that [of h2 pk1]) (simp_all add: pk1_def map_write_def cs)
qed


section \<open>Linked indexes validate without panic\<close>

lemma bundle_linked_Validate:
  assumes "bundle_linked h p c n a" "channel_linked h p k c"
  shows "\<exists>errs. Bundle_Validate h a = Inr errs"
  using assms by (auto simp: bundle_linked_def channel_linked_def Bundle_Validate_def)

lemma channel_linked_present:
  assumes "channel_linked h p n a" "h_ch h a = Some c"
  shows "bundles_present h c"
  using assms by (fastforce simp: channel_linked_def bundles_present_def list_all_iff bundle_linked_def)

lemma Channel_Head_no_panic:
  assumes "bundles_present h c"
  shows "\<exists>r. Channel_Head h c = Inr r"
  unfolding Channel_Head_def channel_bundles_present [OF assms] by (simp add: Let_def)

lemma mapM_bind_ok:
  assumes "\<And>x. x \<in> set xs \<Longrightarrow> \<exists>y. f x = Inr y"
  shows "\<exists>ys. mapM f xs = Inr ys"
  using assms unfolding mapM_Inr_ex by blast

lemma channel_linked_Validate:
  assumes l: "channel_linked h p n a"
  shows "\<exists>errs. Channel_Validate h a = Inr errs"
proof -
  obtain c bs where c: "h_ch h a = Some c" "mc_Bundles c = Some bs" "\<forall>(k, b) \<in> set bs. bundle_linked h p a k b"
    using l by (auto simp: channel_linked_def)
  obtain r where r: "Channel_Head h c = Inr r"
    using Channel_Head_no_panic [OF channel_linked_present [OF l c(1)]] by blast
  have "\<exists>y. bindr (deref_bun h (snd e)) (\<lambda>b. bindr (Bundle_Validate h (snd e)) (\<lambda>errs.
       Inr (when_err (fst e \<noteq> mb_Name b) (BundleKeyMismatch (fst e) (mb_Name b)) @ errs
            @ when_err (mb_Channel b \<noteq> Some a) (BundleNotLinked (mb_Name b))))) = Inr y" if "e \<in> set bs" for e
  proof -
    have bl: "bundle_linked h p a (fst e) (snd e)" using c(3) that by auto
    obtain errs where "Bundle_Validate h (snd e) = Inr errs" using bundle_linked_Validate [OF bl l] ..
    with bl show ?thesis by (auto simp: bundle_linked_def)
  qed
  from mapM_bind_ok [OF this] c r show ?thesis by (auto simp: Channel_Validate_def)
qed

lemma package_linked_Validate:
  assumes l: "package_linked h a"
  shows "\<exists>errs. Package_Validate h a = Inr errs"
proof -
  obtain p cs where p: "h_pkg h a = Some p" "mp_Channels p = Some cs" "\<forall>(k, c) \<in> set cs. channel_linked h a k c"
    "\<forall>d. mp_DefaultChannel p = Some d \<longrightarrow> d \<in> snd ` set cs"
    using l by (auto simp: package_linked_def)
  have "\<exists>y. bindr (deref_ch h (snd e)) (\<lambda>c. bindr (Channel_Validate h (snd e)) (\<lambda>errs.
       Inr (when_err (fst e \<noteq> mc_Name c) (ChannelKeyMismatch (fst e) (mc_Name c)) @ errs
            @ when_err (mc_Package c \<noteq> Some a) (ChannelNotLinked (mc_Name c))))) = Inr y" if "e \<in> set cs" for e
  proof -
    have cl: "channel_linked h a (fst e) (snd e)" using p(3) that by auto
    obtain errs where "Channel_Validate h (snd e) = Inr errs" using channel_linked_Validate [OF cl] ..
    with cl show ?thesis by (auto simp: channel_linked_def)
  qed
  from mapM_bind_ok [OF this] p show ?thesis
    by (cases "mp_DefaultChannel p") (auto simp: Package_Validate_def)
qed

lemma linked_Validate:
  assumes "linked h m"
  shows "\<exists>errs. Model_Validate h m = Inr errs"
proof -
  have "\<exists>y. bindr (deref_pkg h (snd e)) (\<lambda>p. bindr (Package_Validate h (snd e)) (\<lambda>errs.
      Inr (when_err (fst e \<noteq> mp_Name p) (PackageKeyMismatch (fst e) (mp_Name p)) @ errs))) = Inr y" if "e \<in> set m" for e
  proof -
    have "package_linked h (snd e)" using linkedD(3) [OF assms, of "fst e" "snd e"] that by simp
    moreover from package_linked_Validate [OF this] obtain errs where "Package_Validate h (snd e) = Inr errs" ..
    ultimately show ?thesis by (auto simp: package_linked_def)
  qed
  from mapM_bind_ok [OF this] show ?thesis by (auto simp: Model_Validate_def)
qed

section \<open>What Normalize does\<close>

lemma normalize_property_eq:
  "normalize_property p =
     (case json_compact (case p_Value p of None \<Rightarrow> ''null'' | Some d \<Rightarrow> d) of
        None \<Rightarrow> p
      | Some d \<Rightarrow> p\<lparr>p_Value := Some d\<rparr>)"
  by (cases p) (auto simp: normalize_property_def Build_def jsonMarshal_def json_compact_line split: option.split)

lemma normalize_property_type [simp]: "p_Type (normalize_property p) = p_Type p"
  by (simp add: normalize_property_eq split: option.split)

lemma normalize_property_idem: "normalize_property (normalize_property p) = normalize_property p"
proof (cases "json_compact (case p_Value p of None \<Rightarrow> ''null'' | Some d \<Rightarrow> d)")
  case (Some d)
  then show ?thesis using json_compact_idem [OF Some] by (simp add: normalize_property_eq)
qed (simp add: normalize_property_eq)

lemma normalize_property_parse:
  assumes "json_valid (raw_bytes (p_Value p))"
  shows "json_parse (raw_bytes (p_Value (normalize_property p))) = json_parse (raw_bytes (p_Value p))"
proof -
  obtain d where d: "p_Value p = Some d"
    using assms by (cases "p_Value p") (auto simp: raw_bytes_def json_valid_def)
  then obtain t where "json_compact d = Some t"
    using assms by (auto simp: raw_bytes_def json_compact_def)
  with d json_compact_Some [OF this] show ?thesis
    by (auto simp: normalize_property_eq raw_bytes_def)
qed

lemma normalize_unmarshal:
  "json_valid (raw_bytes (p_Value p)) \<Longrightarrow> unmarshal dec (p_Value (normalize_property p)) = unmarshal dec (p_Value p)"
  by (simp add: unmarshal_def normalize_property_parse)

lemma normalize_decodes:
  assumes "decodes p"
  shows "decodes (normalize_property p)"
proof -
  have v: "json_valid (raw_bytes (p_Value p))" by (rule decodes_json_valid [OF assms])
  then have "json_valid (raw_bytes (p_Value (normalize_property p)))"
    using normalize_property_parse [OF v] by (simp add: json_valid_def)
  with assms show ?thesis
    unfolding decodes_def normalize_property_type normalize_unmarshal [OF v] by simp
qed

lemma normalize_of_type:
  assumes "\<forall>p \<in> set ps. decodes p"
  shows "of_type t dec (map normalize_property ps) = of_type t dec ps"
  using assms decodes_json_valid by (simp add: of_type_def filter_map comp_def normalize_unmarshal)

text \<open>What a bundle's properties parse to does not change, but for the spelling of unknown ones.\<close>

lemma normalize_Parse:
  assumes "Parse ps = Inr out"
  shows "Parse (map normalize_property ps) = Inr (out\<lparr>Others := map normalize_property (Others out)\<rparr>)"
proof -
  have d: "\<forall>p \<in> set ps. decodes p" and out: "out = classified ps"
    using assms Parse_loop_ok first_failure Parse_loop_error unfolding Parse_def
    by (metis Inl_Inr_False Inr_inject props_append_Nil)+
  have "\<forall>p \<in> set (map normalize_property ps). decodes p" using d normalize_decodes by auto
  then have "Parse (map normalize_property ps) = Inr (classified (map normalize_property ps))"
    by (simp add: Parse_def Parse_loop_ok)
  also have "classified (map normalize_property ps) = out\<lparr>Others := map normalize_property (Others out)\<rparr>"
    unfolding out classified_def by (simp add: normalize_of_type [OF d] filter_map comp_def)
  finally show ?thesis .
qed

definition norm_bundle :: "ModelBundle \<Rightarrow> ModelBundle" where
  "norm_bundle b = b\<lparr>mb_Properties := map normalize_property (mb_Properties b)\<rparr>"

definition normalized :: "heap \<Rightarrow> addr set \<Rightarrow> heap" where
  "normalized h R = h\<lparr>h_bun := (\<lambda>a. if a \<in> R then map_option norm_bundle (h_bun h a) else h_bun h a)\<rparr>"

lemma norm_bundle_simps [simp]:
  "mb_Name (norm_bundle b) = mb_Name b" "mb_Package (norm_bundle b) = mb_Package b"
  "mb_Channel (norm_bundle b) = mb_Channel b" "mb_Replaces (norm_bundle b) = mb_Replaces b"
  "mb_Skips (norm_bundle b) = mb_Skips b" "mb_Image (norm_bundle b) = mb_Image b"
  "mb_Objects (norm_bundle b) = mb_Objects b"
  "mb_Properties (norm_bundle b) = map normalize_property (mb_Properties b)"
  by (simp_all add: norm_bundle_def)

lemma norm_bundle_idem [simp]: "norm_bundle (norm_bundle b) = norm_bundle b"
  by (simp add: norm_bundle_def normalize_property_idem)

lemma normalized_simps [simp]:
  "h_pkg (normalized h R) = h_pkg h" "h_ch (normalized h R) = h_ch h" "h_next (normalized h R) = h_next h"
  "h_bun (normalized h R) a = (if a \<in> R then map_option norm_bundle (h_bun h a) else h_bun h a)"
  by (simp_all add: normalized_def)

lemma normalized_empty [simp]: "normalized h {} = h"
  by (simp add: normalized_def)

lemma normalize_bundle_eq:
  assumes "h_bun h a \<noteq> None"
  shows "normalize_bundle (normalized h R) a = Inr (normalized h (R \<union> {a}))"
proof -
  obtain b where b: "h_bun h a = Some b" using assms by blast
  have "(h_bun (normalized h R))(a := Some (norm_bundle b)) = h_bun (normalized h (R \<union> {a}))"
    using b by (auto simp: fun_eq_iff)
  with b show ?thesis
    by (auto simp: normalize_bundle_def norm_bundle_def [symmetric] normalized_def fun_eq_iff)
qed

lemma foldM_normalized:
  assumes "\<And>R a. a \<in> set as \<Longrightarrow> f (normalized h R) a = Inr (normalized h (R \<union> g a))"
  shows "foldM f (normalized h R) as = Inr (normalized h (R \<union> \<Union> (g ` set as)))"
  using assms
proof (induction as arbitrary: R)
  case (Cons a as)
  have "foldM f (normalized h R) (a # as) = foldM f (normalized h (R \<union> g a)) as"
    using Cons.prems [of a R] by simp
  also have "\<dots> = Inr (normalized h (R \<union> g a \<union> \<Union> (g ` set as)))"
    by (rule Cons.IH) (use Cons.prems in simp)
  finally show ?case by (simp add: Un_assoc)
qed simp

definition channel_addrs :: "heap \<Rightarrow> addr \<Rightarrow> addr set" where
  "channel_addrs h c = (case h_ch h c of None \<Rightarrow> {} | Some ch \<Rightarrow> snd ` set (entries (mc_Bundles ch)))"

definition package_addrs :: "heap \<Rightarrow> addr \<Rightarrow> addr set" where
  "package_addrs h p =
     (case h_pkg h p of None \<Rightarrow> {} | Some pk \<Rightarrow> \<Union> (channel_addrs h ` snd ` set (entries (mp_Channels pk))))"

definition model_addrs :: "heap \<Rightarrow> Model \<Rightarrow> addr set" where
  "model_addrs h m = \<Union> (package_addrs h ` snd ` set m)"

lemma normalize_channel_eq:
  assumes "channel_linked h p n c"
  shows "normalize_channel (normalized h R) c = Inr (normalized h (R \<union> channel_addrs h c))"
proof -
  obtain ch bs where ch: "h_ch h c = Some ch" "mc_Bundles ch = Some bs" "\<forall>(k, b) \<in> set bs. bundle_linked h p c k b"
    using assms by (auto simp: channel_linked_def)
  have "foldM normalize_bundle (normalized h R) (map snd bs) = Inr (normalized h (R \<union> \<Union> ((\<lambda>a. {a}) ` set (map snd bs))))"
    by (rule foldM_normalized, rule normalize_bundle_eq) (use ch(3) in \<open>force simp: bundle_linked_def\<close>)
  then show ?thesis using ch by (simp add: normalize_channel_def channel_addrs_def)
qed

lemma normalize_package_eq:
  assumes "package_linked h p"
  shows "normalize_package (normalized h R) p = Inr (normalized h (R \<union> package_addrs h p))"
proof -
  obtain pk cs where pk: "h_pkg h p = Some pk" "mp_Channels pk = Some cs" "\<forall>(k, c) \<in> set cs. channel_linked h p k c"
    using assms by (auto simp: package_linked_def)
  have "foldM normalize_channel (normalized h R) (map snd cs) =
      Inr (normalized h (R \<union> \<Union> (channel_addrs h ` set (map snd cs))))"
    by (rule foldM_normalized) (use pk(3) normalize_channel_eq in force)
  then show ?thesis using pk by (simp add: normalize_package_def package_addrs_def)
qed

lemma Model_Normalize_eq:
  assumes "linked h m"
  shows "Model_Normalize h m = Inr (normalized h (model_addrs h m))"
proof -
  have "foldM normalize_package (normalized h {}) (map snd m) =
      Inr (normalized h ({} \<union> \<Union> (package_addrs h ` set (map snd m))))"
    by (rule foldM_normalized) (use linkedD(3) [OF assms] normalize_package_eq in force)
  then show ?thesis by (simp add: Model_Normalize_def model_addrs_def)
qed

lemma normalized_linked: "linked h m \<Longrightarrow> linked (normalized h R) m"
proof -
  have b: "bundle_linked (normalized h R) p c n a" if "bundle_linked h p c n a" for p c n a
    using that by (auto simp: bundle_linked_def)
  have c: "channel_linked (normalized h R) p n a" if "channel_linked h p n a" for p n a
    using that b by (fastforce simp: channel_linked_def)
  have p: "package_linked (normalized h R) a" if "package_linked h a" for a
    using that c by (fastforce simp: package_linked_def)
  have "heap_fresh (normalized h R)" if "heap_fresh h"
    using that by (simp add: heap_fresh_def)
  with p show "linked (normalized h R) m" if "linked h m"
    using that by (fastforce simp: linked_def)
qed

lemma normalized_lookup:
  assumes "linked h m"
  shows "lookup (normalized h (model_addrs h m)) m pn cn bn = map_option norm_bundle (lookup h m pn cn bn)"
proof -
  let ?h = "normalized h (model_addrs h m)"
  have find: "find_channel ?h m pn cn = find_channel h m pn cn" by (simp add: find_channel_def)
  show ?thesis
  proof (cases "find_channel h m pn cn")
    case (Some c)
    then obtain p pk where p: "gm_get m pn = Some p" "h_pkg h p = Some pk" "gm_get (entries (mp_Channels pk)) cn = Some c"
      by (auto simp: find_channel_def bind_eq_Some_conv)
    have "a \<in> model_addrs h m" if "h_ch h c = Some ch" "gm_get (entries (mc_Bundles ch)) bn = Some a" for a ch
    proof -
      have "a \<in> channel_addrs h c" using that map_of_SomeD by (force simp: channel_addrs_def)
      then have "a \<in> package_addrs h p" using p(2) map_of_SomeD [OF p(3)] by (force simp: package_addrs_def)
      then show ?thesis using map_of_SomeD [OF p(1)] by (force simp: model_addrs_def)
    qed
    then have "bundle_in ?h c bn = map_option norm_bundle (bundle_in h c bn)"
      by (auto simp: bundle_in_def option.map_comp comp_def norm_bundle_def map_option_case
          split: option.splits Option.bind_splits)
    with Some find show ?thesis by (simp add: lookup_def)
  qed (simp add: lookup_def find)
qed

lemma edge_targets_norm [simp]: "edge_targets (norm_bundle b) = edge_targets b"
  by (simp add: edge_targets_def)

lemma channel_bundles_normalized:
  "channel_bundles (normalized h R) c =
     bindr (channel_bundles h c) (\<lambda>bs. Inr (map (\<lambda>e. (fst e, if fst e \<in> R then norm_bundle (snd e) else snd e)) bs))"
proof -
  have "mapM (\<lambda>e. bindr (deref_bun (normalized h R) (snd e)) (\<lambda>b. Inr (snd e, b))) es =
      bindr (mapM (\<lambda>e. bindr (deref_bun h (snd e)) (\<lambda>b. Inr (snd e, b))) es)
        (\<lambda>bs. Inr (map (\<lambda>e. (fst e, if fst e \<in> R then norm_bundle (snd e) else snd e)) bs))" for es :: "(string \<times> addr) list"
  proof (induction es)
    case (Cons e es)
    show ?case
    proof (cases "h_bun h (snd e)")
      case (Some b)
      then show ?thesis
        using Cons by (cases "mapM (\<lambda>e. bindr (deref_bun h (snd e)) (\<lambda>b. Inr (snd e, b))) es") simp_all
    qed simp
  qed simp
  then show ?thesis by (simp add: channel_bundles_def)
qed

lemma heads_of_map:
  assumes "\<And>e. mb_Name (snd (F e)) = mb_Name (snd e)" "\<And>e. edge_targets (snd (F e)) = edge_targets (snd e)"
  shows "heads_of (map F bs) = map F (heads_of bs)"
  by (simp add: heads_of_eq filter_map comp_def assms)

lemma Channel_Head_normalized: "Channel_Head (normalized h R) c = Channel_Head h c"
proof (cases "channel_bundles h c")
  case (Inr bs)
  then show ?thesis
    by (simp add: Channel_Head_def channel_bundles_normalized heads_of_map comp_def Let_def hd_map)
qed (simp add: Channel_Head_def channel_bundles_normalized)

lemma normalized_valid:
  assumes "model_valid h m"
  shows "model_valid (normalized h R) m"
proof -
  have b: "bundle_valid (normalized h R) a" if v: "bundle_valid h a" for a
  proof -
    from v obtain b c p ch props where "h_bun h a = Some b" "mb_Name b \<noteq> []" "mb_Channel b = Some c" "mb_Package b = Some p"
      "h_ch h c = Some ch" "mc_Package ch = Some p" "[] \<notin> set (mb_Skips b)" "Parse (mb_Properties b) = Inr props"
      "length (Packages props) = 1" "mb_Image b \<noteq> [] \<or> mb_Objects b \<noteq> []"
      unfolding bundle_valid_def by blast
    with normalize_Parse [OF this(8)] show ?thesis
      unfolding bundle_valid_def by (cases "a \<in> R") auto
  qed
  have c: "channel_valid (normalized h R) a" if "channel_valid h a" for a
    using that b unfolding channel_valid_def Channel_Head_normalized normalized_simps
    by (elim exE conjE) (intro exI conjI; fastforce)
  have "package_valid (normalized h R) a" if "package_valid h a" for a
    using that c unfolding package_valid_def normalized_simps by blast
  with assms show ?thesis unfolding model_valid_def normalized_simps by blast
qed


section \<open>A sample index\<close>

definition sample_bundle :: "string \<Rightarrow> string \<Rightarrow> ModelBundle" where
  "sample_bundle n r =
     \<lparr>mb_Package = Some 0, mb_Channel = Some 1, mb_Name = n, mb_Image = ''img'', mb_Replaces = r, mb_Skips = [],
      mb_Properties = [built (IPackage \<lparr>pkg_PackageName = ''etcd'', pkg_Version = ''1.0.0''\<rparr>)],
      mb_RelatedImages = [], mb_Objects = [], mb_CsvJSON = []\<rparr>"

definition sample_channel :: ModelChannel where
  "sample_channel = \<lparr>mc_Package = Some 0, mc_Name = ''alpha'', mc_Bundles = Some [(''v2'', 3), (''v1'', 2)]\<rparr>"

definition sample_package :: ModelPackage where
  "sample_package = \<lparr>mp_Name = ''etcd'', mp_Description = [], mp_Icon = None, mp_DefaultChannel = Some 1,
     mp_Channels = Some [(''alpha'', 1)]\<rparr>"

definition sample_heap :: heap where
  "sample_heap =
     \<lparr>h_pkg = map_of [(0, sample_package)], h_ch = map_of [(1, sample_channel)],
      h_bun = map_of [(2, sample_bundle ''v1'' []), (3, sample_bundle ''v2'' ''v1'')], h_next = 4\<rparr>"

definition sample_model :: Model where
  "sample_model = [(''etcd'', 0)]"

lemmas sample_defs = sample_heap_def sample_model_def sample_package_def sample_channel_def sample_bundle_def

lemma sample_linked: "linked sample_heap sample_model"
  by (auto simp: linked_def heap_fresh_def package_linked_def channel_linked_def bundle_linked_def gm_wf_def
      sample_defs)

theorem Channel_Head_spec_witness:
  "Channel_Head sample_heap sample_channel = Inr (Inr 3) \<and> head_keys sample_heap sample_channel = {''v2''}"
proof -
  have "Channel_Head sample_heap sample_channel = Inr (Inr 3)" by code_simp
  moreover have "gm_wf (entries (mc_Bundles sample_channel))" "bundles_present sample_heap sample_channel"
    by (simp_all add: gm_wf_def bundles_present_def sample_defs)
  ultimately show ?thesis
    using Channel_Head_spec [of sample_channel sample_heap] by (auto simp: sample_channel_def split: if_splits)
qed



end
