(* ===== verification/Declcfg.thy ===== *)
theory Declcfg
  imports Model
begin

text \<open>
  The package \<^verbatim>\<open>internal/declcfg\<close>: declarative configs, their conversion to an index and back, the
  grouping of documents when a config is written, and the routing of documents when one is read.

  \<open>ConvertToModel_spec\<close> relates the heap that \<^verbatim>\<open>ConvertToModel\<close> builds to plain map updates.
\<close>

section \<open>Data\<close>

record DeclIcon =
  di_Data :: string
  di_MediaType :: string

record DeclPackage =
  dp_Schema :: string
  dp_Name :: string
  dp_DefaultChannel :: string
  dp_Icon :: "DeclIcon option"
  dp_Description :: string

record DeclRelatedImage =
  dr_Name :: string
  dr_Image :: string

record DeclBundle =
  db_Schema :: string
  db_Name :: string
  db_Package :: string
  db_Image :: string
  db_Properties :: "Property list"
  db_RelatedImages :: "DeclRelatedImage list"
  db_CsvJSON :: string
  db_Objects :: "string list"

record Meta =
  me_Schema :: string
  me_Package :: string
  me_Blob :: string

record DeclarativeConfig =
  cfg_Packages :: "DeclPackage list"
  cfg_Bundles :: "DeclBundle list"
  cfg_Others :: "Meta list"

definition schemaPackage :: string where "schemaPackage = ''olm.package''"
definition schemaBundle :: string where "schemaBundle = ''olm.bundle''"

section \<open>Parsing the properties of a bundle\<close>

datatype properties_error = PropertiesParse parse_error | propertyDuplicate string string

fun check_channels :: "string list \<Rightarrow> string list \<Rightarrow> properties_error + unit" where
  "check_channels seen [] = Inr ()"
| "check_channels seen (n # ns) =
     (if n \<in> set seen then Inl (propertyDuplicate TypeChannel n) else check_channels (n # seen) ns)"

definition parseProperties :: "Property list \<Rightarrow> properties_error + Properties" where
  "parseProperties props =
     (case Parse props of
        Inl e \<Rightarrow> Inl (PropertiesParse e)
      | Inr out \<Rightarrow> bindr (check_channels [] (map chan_Name (Channels out))) (\<lambda>_. Inr out))"

section \<open>From a config to an index\<close>

datatype convert_error =
    BundlePackageNameUnset string
  | UnknownPackage string string
  | BundlePropertiesInvalid string properties_error
  | MissingPackageProperty string
  | PackagePropertyMismatch string string
  | MissingChannels string
  | InvalidModel "validationError list"
  | ConvertPanic go_panic

definition lift_panic :: "go_panic + 'a \<Rightarrow> convert_error + 'a" where
  "lift_panic r = (case r of Inl e \<Rightarrow> Inl (ConvertPanic e) | Inr x \<Rightarrow> Inr x)"

definition skipsToStrings :: "Skips list \<Rightarrow> string list" where
  "skipsToStrings ss = ss"

definition relatedImagesToModelRelatedImages :: "DeclRelatedImage list \<Rightarrow> RelatedImage list" where
  "relatedImagesToModelRelatedImages ris = map (\<lambda>p. \<lparr>ri_Name = dr_Name p, ri_Image = dr_Image p\<rparr>) ris"

definition empty_heap :: heap where
  "empty_heap = \<lparr>h_pkg = (\<lambda>_. None), h_ch = (\<lambda>_. None), h_bun = (\<lambda>_. None), h_next = 0\<rparr>"

definition model_package :: "DeclPackage \<Rightarrow> ModelPackage" where
  "model_package p =
     \<lparr>mp_Name = dp_Name p, mp_Description = dp_Description p,
      mp_Icon = map_option (\<lambda>i. \<lparr>ic_Data = di_Data i, ic_MediaType = di_MediaType i\<rparr>) (dp_Icon p),
      mp_DefaultChannel = None, mp_Channels = Some []\<rparr>"

text \<open>The heap, the index under construction, and the default channel names by package.\<close>

type_synonym conv_state = "heap \<times> Model \<times> (string, string) gomap"

definition convert_package :: "conv_state \<Rightarrow> DeclPackage \<Rightarrow> conv_state" where
  "convert_package st p =
     (let (h, mpkgs, defaultChannels) = st;
          (a, h1) = alloc_pkg (model_package p) h
      in (h1, gm_put (dp_Name p) a mpkgs, gm_put (dp_Name p) (dp_DefaultChannel p) defaultChannels))"

definition ensure_channel :: "heap \<Rightarrow> addr \<Rightarrow> string \<Rightarrow> string \<Rightarrow> go_panic + addr \<times> heap" where
  "ensure_channel h mpkg defaultChannelName n =
     bindr (deref_pkg h mpkg) (\<lambda>pk.
       case gm_get (entries (mp_Channels pk)) n of
         Some c \<Rightarrow> Inr (c, h)
       | None \<Rightarrow>
           let (c, h1) = alloc_ch \<lparr>mc_Package = Some mpkg, mc_Name = n, mc_Bundles = Some []\<rparr> h;
               pk1 = (if n = defaultChannelName then pk\<lparr>mp_DefaultChannel := Some c\<rparr> else pk)
           in bindr (map_write n c (mp_Channels pk1)) (\<lambda>cs. Inr (c, set_pkg mpkg (pk1\<lparr>mp_Channels := cs\<rparr>) h1)))"

definition model_bundle :: "DeclBundle \<Rightarrow> Properties \<Rightarrow> Channel \<Rightarrow> addr \<Rightarrow> addr \<Rightarrow> ModelBundle" where
  "model_bundle b props bundleChannel mpkg pkgChannel =
     \<lparr>mb_Package = Some mpkg, mb_Channel = Some pkgChannel, mb_Name = db_Name b, mb_Image = db_Image b,
      mb_Replaces = chan_Replaces bundleChannel, mb_Skips = skipsToStrings (SkipsL props),
      mb_Properties = db_Properties b,
      mb_RelatedImages = relatedImagesToModelRelatedImages (db_RelatedImages b),
      mb_Objects = db_Objects b, mb_CsvJSON = db_CsvJSON b\<rparr>"

definition convert_channel ::
  "addr \<Rightarrow> string \<Rightarrow> DeclBundle \<Rightarrow> Properties \<Rightarrow> heap \<Rightarrow> Channel \<Rightarrow> go_panic + heap" where
  "convert_channel mpkg defaultChannelName b props h bundleChannel =
     bindr (ensure_channel h mpkg defaultChannelName (chan_Name bundleChannel)) (\<lambda>(c, h1).
       put_bundle c (model_bundle b props bundleChannel mpkg c) h1)"

definition convert_bundle ::
  "Model \<Rightarrow> (string, string) gomap \<Rightarrow> heap \<Rightarrow> DeclBundle \<Rightarrow> convert_error + heap" where
  "convert_bundle mpkgs defaultChannels h b =
     (let defaultChannelName = (case gm_get defaultChannels (db_Package b) of None \<Rightarrow> [] | Some d \<Rightarrow> d)
      in if db_Package b = [] then Inl (BundlePackageNameUnset (db_Name b))
         else
           (case gm_get mpkgs (db_Package b) of
              None \<Rightarrow> Inl (UnknownPackage (db_Package b) (db_Name b))
            | Some mpkg \<Rightarrow>
                (case parseProperties (db_Properties b) of
                   Inl e \<Rightarrow> Inl (BundlePropertiesInvalid (db_Name b) e)
                 | Inr props \<Rightarrow>
                     if Packages props = [] then Inl (MissingPackageProperty (db_Name b))
                     else if db_Package b \<noteq> pkg_PackageName (hd (Packages props))
                     then Inl (PackagePropertyMismatch (db_Package b) (pkg_PackageName (hd (Packages props))))
                     else if Channels props = [] then Inl (MissingChannels (db_Name b))
                     else lift_panic (foldM (convert_channel mpkg defaultChannelName b props) h (Channels props)))))"

definition default_channel_step :: "(string, string) gomap \<Rightarrow> heap \<Rightarrow> addr \<Rightarrow> go_panic + heap" where
  "default_channel_step defaultChannels h mpkg =
     bindr (deref_pkg h mpkg) (\<lambda>pk.
       let defaultChannelName = (case gm_get defaultChannels (mp_Name pk) of None \<Rightarrow> [] | Some d \<Rightarrow> d)
       in if defaultChannelName \<noteq> [] \<and> mp_DefaultChannel pk = None then
            let (dch, h1) = alloc_ch \<lparr>mc_Package = Some mpkg, mc_Name = defaultChannelName, mc_Bundles = Some []\<rparr> h
            in bindr (map_write defaultChannelName dch (mp_Channels pk)) (\<lambda>cs.
               Inr (set_pkg mpkg (pk\<lparr>mp_DefaultChannel := Some dch, mp_Channels := cs\<rparr>) h1))
          else Inr h)"

definition ConvertToModel :: "DeclarativeConfig \<Rightarrow> convert_error + heap \<times> Model" where
  "ConvertToModel cfg =
     (let (h0, mpkgs, defaultChannels) = foldl convert_package (empty_heap, [], []) (cfg_Packages cfg)
      in bindr (foldM (convert_bundle mpkgs defaultChannels) h0 (cfg_Bundles cfg)) (\<lambda>h1.
         bindr (lift_panic (foldM (default_channel_step defaultChannels) h1 (map snd mpkgs))) (\<lambda>h2.
         bindr (lift_panic (Model_Validate h2 mpkgs)) (\<lambda>errs.
         if errs \<noteq> [] then Inl (InvalidModel errs)
         else bindr (lift_panic (Model_Normalize h2 mpkgs)) (\<lambda>h3. Inr (h3, mpkgs))))))"

section \<open>From an index to a config\<close>

definition modelRelatedImagesToRelatedImages :: "RelatedImage list \<Rightarrow> DeclRelatedImage list" where
  "modelRelatedImagesToRelatedImages ris = map (\<lambda>ri. \<lparr>dr_Name = ri_Name ri, dr_Image = ri_Image ri\<rparr>) ris"

definition traverse_bundle ::
  "heap \<Rightarrow> (string, DeclBundle) gomap \<Rightarrow> addr \<Rightarrow> go_panic + (string, DeclBundle) gomap" where
  "traverse_bundle h bundles a =
     bindr (deref_bun h a) (\<lambda>chb.
     bindr (case gm_get bundles (mb_Name chb) of
              Some b \<Rightarrow> Inr b
            | None \<Rightarrow>
                bindr (deref_opt (h_pkg h) (mb_Package chb)) (\<lambda>pk.
                Inr \<lparr>db_Schema = schemaBundle, db_Name = mb_Name chb, db_Package = mp_Name pk, db_Image = mb_Image chb,
                     db_Properties = [], db_RelatedImages = modelRelatedImagesToRelatedImages (mb_RelatedImages chb),
                     db_CsvJSON = mb_CsvJSON chb, db_Objects = mb_Objects chb\<rparr>)) (\<lambda>b.
     Inr (gm_put (mb_Name chb) (b\<lparr>db_Properties := db_Properties b @ mb_Properties chb\<rparr>) bundles)))"

definition traverse_channel ::
  "heap \<Rightarrow> (string, DeclBundle) gomap \<Rightarrow> addr \<Rightarrow> go_panic + (string, DeclBundle) gomap" where
  "traverse_channel h bundles c =
     bindr (deref_ch h c) (\<lambda>ch. foldM (traverse_bundle h) bundles (map snd (entries (mc_Bundles ch))))"

definition traverseModelChannels :: "heap \<Rightarrow> ModelPackage \<Rightarrow> go_panic + DeclBundle list" where
  "traverseModelChannels h mpkg =
     bindr (foldM (traverse_channel h) [] (map snd (entries (mp_Channels mpkg)))) (\<lambda>bundles.
       Inr (map (\<lambda>e. (snd e)\<lparr>db_Properties := Deduplicate (db_Properties (snd e))\<rparr>) bundles))"

definition from_package :: "heap \<Rightarrow> addr \<Rightarrow> go_panic + DeclPackage \<times> DeclBundle list" where
  "from_package h a =
     bindr (deref_pkg h a) (\<lambda>mpkg.
     bindr (traverseModelChannels h mpkg) (\<lambda>bundles.
     bindr (case mp_DefaultChannel mpkg of
              None \<Rightarrow> Inr []
            | Some d \<Rightarrow> bindr (deref_ch h d) (\<lambda>dc. Inr (mc_Name dc))) (\<lambda>defaultChannel.
     Inr (\<lparr>dp_Schema = schemaPackage, dp_Name = mp_Name mpkg, dp_DefaultChannel = defaultChannel,
           dp_Icon = map_option (\<lambda>i. \<lparr>di_Data = ic_Data i, di_MediaType = ic_MediaType i\<rparr>) (mp_Icon mpkg),
           dp_Description = mp_Description mpkg\<rparr>, bundles))))"

definition ConvertFromModel :: "heap \<Rightarrow> Model \<Rightarrow> go_panic + DeclarativeConfig" where
  "ConvertFromModel h mpkgs =
     bindr (mapM (\<lambda>e. from_package h (snd e)) mpkgs) (\<lambda>rs.
     Inr \<lparr>cfg_Packages = sort_Slice dp_Name (map fst rs),
          cfg_Bundles = sort_Slice db_Name (concat (map snd rs)), cfg_Others = []\<rparr>)"

section \<open>Writing a config\<close>

datatype doc = DocPackage DeclPackage | DocBundle DeclBundle | DocMeta Meta

text \<open>\<^verbatim>\<open>m[k] = append(m[k], x)\<close> for every \<open>x\<close> in order.\<close>

definition group_step :: "('a \<Rightarrow> string) \<Rightarrow> (string, 'a list) gomap \<Rightarrow> 'a \<Rightarrow> (string, 'a list) gomap" where
  "group_step key m x = gm_put (key x) ((case gm_get m (key x) of None \<Rightarrow> [] | Some xs \<Rightarrow> xs) @ [x]) m"

definition group_by :: "('a \<Rightarrow> string) \<Rightarrow> 'a list \<Rightarrow> (string, 'a list) gomap" where
  "group_by key xs = foldl (group_step key) [] xs"

definition group_get :: "(string, 'a list) gomap \<Rightarrow> string \<Rightarrow> 'a list" where
  "group_get m k = (case gm_get m k of None \<Rightarrow> [] | Some xs \<Rightarrow> xs)"

definition pkg_names :: "DeclarativeConfig \<Rightarrow> string list" where
  "pkg_names cfg =
     sort_Strings (remdups (map dp_Name (cfg_Packages cfg) @ map db_Package (cfg_Bundles cfg) @ map me_Package (cfg_Others cfg)))"

definition package_docs :: "DeclarativeConfig \<Rightarrow> string \<Rightarrow> doc list" where
  "package_docs cfg pName =
     map DocPackage (group_get (group_by dp_Name (cfg_Packages cfg)) pName)
     @ map DocBundle (sort_Slice db_Name (group_get (group_by db_Package (cfg_Bundles cfg)) pName))
     @ map DocMeta (sort_Slice me_Schema (group_get (group_by me_Package (cfg_Others cfg)) pName))"

definition write_order :: "DeclarativeConfig \<Rightarrow> doc list" where
  "write_order cfg =
     concat (map (package_docs cfg) (filter (\<lambda>n. n \<noteq> []) (pkg_names cfg)))
     @ map DocMeta (group_get (group_by me_Package (cfg_Others cfg)) [])"

text \<open>
  The encoder is an argument: the text it writes for a document, or its error. What was written
  before an error stays written.
\<close>

fun encode_docs :: "(doc \<Rightarrow> 'e + string) \<Rightarrow> doc list \<Rightarrow> string \<Rightarrow> 'e option \<times> string" where
  "encode_docs enc [] w = (None, w)"
| "encode_docs enc (d # ds) w = (case enc d of Inl e \<Rightarrow> (Some e, w) | Inr t \<Rightarrow> encode_docs enc ds (w @ t))"

definition writeToEncoder :: "(doc \<Rightarrow> 'e + string) \<Rightarrow> DeclarativeConfig \<Rightarrow> string \<Rightarrow> 'e option \<times> string" where
  "writeToEncoder enc cfg w = encode_docs enc (write_order cfg) w"

text \<open>The YAML encoder: the JSON text of the document, converted, behind a document separator.\<close>

definition yamlEncoder_Encode ::
  "(bool \<Rightarrow> doc \<Rightarrow> 'e + string) \<Rightarrow> (string \<Rightarrow> 'e + string) \<Rightarrow> bool \<Rightarrow> doc \<Rightarrow> 'e + string" where
  "yamlEncoder_Encode json_encode json_to_yaml escapeHTML v =
     bindr (json_encode escapeHTML v) (\<lambda>buf. bindr (json_to_yaml buf) (\<lambda>y. Inr (''---'' @ [CHR 0x0A] @ y)))"

definition WriteYAML ::
  "(bool \<Rightarrow> doc \<Rightarrow> 'e + string) \<Rightarrow> (string \<Rightarrow> 'e + string) \<Rightarrow> DeclarativeConfig \<Rightarrow> string \<Rightarrow> 'e option \<times> string" where
  "WriteYAML json_encode json_to_yaml = writeToEncoder (yamlEncoder_Encode json_encode json_to_yaml False)"

section \<open>Reading a config\<close>

text \<open>
  The text of a value, and the texts of the elements of an array and of the members of an object
  after the opening bracket: a raw message keeps the bytes of the document.
\<close>

definition raw_value :: "string \<Rightarrow> (string \<times> string) option" where
  "raw_value s =
     (let t = skip_ws s
      in map_option (\<lambda>(v, r). (take (length t - length r) t, r)) (parse_value (Suc (2 * length t)) t))"

fun raw_elems :: "nat \<Rightarrow> string \<Rightarrow> string list option" where
  "raw_elems 0 s = None"
| "raw_elems (Suc n) s =
     (case raw_value s of
        None \<Rightarrow> None
      | Some (x, t) \<Rightarrow>
          (case skip_ws t of
             [] \<Rightarrow> None
           | c # u \<Rightarrow> if c = CHR '','' then map_option ((#) x) (raw_elems n u)
                     else if c = CHR '']'' then Some [x] else None))"

fun raw_members :: "nat \<Rightarrow> string \<Rightarrow> (string \<times> string) list option" where
  "raw_members 0 s = None"
| "raw_members (Suc n) s =
     (case skip_ws s of
        [] \<Rightarrow> None
      | q # s1 \<Rightarrow>
          (case (if q = CHR 0x22 then unquote s1 else None) of
             None \<Rightarrow> None
           | Some (k, s2) \<Rightarrow>
               (case skip_ws s2 of
                  [] \<Rightarrow> None
                | d # s3 \<Rightarrow>
                    (case (if d = CHR '':'' then raw_value s3 else None) of
                       None \<Rightarrow> None
                     | Some (x, s4) \<Rightarrow>
                         (case skip_ws s4 of
                            [] \<Rightarrow> None
                          | c # u \<Rightarrow>
                              if c = CHR '','' then map_option ((#) (k, x)) (raw_members n u)
                              else if c = CHR ''}'' then Some [(k, x)]
                              else None)))))"

definition array_texts :: "string \<Rightarrow> string list option" where
  "array_texts s =
     (case json_parse s of
        Some (JArr []) \<Rightarrow> Some []
      | Some (JArr _) \<Rightarrow> raw_elems (length s) (tl (skip_ws s))
      | _ \<Rightarrow> None)"

definition object_texts :: "string \<Rightarrow> (string \<times> string) list option" where
  "object_texts s =
     (case json_parse s of
        Some (JObj []) \<Rightarrow> Some []
      | Some (JObj _) \<Rightarrow> raw_members (length s) (tl (skip_ws s))
      | _ \<Rightarrow> None)"

text \<open>Decoding an object, field by field, each from its text; \<^verbatim>\<open>null\<close> leaves the value as it is.\<close>

definition decode_text ::
  "string list \<Rightarrow> (string \<Rightarrow> string \<Rightarrow> 'a \<Rightarrow> 'a option) \<Rightarrow> 'a \<Rightarrow> string \<Rightarrow> 'a option" where
  "decode_text names set_field z s =
     (if json_parse s = Some JNull then Some z
      else Option.bind (object_texts s) (\<lambda>ms.
        fold (\<lambda>e r. Option.bind r (\<lambda>x.
          case route names (fst e) of None \<Rightarrow> Some x | Some n \<Rightarrow> set_field n (snd e) x)) ms (Some z)))"

definition decode_string_text :: "string \<Rightarrow> string \<Rightarrow> string option" where
  "decode_string_text s old = Option.bind (json_parse s) (\<lambda>v. decode_string v old)"

text \<open>A slice of structs, from its text.\<close>

definition decode_list_text :: "('a \<Rightarrow> string \<Rightarrow> 'a option) \<Rightarrow> 'a \<Rightarrow> string \<Rightarrow> 'a list \<Rightarrow> 'a list option" where
  "decode_list_text dec z s old =
     (if json_parse s = Some JNull then Some []
      else Option.bind (array_texts s) (\<lambda>ts. decode_slice dec z ts old))"

definition decode_Property :: "Property \<Rightarrow> string \<Rightarrow> Property option" where
  "decode_Property z =
     decode_text [''type'', ''value'']
       (\<lambda>n s p. if n = ''type'' then map_option (\<lambda>x. p\<lparr>p_Type := x\<rparr>) (decode_string_text s (p_Type p))
                else Some (p\<lparr>p_Value := Some s\<rparr>)) z"

definition decode_properties :: "string \<Rightarrow> Property list \<Rightarrow> Property list option" where
  "decode_properties = decode_list_text decode_Property \<lparr>p_Type = [], p_Value = None\<rparr>"

definition Meta_UnmarshalJSON :: "string \<Rightarrow> Meta option" where
  "Meta_UnmarshalJSON doc =
     Option.bind (raw_value doc) (\<lambda>(blob, _).
       map_option (\<lambda>(t, _). \<lparr>me_Schema = fst t, me_Package = snd t, me_Blob = blob\<rparr>)
         (decode_text [''schema'', ''package'', ''properties'']
            (\<lambda>n s ((sch, pkg), props).
               if n = ''schema'' then map_option (\<lambda>x. ((x, pkg), props)) (decode_string_text s sch)
               else if n = ''package'' then map_option (\<lambda>x. ((sch, x), props)) (decode_string_text s pkg)
               else map_option (\<lambda>ps. ((sch, pkg), ps)) (decode_properties s props))
            (([], []), []) blob))"

definition decode_DeclIcon :: "DeclIcon \<Rightarrow> string \<Rightarrow> DeclIcon option" where
  "decode_DeclIcon z =
     decode_text [''base64data'', ''mediatype'']
       (\<lambda>n s i. if n = ''base64data''
                then map_option (\<lambda>x. i\<lparr>di_Data := x\<rparr>) (Option.bind (json_parse s) (\<lambda>v. decode_bytes v (di_Data i)))
                else map_option (\<lambda>x. i\<lparr>di_MediaType := x\<rparr>) (decode_string_text s (di_MediaType i))) z"

text \<open>A pointer field: \<^verbatim>\<open>null\<close> resets it, an object is decoded into what it points at or a new value.\<close>

definition decode_icon_pointer :: "string \<Rightarrow> DeclIcon option \<Rightarrow> DeclIcon option option" where
  "decode_icon_pointer s old =
     (if json_parse s = Some JNull then Some None
      else map_option Some (decode_DeclIcon (case old of None \<Rightarrow> \<lparr>di_Data = [], di_MediaType = []\<rparr> | Some i \<Rightarrow> i) s))"

definition decode_DeclPackage :: "string \<Rightarrow> DeclPackage option" where
  "decode_DeclPackage =
     decode_text [''schema'', ''name'', ''defaultChannel'', ''icon'', ''description'']
       (\<lambda>n s p.
          if n = ''schema'' then map_option (\<lambda>x. p\<lparr>dp_Schema := x\<rparr>) (decode_string_text s (dp_Schema p))
          else if n = ''name'' then map_option (\<lambda>x. p\<lparr>dp_Name := x\<rparr>) (decode_string_text s (dp_Name p))
          else if n = ''defaultChannel''
          then map_option (\<lambda>x. p\<lparr>dp_DefaultChannel := x\<rparr>) (decode_string_text s (dp_DefaultChannel p))
          else if n = ''icon'' then map_option (\<lambda>x. p\<lparr>dp_Icon := x\<rparr>) (decode_icon_pointer s (dp_Icon p))
          else map_option (\<lambda>x. p\<lparr>dp_Description := x\<rparr>) (decode_string_text s (dp_Description p)))
       \<lparr>dp_Schema = [], dp_Name = [], dp_DefaultChannel = [], dp_Icon = None, dp_Description = []\<rparr>"

definition decode_DeclRelatedImage :: "DeclRelatedImage \<Rightarrow> string \<Rightarrow> DeclRelatedImage option" where
  "decode_DeclRelatedImage z =
     decode_text [''name'', ''image'']
       (\<lambda>n s r. if n = ''name'' then map_option (\<lambda>x. r\<lparr>dr_Name := x\<rparr>) (decode_string_text s (dr_Name r))
                else map_option (\<lambda>x. r\<lparr>dr_Image := x\<rparr>) (decode_string_text s (dr_Image r))) z"

definition decode_DeclBundle :: "string \<Rightarrow> DeclBundle option" where
  "decode_DeclBundle =
     decode_text [''schema'', ''name'', ''package'', ''image'', ''properties'', ''relatedImages'']
       (\<lambda>n s b.
          if n = ''schema'' then map_option (\<lambda>x. b\<lparr>db_Schema := x\<rparr>) (decode_string_text s (db_Schema b))
          else if n = ''name'' then map_option (\<lambda>x. b\<lparr>db_Name := x\<rparr>) (decode_string_text s (db_Name b))
          else if n = ''package'' then map_option (\<lambda>x. b\<lparr>db_Package := x\<rparr>) (decode_string_text s (db_Package b))
          else if n = ''image'' then map_option (\<lambda>x. b\<lparr>db_Image := x\<rparr>) (decode_string_text s (db_Image b))
          else if n = ''properties''
          then map_option (\<lambda>x. b\<lparr>db_Properties := x\<rparr>) (decode_properties s (db_Properties b))
          else map_option (\<lambda>x. b\<lparr>db_RelatedImages := x\<rparr>)
                 (decode_list_text decode_DeclRelatedImage \<lparr>dr_Name = [], dr_Image = []\<rparr> s (db_RelatedImages b)))
       \<lparr>db_Schema = [], db_Name = [], db_Package = [], db_Image = [], db_Properties = [], db_RelatedImages = [],
        db_CsvJSON = [], db_Objects = []\<rparr>"

text \<open>The replacement of the three HTML escapes by the characters they stand for.\<close>

fun replace_escapes :: "string \<Rightarrow> string" where
  "replace_escapes [] = []"
| "replace_escapes (c # s) =
     (if take 6 (c # s) = [CHR 0x5C, CHR ''u'', CHR ''0'', CHR ''0'', CHR ''3'', CHR ''c'']
      then CHR ''<'' # replace_escapes (drop 5 s)
      else if take 6 (c # s) = [CHR 0x5C, CHR ''u'', CHR ''0'', CHR ''0'', CHR ''3'', CHR ''e'']
      then CHR ''>'' # replace_escapes (drop 5 s)
      else if take 6 (c # s) = [CHR 0x5C, CHR ''u'', CHR ''0'', CHR ''0'', CHR ''2'', CHR ''6'']
      then CHR ''&'' # replace_escapes (drop 5 s)
      else c # replace_escapes s)"

datatype 'e read_error = DecoderError 'e | MetaInvalid | PackageInvalidJSON | BundleInvalidJSON | MissingSchema string

definition read_doc :: "DeclarativeConfig \<Rightarrow> string \<Rightarrow> 'e read_error + DeclarativeConfig" where
  "read_doc cfg raw =
     (let doc = replace_escapes raw
      in case Meta_UnmarshalJSON doc of
           None \<Rightarrow> Inl MetaInvalid
         | Some in_meta \<Rightarrow>
             if me_Schema in_meta = schemaPackage then
               (case decode_DeclPackage doc of
                  None \<Rightarrow> Inl PackageInvalidJSON
                | Some p \<Rightarrow> Inr (cfg\<lparr>cfg_Packages := cfg_Packages cfg @ [p]\<rparr>))
             else if me_Schema in_meta = schemaBundle then
               (case decode_DeclBundle doc of
                  None \<Rightarrow> Inl BundleInvalidJSON
                | Some b \<Rightarrow> Inr (cfg\<lparr>cfg_Bundles := cfg_Bundles cfg @ [b]\<rparr>))
             else if me_Schema in_meta = [] then Inl (MissingSchema doc)
             else Inr (cfg\<lparr>cfg_Others := cfg_Others cfg @ [in_meta]\<rparr>))"

text \<open>
  The documents of a file as the decoder of \<^verbatim>\<open>k8s.io/apimachinery\<close> yields them: the JSON text of
  each, or the error at which it stops.
\<close>

definition empty_cfg :: DeclarativeConfig where
  "empty_cfg = \<lparr>cfg_Packages = [], cfg_Bundles = [], cfg_Others = []\<rparr>"

definition readYAMLOrJSON :: "('e + string) list \<Rightarrow> 'e read_error + DeclarativeConfig" where
  "readYAMLOrJSON docs =
     foldM (\<lambda>cfg d. case d of Inl e \<Rightarrow> Inl (DecoderError e) | Inr raw \<Rightarrow> read_doc cfg raw) empty_cfg docs"

definition filepath_Dir :: "string \<Rightarrow> string" where
  "filepath_Dir p = filepath_Clean (rev (dropWhile (\<lambda>c. c \<noteq> CHR ''/'') (rev p)))"

text \<open>
  The kind of a manifest, from the YAML decoder; \<open>None\<close> when the manifest does not decode.
\<close>

fun extractCSV :: "(string \<Rightarrow> string option) \<Rightarrow> string list \<Rightarrow> string" where
  "extractCSV kind_of [] = []"
| "extractCSV kind_of (obj # objs) =
     (if kind_of obj = Some ''ClusterServiceVersion'' then obj else extractCSV kind_of objs)"

datatype objects_error = ObjectsParse string parse_error | ObjectData nat file_error

fun read_objects ::
  "(string \<Rightarrow> string option) \<Rightarrow> string \<Rightarrow> nat \<Rightarrow> BundleObject list \<Rightarrow> string list \<Rightarrow> objects_error + string list" where
  "read_objects open_read dir oi [] objs = Inr objs"
| "read_objects open_read dir oi (obj # rest) objs =
     (case File_GetData open_read dir obj of
        Inl e \<Rightarrow> Inl (ObjectData oi e)
      | Inr d \<Rightarrow> read_objects open_read dir (Suc oi) rest (objs @ [d]))"

definition readBundleObjects ::
  "(string \<Rightarrow> string option) \<Rightarrow> (string \<Rightarrow> string option) \<Rightarrow> string \<Rightarrow> DeclBundle list \<Rightarrow> objects_error + DeclBundle list" where
  "readBundleObjects open_read kind_of path bundles =
     mapM (\<lambda>b.
       case Parse (db_Properties b) of
         Inl e \<Rightarrow> Inl (ObjectsParse (db_Name b) e)
       | Inr props \<Rightarrow>
           bindr (read_objects open_read (filepath_Dir path) 0 (BundleObjects props) (db_Objects b)) (\<lambda>objs.
           Inr (b\<lparr>db_Objects := objs, db_CsvJSON := extractCSV kind_of objs\<rparr>))) bundles"

datatype 'e load_error = NoFilesystem | IgnoreError 'e | ConfigFile string "'e read_error" | ReadObjects objects_error
  | WalkError 'e

text \<open>
  The walk over a file system: what the walk calls back with, in its order. A file has the documents
  the decoder finds in it, or the error of opening it.
\<close>

datatype 'e dir_entry = WalkFailure 'e | WalkDir string | WalkFile string "'e + ('e + string) list"

fun walkFiles ::
  "('s \<Rightarrow> string \<Rightarrow> ('e + string) list \<Rightarrow> 'e load_error + 's) \<Rightarrow> 's \<Rightarrow> 'e dir_entry list \<Rightarrow> 'e load_error + 's" where
  "walkFiles f s [] = Inr s"
| "walkFiles f s (WalkFailure e # es) = Inl (WalkError e)"
| "walkFiles f s (WalkDir path # es) = walkFiles f s es"
| "walkFiles f s (WalkFile path c # es) =
     (case c of
        Inl e \<Rightarrow> Inl (WalkError e)
      | Inr docs \<Rightarrow> bindr (f s path docs) (\<lambda>s'. walkFiles f s' es))"

definition load_file ::
  "(string \<Rightarrow> bool) \<Rightarrow> (string \<Rightarrow> string option) \<Rightarrow> (string \<Rightarrow> string option)
   \<Rightarrow> DeclarativeConfig \<Rightarrow> string \<Rightarrow> ('e + string) list \<Rightarrow> 'e load_error + DeclarativeConfig" where
  "load_file matches open_read kind_of cfg path docs =
     (if matches path then Inr cfg
      else
        (case readYAMLOrJSON docs of
           Inl e \<Rightarrow> Inl (ConfigFile path e)
         | Inr fileCfg \<Rightarrow>
             (case readBundleObjects open_read kind_of path (cfg_Bundles fileCfg) of
                Inl e \<Rightarrow> Inl (ReadObjects e)
              | Inr bundles \<Rightarrow>
                  Inr \<lparr>cfg_Packages = cfg_Packages cfg @ cfg_Packages fileCfg,
                       cfg_Bundles = cfg_Bundles cfg @ bundles,
                       cfg_Others = cfg_Others cfg @ cfg_Others fileCfg\<rparr>)))"

definition LoadFS ::
  "('e + (string \<Rightarrow> bool)) \<Rightarrow> (string \<Rightarrow> string option) \<Rightarrow> (string \<Rightarrow> string option)
   \<Rightarrow> 'e dir_entry list option \<Rightarrow> 'e load_error + DeclarativeConfig" where
  "LoadFS matcher open_read kind_of root =
     (case root of
        None \<Rightarrow> Inl NoFilesystem
      | Some walk \<Rightarrow>
          (case matcher of
             Inl e \<Rightarrow> Inl (IgnoreError e)
           | Inr matches \<Rightarrow> walkFiles (load_file matches open_read kind_of) empty_cfg walk))"

end
