(* ===== verification/Declcfg_Props.thy ===== *)
theory Declcfg_Props
  imports Declcfg "HOL-Library.Product_Lexorder"
begin

text \<open>
  The properties of \<open>Declcfg\<close>: what \<^verbatim>\<open>ConvertToModel\<close> accepts and builds, which documents are written
  and in what order, and how the documents of a file are routed.
\<close>

section \<open>The packages of the index\<close>

lemma alloc_pkg_heap:
  "h_pkg (snd (alloc_pkg pk h)) = (h_pkg h)(h_next h := Some pk)" "h_ch (snd (alloc_pkg pk h)) = h_ch h"
  "h_bun (snd (alloc_pkg pk h)) = h_bun h" "h_next (snd (alloc_pkg pk h)) = Suc (h_next h)"
  "fst (alloc_pkg pk h) = h_next h"
  by (simp_all add: alloc_pkg_def)

lemma alloc_pkg_linked:
  assumes l: "linked h m" and pk: "mp_Channels pk = Some []" "mp_DefaultChannel pk = None"
  shows "linked (snd (alloc_pkg pk h)) (gm_put (mp_Name pk) (h_next h) m)"
    "lookup (snd (alloc_pkg pk h)) (gm_put (mp_Name pk) (h_next h) m) pn cn bn =
      (if pn = mp_Name pk then None else lookup h m pn cn bn)"
proof -
  let ?h = "snd (alloc_pkg pk h)"
  note heap = alloc_pkg_heap [of pk h]
  note fr = linkedD(2) [OF l]
  have ne: "a \<noteq> h_next h" if "(k, a) \<in> set m" for k a
    using linkedD(4) [OF l that] heap_freshD [OF fr, of a] by auto
  have old: "package_linked ?h a" if "(k, a) \<in> set m" for k a
    by (rule package_linked_frame [OF linkedD(3) [OF l that]]) (use ne [OF that] in \<open>simp_all add: heap\<close>)
  have new: "package_linked ?h (h_next h)"
    using pk by (simp add: package_linked_def heap)
  have set: "set (gm_put (mp_Name pk) (h_next h) m) = insert (mp_Name pk, h_next h) {e \<in> set m. fst e \<noteq> mp_Name pk}"
    by (rule gm_set_put [OF linkedD(1) [OF l]])
  have "heap_fresh ?h" using fr by (simp add: heap_fresh_def heap)
  moreover have "\<exists>p. h_pkg ?h a = Some p \<and> mp_Name p = k" if "(k, a) \<in> set m" for k a
    using linkedD(4) [OF l that] ne [OF that] by (simp add: heap)
  ultimately show "linked ?h (gm_put (mp_Name pk) (h_next h) m)"
    unfolding linked_def set using old new linkedD(1) [OF l] by (auto simp: heap)
  show "lookup ?h (gm_put (mp_Name pk) (h_next h) m) pn cn bn =
      (if pn = mp_Name pk then None else lookup h m pn cn bn)"
  proof (cases "pn = mp_Name pk")
    case True
    then show ?thesis using pk by (simp add: lookup_def find_channel_def heap)
  next
    case False
    have "find_channel ?h (gm_put (mp_Name pk) (h_next h) m) pn cn = find_channel h m pn cn"
    proof (cases "gm_get m pn")
      case (Some a)
      then show ?thesis using False ne [OF map_of_SomeD [OF Some]] by (simp add: find_channel_def heap)
    qed (use False in \<open>simp add: find_channel_def\<close>)
    then show ?thesis using False by (simp add: lookup_def bundle_in_def heap)
  qed
qed

definition packages_inv :: "conv_state \<Rightarrow> string set \<Rightarrow> bool" where
  "packages_inv st ns \<longleftrightarrow>
     (case st of (h, m, d) \<Rightarrow> linked h m \<and> (\<forall>pn cn bn. lookup h m pn cn bn = None) \<and> fst ` set m = ns)"

lemma convert_package_inv:
  assumes "packages_inv st ns"
  shows "packages_inv (convert_package st p) (insert (dp_Name p) ns)"
proof -
  obtain h m d where st: "st = (h, m, d)" by (cases st) auto
  have pk: "mp_Channels (model_package p) = Some []" "mp_DefaultChannel (model_package p) = None"
    "mp_Name (model_package p) = dp_Name p" by (simp_all add: model_package_def)
  have l: "linked h m" using assms st by (simp add: packages_inv_def)
  have "convert_package st p = (snd (alloc_pkg (model_package p) h), gm_put (dp_Name p) (h_next h) m,
      gm_put (dp_Name p) (dp_DefaultChannel p) d)"
    by (simp add: convert_package_def st split_beta alloc_pkg_heap(5))
  then show ?thesis
    using alloc_pkg_linked [OF l pk(1,2)] assms by (simp add: packages_inv_def st pk(3) gm_keys_put)
qed

lemma convert_packages_inv:
  "packages_inv st ns \<Longrightarrow> packages_inv (foldl convert_package st ps) (ns \<union> dp_Name ` set ps)"
proof (induction ps arbitrary: st ns)
  case (Cons p ps)
  from Cons.IH [OF convert_package_inv [OF Cons.prems]] show ?case by simp
qed simp

lemma empty_packages_inv: "packages_inv (empty_heap, [], []) {}"
  by (simp add: packages_inv_def linked_def heap_fresh_def empty_heap_def lookup_def find_channel_def)

section \<open>The bundles of the index\<close>

lemma ensure_channel_linked:
  assumes l: "linked h m" and mem: "(pn, p) \<in> set m"
  obtains c h' where "ensure_channel h p d n = Inr (c, h')" "linked h' m" "lookup h' m = lookup h m"
    "find_channel h' m pn n = Some c"
proof -
  have get: "gm_get m pn = Some p" using mem linkedD(1) [OF l] by (simp add: gm_get_Some_iff)
  obtain pk where pk: "h_pkg h p = Some pk" using linkedD(4) [OF l mem] by blast
  show thesis
  proof (cases "gm_get (entries (mp_Channels pk)) n")
    case (Some c)
    then show thesis
      using that [of c h] pk l get by (simp add: ensure_channel_def find_channel_def)
  next
    case None
    note a = add_channel_linked [OF l mem pk None]
    let ?h1 = "add_channel p n h" and ?c = "h_next h"
    obtain cs where cs: "mp_Channels pk = Some cs"
      using linkedD(3) [OF l mem] pk by (auto simp: package_linked_def)
    define pk1 where "pk1 = pk\<lparr>mp_Channels := Some (gm_put n ?c cs)\<rparr>"
    define pk2 where "pk2 = (if n = d then pk1\<lparr>mp_DefaultChannel := Some ?c\<rparr> else pk1)"
    have pk1: "h_pkg ?h1 p = Some pk1" using add_channel_heap(1) [OF pk] cs by (simp add: pk1_def)
    have def_ok: "d' \<in> snd ` set (entries (mp_Channels pk1))" if "mp_DefaultChannel pk2 = Some d'" for d'
    proof (cases "n = d")
      case True
      have "(n, ?c) \<in> set (gm_put n ?c cs)" by (rule map_of_SomeD) simp
      with True that show ?thesis by (force simp: pk1_def pk2_def)
    next
      case False
      have "package_linked ?h1 p" by (rule linkedD(3) [OF a(1) mem])
      with False that pk1 show ?thesis by (auto simp: package_linked_def pk2_def)
    qed
    have pk2: "mp_Name pk2 = mp_Name pk1" "mp_Channels pk2 = mp_Channels pk1" by (simp_all add: pk2_def)
    note s = set_pkg_linked [OF a(1) mem pk1 pk2 def_ok]
    have "ensure_channel h p d n = Inr (?c, set_pkg p pk2 ?h1)"
      using pk None cs
      by (cases pk) (auto simp: ensure_channel_def alloc_ch_def map_write_def add_channel_def pk1_def pk2_def)
    moreover have "lookup ?h1 m = lookup h m" by (intro ext) (rule a(3))
    moreover have "find_channel ?h1 m pn n = Some ?c" using a(2) [of pn n] by simp
    ultimately show thesis using that s by simp
  qed
qed

text \<open>What the bundles of a config put into the index, as updates of a map.\<close>

type_synonym content = "string \<Rightarrow> string \<Rightarrow> string \<Rightarrow> ModelBundle option"

definition channel_content :: "DeclBundle \<Rightarrow> Properties \<Rightarrow> content \<Rightarrow> Channel \<Rightarrow> content" where
  "channel_content b props f ch = lookup_upd (db_Package b) (chan_Name ch) (model_bundle b props ch 0 0) f"

definition bundle_content :: "content \<Rightarrow> DeclBundle \<Rightarrow> content" where
  "bundle_content f b =
     (case parseProperties (db_Properties b) of
        Inl _ \<Rightarrow> f
      | Inr props \<Rightarrow> foldl (channel_content b props) f (Channels props))"

definition config_content :: "DeclBundle list \<Rightarrow> content" where
  "config_content bs = foldl bundle_content (\<lambda>_ _ _. None) bs"

lemma lookup_upd_model_bundle:
  "lookup_upd pn cn (model_bundle b props ch p c) f = lookup_upd pn cn (model_bundle b props ch 0 0) f"
  using lookup_upd_links [where b = "model_bundle b props ch 0 0" and p = "Some p" and c = "Some c"]
  by (simp add: model_bundle_def)

lemma convert_channel_linked:
  assumes l: "linked h m" and mem: "(db_Package b, p) \<in> set m"
  obtains h' where "convert_channel p d b props h ch = Inr h'" "linked h' m"
    "lookup h' m = channel_content b props (lookup h m) ch"
proof -
  obtain c h1 where h1: "ensure_channel h p d (chan_Name ch) = Inr (c, h1)" "linked h1 m" "lookup h1 m = lookup h m"
    "find_channel h1 m (db_Package b) (chan_Name ch) = Some c"
    using ensure_channel_linked [OF l mem] .
  have b: "mb_Package (model_bundle b props ch p c) = Some p" "mb_Channel (model_bundle b props ch p c) = Some c"
    by (simp_all add: model_bundle_def)
  obtain h' where h': "put_bundle c (model_bundle b props ch p c) h1 = Inr h'" "linked h' m"
    "lookup h' m = lookup_upd (db_Package b) (chan_Name ch) (model_bundle b props ch p c) (lookup h1 m)"
    using put_bundle_linked [OF h1(2,4) mem b] .
  then show thesis
    using that [of h'] h1 lookup_upd_model_bundle [of "db_Package b" "chan_Name ch" b props ch p c]
    by (simp add: convert_channel_def channel_content_def)
qed

lemma convert_channels_linked:
  assumes "linked h m" and mem: "(db_Package b, p) \<in> set m"
  obtains h' where "foldM (convert_channel p d b props) h chs = Inr h'" "linked h' m"
    "lookup h' m = foldl (channel_content b props) (lookup h m) chs"
  using assms(1)
proof (induction chs arbitrary: h thesis)
  case (Cons ch chs)
  obtain h1 where h1: "convert_channel p d b props h ch = Inr h1" "linked h1 m"
    "lookup h1 m = channel_content b props (lookup h m) ch"
    using convert_channel_linked [OF Cons.prems(2) mem] .
  from Cons.IH [OF _ h1(2)] obtain h' where "foldM (convert_channel p d b props) h1 chs = Inr h'" "linked h' m"
    "lookup h' m = foldl (channel_content b props) (lookup h1 m) chs" by blast
  with h1 Cons.prems(1) [of h'] show ?case by simp
qed simp

lemma lift_panic_Inr [simp]: "lift_panic r = Inr x \<longleftrightarrow> r = Inr x"
  by (cases r) (simp_all add: lift_panic_def)

lemma lift_panic_of_Inr [simp]: "lift_panic (Inr x) = Inr x"
  by simp

lemma convert_bundle_linked:
  assumes l: "linked h m" and r: "convert_bundle m d h b = Inr h'"
  shows "linked h' m" "lookup h' m = bundle_content (lookup h m) b"
proof -
  obtain p props where p: "gm_get m (db_Package b) = Some p" "parseProperties (db_Properties b) = Inr props"
    "foldM (convert_channel p (case gm_get d (db_Package b) of None \<Rightarrow> [] | Some d \<Rightarrow> d) b props) h (Channels props) = Inr h'"
    using r by (auto simp: convert_bundle_def Let_def split: if_splits option.splits sum.splits)
  have mem: "(db_Package b, p) \<in> set m" using p(1) by (rule map_of_SomeD)
  obtain h2 where "foldM (convert_channel p (case gm_get d (db_Package b) of None \<Rightarrow> [] | Some d \<Rightarrow> d) b props) h (Channels props) = Inr h2"
    "linked h2 m" "lookup h2 m = foldl (channel_content b props) (lookup h m) (Channels props)"
    using convert_channels_linked [OF l mem] .
  with p show "linked h' m" "lookup h' m = bundle_content (lookup h m) b"
    by (simp_all add: bundle_content_def)
qed

lemma convert_bundles_linked:
  "linked h m \<Longrightarrow> foldM (convert_bundle m d) h bs = Inr h' \<Longrightarrow>
     linked h' m \<and> lookup h' m = foldl bundle_content (lookup h m) bs"
proof (induction bs arbitrary: h)
  case (Cons b bs)
  from Cons.prems(2) obtain h1 where h1: "convert_bundle m d h b = Inr h1" "foldM (convert_bundle m d) h1 bs = Inr h'"
    by auto
  from Cons.IH [OF convert_bundle_linked(1) [OF Cons.prems(1) h1(1)] h1(2)]
  show ?case by (simp add: convert_bundle_linked(2) [OF Cons.prems(1) h1(1)])
qed simp

section \<open>The default channels of the index\<close>

text \<open>
  The last loop gives a package whose default channel no bundle is in an empty channel, which
  validation rejects. So an index that is accepted went through it unchanged.
\<close>

definition has_empty_channel :: "heap \<Rightarrow> Model \<Rightarrow> bool" where
  "has_empty_channel h m \<longleftrightarrow>
     (\<exists>n a pk k c ch. (n, a) \<in> set m \<and> h_pkg h a = Some pk \<and> (k, c) \<in> set (entries (mp_Channels pk))
        \<and> h_ch h c = Some ch \<and> entries (mc_Bundles ch) = [])"

lemma default_channel_step_empty:
  assumes step: "default_channel_step d h a = Inr h'" and mem: "(n, a) \<in> set m"
    and prior: "h = h0 \<or> has_empty_channel h m"
  shows "h' = h0 \<or> has_empty_channel h' m"
proof (cases "h' = h")
  case True
  with prior show ?thesis by auto
next
  case False
  obtain pk where pk: "h_pkg h a = Some pk" using step by (auto simp: default_channel_step_def)
  let ?n = "case gm_get d (mp_Name pk) of None \<Rightarrow> [] | Some d \<Rightarrow> d"
  obtain cs where cs: "mp_Channels pk = Some cs"
    "h' = set_pkg a (pk\<lparr>mp_DefaultChannel := Some (h_next h), mp_Channels := Some (gm_put ?n (h_next h) cs)\<rparr>)
      (snd (alloc_ch \<lparr>mc_Package = Some a, mc_Name = ?n, mc_Bundles = Some []\<rparr> h))"
    using step False pk
    by (auto simp: default_channel_step_def alloc_ch_def map_write_def Let_def split: if_splits option.splits)
  have "(?n, h_next h) \<in> set (gm_put ?n (h_next h) cs)" by (rule map_of_SomeD) simp
  then have "has_empty_channel h' m"
    unfolding has_empty_channel_def cs(2) using mem
    by (intro exI [of _ n] exI [of _ a] exI [of _ "pk\<lparr>mp_DefaultChannel := Some (h_next h), mp_Channels := Some (gm_put ?n (h_next h) cs)\<rparr>"]
        exI [of _ ?n] exI [of _ "h_next h"] exI [of _ "\<lparr>mc_Package = Some a, mc_Name = ?n, mc_Bundles = Some []\<rparr>"])
      (simp add: set_pkg_def alloc_ch_def)
  then show ?thesis ..
qed

lemma default_channels_empty:
  "foldM (default_channel_step d) h as = Inr h' \<Longrightarrow> set as \<subseteq> snd ` set m \<Longrightarrow> h = h0 \<or> has_empty_channel h m \<Longrightarrow>
     h' = h0 \<or> has_empty_channel h' m"
proof (induction as arbitrary: h)
  case (Cons a as)
  from Cons.prems(1) obtain h1 where h1: "default_channel_step d h a = Inr h1" "foldM (default_channel_step d) h1 as = Inr h'"
    by auto
  obtain n where "(n, a) \<in> set m" using Cons.prems(2) by auto
  from default_channel_step_empty [OF h1(1) this Cons.prems(3)] Cons.IH [OF h1(2)] Cons.prems(2) show ?case by simp
qed simp

lemma empty_channel_invalid:
  assumes "has_empty_channel h m"
  shows "\<not> model_valid h m"
proof
  assume v: "model_valid h m"
  obtain n a pk k c ch where e: "(n, a) \<in> set m" "h_pkg h a = Some pk" "(k, c) \<in> set (entries (mp_Channels pk))"
    "h_ch h c = Some ch" "entries (mc_Bundles ch) = []"
    using assms unfolding has_empty_channel_def by blast
  then have "package_valid h a" using v by (auto simp: model_valid_def)
  then have "channel_valid h c" using e by (auto simp: package_valid_def)
  then show False using e by (auto simp: channel_valid_def)
qed

section \<open>ConvertToModel\<close>

lemma ConvertToModel_stages:
  assumes "ConvertToModel cfg = Inr (h, m)"
  obtains h0 d h1 where "foldl convert_package (empty_heap, [], []) (cfg_Packages cfg) = (h0, m, d)"
    "foldM (convert_bundle m d) h0 (cfg_Bundles cfg) = Inr h1"
    "model_valid h1 m" "Model_Normalize h1 m = Inr h"
proof -
  obtain h0 m' d where st: "foldl convert_package (empty_heap, [], []) (cfg_Packages cfg) = (h0, m', d)"
    by (metis prod_cases3)
  with assms obtain h1 h2 where h: "m' = m" "foldM (convert_bundle m d) h0 (cfg_Bundles cfg) = Inr h1"
    "foldM (default_channel_step d) h1 (map snd m) = Inr h2" "Model_Validate h2 m = Inr []" "Model_Normalize h2 m = Inr h"
    by (auto simp: ConvertToModel_def split: if_splits)
  have "h2 = h1 \<or> has_empty_channel h2 m"
    using default_channels_empty [OF h(3), of m h1] by simp
  moreover have "model_valid h2 m" using h(4) by (simp add: Model_Validate_iff)
  ultimately show thesis
    using that [of h0 d h1] empty_channel_invalid [of h2 m] st h by auto
qed

text \<open>
  C2: An index that \<^verbatim>\<open>ConvertToModel\<close> returns is linked and valid, has exactly the packages of the config, and its
  content is what the bundles of the config say: for every bundle, in order, one entry per channel
  property, later entries overwriting earlier ones of the same name, with normalized properties.
\<close>

theorem ConvertToModel_spec:
  assumes "ConvertToModel cfg = Inr (h, m)"
  shows "linked h m \<and> model_valid h m \<and> fst ` set m = dp_Name ` set (cfg_Packages cfg)
    \<and> (\<forall>pn cn bn. lookup h m pn cn bn = map_option norm_bundle (config_content (cfg_Bundles cfg) pn cn bn))"
proof -
  obtain h0 d h1 where s: "foldl convert_package (empty_heap, [], []) (cfg_Packages cfg) = (h0, m, d)"
    "foldM (convert_bundle m d) h0 (cfg_Bundles cfg) = Inr h1"
    "model_valid h1 m" "Model_Normalize h1 m = Inr h"
    using ConvertToModel_stages [OF assms] .
  have inv: "packages_inv (h0, m, d) (dp_Name ` set (cfg_Packages cfg))"
    using convert_packages_inv [OF empty_packages_inv, of "cfg_Packages cfg"] s(1) by simp
  then have "linked h0 m" "lookup h0 m = (\<lambda>_ _ _. None)" by (auto simp: packages_inv_def fun_eq_iff)
  with convert_bundles_linked [OF _ s(2)] have h1: "linked h1 m" "lookup h1 m = config_content (cfg_Bundles cfg)"
    by (auto simp: config_content_def)
  have h: "h = normalized h1 (model_addrs h1 m)" using Model_Normalize_eq [OF h1(1)] s(4) by simp
  show ?thesis
    using normalized_linked [OF h1(1)] normalized_valid [OF s(3)] normalized_lookup [OF h1(1)] inv h1(2)
    unfolding h by (simp add: packages_inv_def)
qed

definition sample_cfg :: DeclarativeConfig where
  "sample_cfg =
     \<lparr>cfg_Packages = [\<lparr>dp_Schema = schemaPackage, dp_Name = ''p'', dp_DefaultChannel = ''a'', dp_Icon = None, dp_Description = []\<rparr>],
      cfg_Bundles =
        [\<lparr>db_Schema = schemaBundle, db_Name = ''b'', db_Package = ''p'', db_Image = ''i'',
          db_Properties =
            [\<lparr>p_Type = TypePackage, p_Value = Some (json_print False (JObj [(''packageName'', JStr ''p''), (''version'', JStr ''1'')]))\<rparr>,
             \<lparr>p_Type = TypeChannel, p_Value = Some (json_print False (JObj [(''name'', JStr ''a'')]))\<rparr>],
          db_RelatedImages = [], db_CsvJSON = [], db_Objects = []\<rparr>],
      cfg_Others = []\<rparr>"

lemma sample_cfg_converts: "\<exists>h m. ConvertToModel sample_cfg = Inr (h, m)"
proof -
  have "\<not> isl (ConvertToModel sample_cfg)" by code_simp
  then show ?thesis by (cases "ConvertToModel sample_cfg") auto
qed

theorem ConvertToModel_spec_witness:
  "\<exists>h m. ConvertToModel sample_cfg = Inr (h, m) \<and> linked h m \<and> model_valid h m \<and> fst ` set m = {''p''}
     \<and> lookup h m ''p'' ''a'' ''b'' = map_option norm_bundle (config_content (cfg_Bundles sample_cfg) ''p'' ''a'' ''b'')"
proof -
  obtain h m where "ConvertToModel sample_cfg = Inr (h, m)" using sample_cfg_converts by blast
  with ConvertToModel_spec [OF this] show ?thesis by (auto simp: sample_cfg_def)
qed

section \<open>Errors of ConvertToModel\<close>

lemma default_channel_step_linked:
  assumes l: "linked h m" and mem: "(pn, p) \<in> set m"
  obtains h' where "default_channel_step d h p = Inr h'" "linked h' m"
proof -
  obtain pk where pk: "h_pkg h p = Some pk" using linkedD(4) [OF l mem] by blast
  obtain cs where cs: "mp_Channels pk = Some cs" "gm_wf cs" "\<forall>(k, c) \<in> set cs. channel_linked h p k c"
    using linkedD(3) [OF l mem] pk by (auto simp: package_linked_def)
  let ?n = "case gm_get d (mp_Name pk) of None \<Rightarrow> [] | Some d \<Rightarrow> d" and ?c = "h_next h"
  show thesis
  proof (cases "?n \<noteq> [] \<and> mp_DefaultChannel pk = None")
    case False
    then show thesis using that [of h] l pk by (auto simp: default_channel_step_def Let_def)
  next
    case True
    define pk' where "pk' = pk\<lparr>mp_DefaultChannel := Some ?c, mp_Channels := Some (gm_put ?n ?c cs)\<rparr>"
    define h' where "h' = set_pkg p pk' (snd (alloc_ch \<lparr>mc_Package = Some p, mc_Name = ?n, mc_Bundles = Some []\<rparr> h))"
    have heap: "h_pkg h' = (h_pkg h)(p := Some pk')" "h_bun h' = h_bun h" "h_next h' = Suc ?c"
      "h_ch h' = (h_ch h)(?c := Some \<lparr>mc_Package = Some p, mc_Name = ?n, mc_Bundles = Some []\<rparr>)"
      by (simp_all add: h'_def set_pkg_def alloc_ch_def)
    note fr = linkedD(2) [OF l]
    have old: "channel_linked h' q k c" if "channel_linked h q k c" for q k c
      by (rule channel_linked_frame [OF that]) (use channel_linked_not_fresh [OF fr that] in \<open>simp_all add: heap\<close>)
    have new: "channel_linked h' p ?n ?c" by (simp add: channel_linked_def heap)
    have set: "set (gm_put ?n ?c cs) = insert (?n, ?c) {e \<in> set cs. fst e \<noteq> ?n}" by (rule gm_set_put [OF cs(2)])
    have "\<forall>(k, c) \<in> set (gm_put ?n ?c cs). channel_linked h' p k c"
      using cs(3) old new unfolding set by auto
    moreover have "?c \<in> snd ` set (gm_put ?n ?c cs)" unfolding set by simp
    ultimately have pl: "package_linked h' p"
      unfolding package_linked_def using cs(2) by (simp add: heap pk'_def)
    have "package_linked h' a" if "(k, a) \<in> set m" for k a
    proof (cases "a = p")
      case False
      have "h_ch h' c = Some ch" if "h_ch h c = Some ch" for c ch
        using that heap_freshD [OF fr, of ?c] by (auto simp: heap)
      then show ?thesis
        by (intro package_linked_frame [OF linkedD(3) [OF l that]]) (use False in \<open>simp_all add: heap\<close>)
    qed (use pl in simp)
    moreover have "\<exists>q. h_pkg h' a = Some q \<and> mp_Name q = k" if "(k, a) \<in> set m" for k a
      using linkedD(4) [OF l that] pk by (auto simp: heap pk'_def)
    moreover have "heap_fresh h'" using fr pk by (auto simp: heap_fresh_def heap)
    ultimately have "linked h' m" using linkedD(1) [OF l] unfolding linked_def by blast
    moreover have "default_channel_step d h p = Inr h'"
      using True pk cs(1)
      by (simp add: default_channel_step_def h'_def pk'_def alloc_ch_def map_write_def split_beta Let_def)
    ultimately show thesis using that by blast
  qed
qed

lemma default_channels_linked:
  "linked h m \<Longrightarrow> set as \<subseteq> snd ` set m \<Longrightarrow> \<exists>h'. foldM (default_channel_step d) h as = Inr h' \<and> linked h' m"
proof (induction as arbitrary: h)
  case (Cons a as)
  obtain n where mem: "(n, a) \<in> set m" using Cons.prems(2) by auto
  obtain h1 where "default_channel_step d h a = Inr h1" "linked h1 m"
    using default_channel_step_linked [OF Cons.prems(1) mem] .
  with Cons.IH [of h1] Cons.prems(2) show ?case by auto
qed simp

text \<open>The checks a bundle must pass before it is put into the index.\<close>

definition bundle_check :: "string set \<Rightarrow> DeclBundle \<Rightarrow> convert_error option" where
  "bundle_check pkgs b =
     (if db_Package b = [] then Some (BundlePackageNameUnset (db_Name b))
      else if db_Package b \<notin> pkgs then Some (UnknownPackage (db_Package b) (db_Name b))
      else
        (case parseProperties (db_Properties b) of
           Inl e \<Rightarrow> Some (BundlePropertiesInvalid (db_Name b) e)
         | Inr props \<Rightarrow>
             if Packages props = [] then Some (MissingPackageProperty (db_Name b))
             else if db_Package b \<noteq> pkg_PackageName (hd (Packages props))
             then Some (PackagePropertyMismatch (db_Package b) (pkg_PackageName (hd (Packages props))))
             else if Channels props = [] then Some (MissingChannels (db_Name b))
             else None))"

lemma convert_bundle_check:
  assumes l: "linked h m"
  shows "(case bundle_check (fst ` set m) b of
      Some e \<Rightarrow> convert_bundle m d h b = Inl e
    | None \<Rightarrow> \<exists>h'. convert_bundle m d h b = Inr h' \<and> linked h' m)"
proof (cases "gm_get m (db_Package b)")
  case None
  then have "db_Package b \<notin> fst ` set m" by (simp add: map_of_eq_None_iff)
  with None show ?thesis by (simp add: bundle_check_def convert_bundle_def)
next
  case (Some p)
  then have mem: "(db_Package b, p) \<in> set m" by (rule map_of_SomeD)
  then have "db_Package b \<in> fst ` set m" by force
  moreover have "\<exists>h'. foldM (convert_channel p d' b props) h chs = Inr h' \<and> linked h' m" for d' props chs
    using convert_channels_linked [OF l mem] by metis
  ultimately show ?thesis
    by (cases "parseProperties (db_Properties b)";
        simp only: bundle_check_def convert_bundle_def Let_def Some option.case sum.case; simp)
qed

lemma convert_bundles_check:
  "linked h m \<Longrightarrow>
     (case List.map_filter (bundle_check (fst ` set m)) bs of
        e # _ \<Rightarrow> foldM (convert_bundle m d) h bs = Inl e
      | [] \<Rightarrow> \<exists>h'. foldM (convert_bundle m d) h bs = Inr h' \<and> linked h' m)"
proof (induction bs arbitrary: h)
  case (Cons b bs)
  from convert_bundle_check [OF Cons.prems, where b = b and d = d] Cons.IH show ?case
    by (cases "bundle_check (fst ` set m) b") (auto simp: map_filter_simps split: list.splits)
qed (simp add: map_filter_simps)

text \<open>
  C10: \<^verbatim>\<open>ConvertToModel\<close> never panics. It fails with the error of the first bundle that has no package, an
  unknown package, properties that do not parse, no package property or the wrong one, or no
  channel; if there is no such bundle it fails only when the index it built does not validate.
\<close>

theorem ConvertToModel_errors:
  "case List.map_filter (bundle_check (dp_Name ` set (cfg_Packages cfg))) (cfg_Bundles cfg) of
     e # _ \<Rightarrow> ConvertToModel cfg = Inl e
   | [] \<Rightarrow> (\<exists>h m. ConvertToModel cfg = Inr (h, m)) \<or> (\<exists>errs. errs \<noteq> [] \<and> ConvertToModel cfg = Inl (InvalidModel errs))"
proof -
  obtain h0 m d where st: "foldl convert_package (empty_heap, [], []) (cfg_Packages cfg) = (h0, m, d)"
    by (metis prod_cases3)
  have inv: "linked h0 m" "fst ` set m = dp_Name ` set (cfg_Packages cfg)"
    using convert_packages_inv [OF empty_packages_inv, of "cfg_Packages cfg"] st by (auto simp: packages_inv_def)
  note check = convert_bundles_check [OF inv(1), where bs = "cfg_Bundles cfg" and d = d, unfolded inv(2)]
  show ?thesis
  proof (cases "List.map_filter (bundle_check (dp_Name ` set (cfg_Packages cfg))) (cfg_Bundles cfg)")
    case Nil
    with check obtain h1 where h1: "foldM (convert_bundle m d) h0 (cfg_Bundles cfg) = Inr h1" "linked h1 m" by auto
    obtain h2 where h2: "foldM (default_channel_step d) h1 (map snd m) = Inr h2" "linked h2 m"
      using default_channels_linked [OF h1(2), of "map snd m" d] by auto
    obtain errs where errs: "Model_Validate h2 m = Inr errs" using linked_Validate [OF h2(2)] ..
    show ?thesis
      using Nil st h1(1) h2(1) errs Model_Normalize_eq [OF h2(2)]
      by (cases "errs = []") (auto simp: ConvertToModel_def)
  qed (use check st in \<open>simp add: ConvertToModel_def\<close>)
qed

section \<open>The order of the documents written\<close>

lemma group_step_get:
  "group_get (group_step key m x) k = (if key x = k then group_get m k @ [x] else group_get m k)"
  by (simp add: group_get_def group_step_def)

lemma group_foldl_get:
  "group_get (foldl (group_step key) m xs) k = group_get m k @ filter (\<lambda>x. key x = k) xs"
  by (induction xs arbitrary: m) (simp_all add: group_step_get)

lemma group_by_get [simp]: "group_get (group_by key xs) k = filter (\<lambda>x. key x = k) xs"
  by (simp add: group_by_def group_foldl_get) (simp add: group_get_def)

text \<open>A document's place: the package it belongs to (global ones last), its kind, its name.\<close>

fun doc_package :: "doc \<Rightarrow> string" where
  "doc_package (DocPackage p) = dp_Name p"
| "doc_package (DocBundle b) = db_Package b"
| "doc_package (DocMeta m) = me_Package m"

fun doc_place :: "doc \<Rightarrow> bool \<times> string \<times> nat \<times> string" where
  "doc_place (DocPackage p) = (dp_Name p = [], dp_Name p, 0, [])"
| "doc_place (DocBundle b) = (db_Package b = [], db_Package b, 1, db_Name b)"
| "doc_place (DocMeta m) = (me_Package m = [], me_Package m, 2, if me_Package m = [] then [] else me_Schema m)"

lemma package_docs_package: "d \<in> set (package_docs cfg n) \<Longrightarrow> doc_package d = n"
  by (auto simp: package_docs_def sort_Slice_def)

lemma doc_place_less: "doc_package d < doc_package e \<Longrightarrow> doc_package d \<noteq> [] \<Longrightarrow> doc_place d \<le> doc_place e"
  by (cases d; cases e; auto simp: less_eq_prod_simp)

lemma sorted_map_sort_key:
  assumes "\<And>x y. x \<in> set xs \<Longrightarrow> y \<in> set xs \<Longrightarrow> f x \<le> f y \<Longrightarrow> g x \<le> g y"
  shows "sorted (map g (sort_key f xs))"
  unfolding sorted_map
  by (rule sorted_wrt_mono_rel [OF _ sorted_sort_key [of f xs, unfolded sorted_map]]) (simp add: assms)

lemma sorted_map_const:
  assumes "\<And>x. x \<in> set xs \<Longrightarrow> g x = c"
  shows "sorted (map g xs)"
  using assms by (induction xs) auto

lemma package_docs_sorted:
  assumes "n \<noteq> []"
  shows "sorted (map doc_place (package_docs cfg n))"
proof -
  let ?f = "\<lambda>key xs. filter (\<lambda>x. key x = n) xs"
  have "sorted (map (doc_place \<circ> DocPackage) (?f dp_Name (cfg_Packages cfg)))"
    by (rule sorted_map_const [where c = "(False, n, 0, [])"]) (use assms in auto)
  moreover have "sorted (map (doc_place \<circ> DocBundle) (sort_key db_Name (?f db_Package (cfg_Bundles cfg))))"
    by (rule sorted_map_sort_key) auto
  moreover have "sorted (map (doc_place \<circ> DocMeta) (sort_key me_Schema (?f me_Package (cfg_Others cfg))))"
    by (rule sorted_map_sort_key) (use assms in auto)
  ultimately show ?thesis
    by (auto simp: package_docs_def sorted_append sort_Slice_def)
qed

lemma package_docs_concat_sorted:
  "sorted ns \<Longrightarrow> distinct ns \<Longrightarrow> [] \<notin> set ns \<Longrightarrow> sorted (map doc_place (concat (map (package_docs cfg) ns)))"
proof (induction ns)
  case (Cons n ns)
  have "doc_place d \<le> doc_place e" if "d \<in> set (package_docs cfg n)" "k \<in> set ns" "e \<in> set (package_docs cfg k)" for d e k
    using that Cons.prems package_docs_package [OF that(1)] package_docs_package [OF that(3)]
    by (intro doc_place_less) (auto simp: order.strict_iff_order)
  with Cons show ?case by (auto simp: sorted_append package_docs_sorted)
qed simp

lemma package_docs_mset:
  assumes "distinct ns"
  shows "mset (concat (map (package_docs cfg) ns)) =
    image_mset DocPackage {#p \<in># mset (cfg_Packages cfg). dp_Name p \<in> set ns#}
    + image_mset DocBundle {#b \<in># mset (cfg_Bundles cfg). db_Package b \<in> set ns#}
    + image_mset DocMeta {#m \<in># mset (cfg_Others cfg). me_Package m \<in> set ns#}"
  using assms
proof (induction ns)
  case (Cons n ns)
  have split: "{#x \<in># M. key x = n \<or> key x \<in> set ns#} = {#x \<in># M. key x = n#} + {#x \<in># M. key x \<in> set ns#}"
    for key :: "'x \<Rightarrow> string" and M
    using Cons.prems by (induction M) auto
  from Cons show ?case by (simp add: package_docs_def sort_Slice_def split mset_filter)
qed simp

text \<open>
  C11: \<^verbatim>\<open>writeToEncoder\<close> writes every package with a name, every bundle with a package and every other document
  exactly once, ordered by package, within a package the packages, then the bundles by name, then the
  others by schema, and the documents of no package last; it drops packages without a name and
  bundles without a package.
\<close>

theorem write_order_spec:
  "mset (write_order cfg) =
     image_mset DocPackage {#p \<in># mset (cfg_Packages cfg). dp_Name p \<noteq> []#}
     + image_mset DocBundle {#b \<in># mset (cfg_Bundles cfg). db_Package b \<noteq> []#}
     + image_mset DocMeta (mset (cfg_Others cfg))
   \<and> sorted (map doc_place (write_order cfg))"
proof
  let ?ns = "filter (\<lambda>n. n \<noteq> []) (pkg_names cfg)"
  let ?global = "filter (\<lambda>m. me_Package m = []) (cfg_Others cfg)"
  have names: "sorted ?ns" "distinct ?ns" "[] \<notin> set ?ns"
    by (auto simp: pkg_names_def sort_Strings_def sorted_wrt_filter)
  have "sorted (map (doc_place \<circ> DocMeta) ?global)"
    by (rule sorted_map_const [where c = "(True, [], 2, [])"]) auto
  moreover have "doc_place d \<le> doc_place (DocMeta m)" if "d \<in> set (package_docs cfg n)" "n \<noteq> []" "me_Package m = []" for d n m
    using package_docs_package [OF that(1)] that by (cases d) auto
  ultimately show "sorted (map doc_place (write_order cfg))"
    using package_docs_concat_sorted [OF names, of cfg] by (auto simp: write_order_def sorted_append)
  show "mset (write_order cfg) =
     image_mset DocPackage {#p \<in># mset (cfg_Packages cfg). dp_Name p \<noteq> []#}
     + image_mset DocBundle {#b \<in># mset (cfg_Bundles cfg). db_Package b \<noteq> []#}
     + image_mset DocMeta (mset (cfg_Others cfg))"
  proof -
    have "{#p \<in># mset (cfg_Packages cfg). dp_Name p \<in> set ?ns#} = {#p \<in># mset (cfg_Packages cfg). dp_Name p \<noteq> []#}"
      "{#b \<in># mset (cfg_Bundles cfg). db_Package b \<in> set ?ns#} = {#b \<in># mset (cfg_Bundles cfg). db_Package b \<noteq> []#}"
      "{#m \<in># mset (cfg_Others cfg). me_Package m \<in> set ?ns#} = {#m \<in># mset (cfg_Others cfg). me_Package m \<noteq> []#}"
      by (rule filter_mset_cong; force simp: pkg_names_def sort_Strings_def)+
    note docs = package_docs_mset [OF names(2), of cfg, unfolded this]
    have "{#m \<in># mset (cfg_Others cfg). me_Package m \<noteq> []#} + mset ?global = mset (cfg_Others cfg)"
      using multiset_partition [of "mset (cfg_Others cfg)" "\<lambda>m. me_Package m \<noteq> []"] by simp
    then have "image_mset DocMeta {#m \<in># mset (cfg_Others cfg). me_Package m \<noteq> []#} + image_mset DocMeta (mset ?global)
        = image_mset DocMeta (mset (cfg_Others cfg))"
      by (simp only: image_mset_union [symmetric])
    with docs show ?thesis by (simp only: write_order_def mset_append mset_map group_by_get add.assoc)
  qed
qed

end
