(* ===== verification/Semver.thy ===== *)
theory Semver
  imports Go_Prelude
begin

text \<open>
  Versions: the vendored \<^verbatim>\<open>blang/semver\<close> package (version and prerelease identifiers, \<open>Parse\<close>, \<open>String\<close>,
  \<open>Compare\<close>) and \<^verbatim>\<open>pkg/lib/semver/semver.go\<close>, which also orders versions by build identifiers.
  A \<^verbatim>\<open>uint64\<close> is a number that \<open>ParseUint\<close> has checked to be below \<open>2 ^ 64\<close>; no operation adds to one.
\<close>

record PRVersion =
  pr_VersionStr :: string
  pr_VersionNum :: nat
  pr_IsNum :: bool

record Version =
  v_Major :: nat
  v_Minor :: nat
  v_Patch :: nat
  v_Pre :: "PRVersion list"
  v_Build :: "string list"

datatype semver_error = VersionEmptyString | NoThreeElements | InvalidCharacters | LeadingZeroes | NumberRange
  | PrereleaseEmpty | BuildEmpty

section \<open>Comparison\<close>

definition order3 :: "'a::linorder \<Rightarrow> 'a \<Rightarrow> int" where
  "order3 a b = (if a = b then 0 else if a > b then 1 else - 1)"

definition PRVersion_Compare :: "PRVersion \<Rightarrow> PRVersion \<Rightarrow> int" where
  "PRVersion_Compare v o' =
     (if pr_IsNum v \<and> \<not> pr_IsNum o' then - 1
      else if \<not> pr_IsNum v \<and> pr_IsNum o' then 1
      else if pr_IsNum v \<and> pr_IsNum o' then order3 (pr_VersionNum v) (pr_VersionNum o')
      else order3 (pr_VersionStr v) (pr_VersionStr o'))"

fun pre_compare :: "PRVersion list \<Rightarrow> PRVersion list \<Rightarrow> int" where
  "pre_compare [] [] = 0"
| "pre_compare [] (_ # _) = - 1"
| "pre_compare (_ # _) [] = 1"
| "pre_compare (p # ps) (q # qs) =
     (let comp = PRVersion_Compare p q in if comp = 0 then pre_compare ps qs else if comp = 1 then 1 else - 1)"

definition Version_Compare :: "Version \<Rightarrow> Version \<Rightarrow> int" where
  "Version_Compare v o' =
     (if v_Major v \<noteq> v_Major o' then if v_Major v > v_Major o' then 1 else - 1
      else if v_Minor v \<noteq> v_Minor o' then if v_Minor v > v_Minor o' then 1 else - 1
      else if v_Patch v \<noteq> v_Patch o' then if v_Patch v > v_Patch o' then 1 else - 1
      else if v_Pre v = [] \<and> v_Pre o' = [] then 0
      else if v_Pre v = [] then 1
      else if v_Pre o' = [] then - 1
      else pre_compare (v_Pre v) (v_Pre o'))"

definition Version_GT :: "Version \<Rightarrow> Version \<Rightarrow> bool" where
  "Version_GT v o' \<longleftrightarrow> Version_Compare v o' = 1"

definition Version_LT :: "Version \<Rightarrow> Version \<Rightarrow> bool" where
  "Version_LT v o' \<longleftrightarrow> Version_Compare v o' = - 1"

section \<open>Parsing and printing\<close>

definition numbers :: string where "numbers = ''0123456789''"
definition alphanum :: string where
  "alphanum = ''abcdefghijklmnopqrstuvwxyzABCDEFGHIJKLMNOPQRSTUVWXYZ-0123456789''"

definition containsOnly :: "string \<Rightarrow> string \<Rightarrow> bool" where
  "containsOnly s cs \<longleftrightarrow> (\<forall>c \<in> set s. c \<in> set cs)"

definition hasLeadingZeroes :: "string \<Rightarrow> bool" where
  "hasLeadingZeroes s \<longleftrightarrow> length s > 1 \<and> hd s = CHR ''0''"

fun decimal :: "nat \<Rightarrow> string \<Rightarrow> nat" where
  "decimal n [] = n"
| "decimal n (c # cs) = decimal (10 * n + (of_char c - 48)) cs"

definition ParseUint :: "string \<Rightarrow> semver_error + nat" where
  "ParseUint s = (if s = [] \<or> decimal 0 s \<ge> 2 ^ 64 then Inl NumberRange else Inr (decimal 0 s))"

text \<open>For evaluation the bound is compared in binary.\<close>

fun decimal_int :: "int \<Rightarrow> string \<Rightarrow> int" where
  "decimal_int n [] = n"
| "decimal_int n (c # cs) = decimal_int (10 * n + int (of_char c - 48)) cs"

lemma decimal_int: "decimal_int (int n) s = int (decimal n s)"
proof (induction s arbitrary: n)
  case (Cons c s)
  show ?case using Cons [of "10 * n + (of_char c - 48)"] by simp
qed simp

lemma ParseUint_code [code]:
  "ParseUint s = (if s = [] \<or> decimal_int 0 s \<ge> 18446744073709551616 then Inl NumberRange else Inr (nat (decimal_int 0 s)))"
  using decimal_int [of 0 s] by (simp add: ParseUint_def)

fun FormatUint :: "nat \<Rightarrow> string" where
  "FormatUint n = (if n < 10 then [numbers ! n] else FormatUint (n div 10) @ [numbers ! (n mod 10)])"

declare FormatUint.simps [simp del]

definition NewPRVersion :: "string \<Rightarrow> semver_error + PRVersion" where
  "NewPRVersion s =
     (if s = [] then Inl PrereleaseEmpty
      else if containsOnly s numbers then
        if hasLeadingZeroes s then Inl LeadingZeroes
        else bindr (ParseUint s) (\<lambda>n. Inr \<lparr>pr_VersionStr = [], pr_VersionNum = n, pr_IsNum = True\<rparr>)
      else if containsOnly s alphanum then Inr \<lparr>pr_VersionStr = s, pr_VersionNum = 0, pr_IsNum = False\<rparr>
      else Inl InvalidCharacters)"

definition parse_number :: "string \<Rightarrow> semver_error + nat" where
  "parse_number s =
     (if \<not> containsOnly s numbers then Inl InvalidCharacters
      else if hasLeadingZeroes s then Inl LeadingZeroes
      else ParseUint s)"

definition parse_build :: "string \<Rightarrow> semver_error + string" where
  "parse_build s =
     (if s = [] then Inl BuildEmpty else if \<not> containsOnly s alphanum then Inl InvalidCharacters else Inr s)"

text \<open>The text before the first \<open>c\<close>, and the pieces between dots after it.\<close>

definition cut_at :: "char \<Rightarrow> string \<Rightarrow> string \<times> string list" where
  "cut_at c s =
     (case dropWhile (\<lambda>x. x \<noteq> c) s of
        [] \<Rightarrow> (s, [])
      | _ # rest \<Rightarrow> (takeWhile (\<lambda>x. x \<noteq> c) s, strings_Split CHR ''.'' rest))"

definition Version_Parse :: "string \<Rightarrow> semver_error + Version" where
  "Version_Parse s =
     (if s = [] then Inl VersionEmptyString
      else case strings_SplitN 3 CHR ''.'' s of
        [a, b, c] \<Rightarrow>
          bindr (parse_number a) (\<lambda>major.
          bindr (parse_number b) (\<lambda>minor.
          let (c1, build) = cut_at CHR ''+'' c; (patchStr, prerelease) = cut_at CHR ''-'' c1
          in bindr (parse_number patchStr) (\<lambda>patch.
             bindr (mapM NewPRVersion prerelease) (\<lambda>pre.
             bindr (mapM parse_build build) (\<lambda>bs.
             Inr \<lparr>v_Major = major, v_Minor = minor, v_Patch = patch, v_Pre = pre, v_Build = bs\<rparr>)))))
      | _ \<Rightarrow> Inl NoThreeElements)"

definition PRVersion_String :: "PRVersion \<Rightarrow> string" where
  "PRVersion_String v = (if pr_IsNum v then FormatUint (pr_VersionNum v) else pr_VersionStr v)"

definition Version_String :: "Version \<Rightarrow> string" where
  "Version_String v =
     FormatUint (v_Major v) @ ''.'' @ FormatUint (v_Minor v) @ ''.'' @ FormatUint (v_Patch v)
     @ (if v_Pre v \<noteq> [] then ''-'' @ strings_Join ''.'' (map PRVersion_String (v_Pre v)) else [])
     @ (if v_Build v \<noteq> [] then ''+'' @ strings_Join ''.'' (v_Build v) else [])"

section \<open>Build identifiers\<close>

definition buildAsPrerelease :: "Version \<Rightarrow> semver_error + Version" where
  "buildAsPrerelease v =
     bindr (mapM NewPRVersion (v_Build v)) (\<lambda>pre.
     Inr \<lparr>v_Major = (if pre \<noteq> [] then 1 else 0), v_Minor = 0, v_Patch = 0, v_Pre = pre, v_Build = []\<rparr>)"

definition BuildIdCompare :: "Version \<Rightarrow> Version \<Rightarrow> semver_error + int" where
  "BuildIdCompare b v =
     (let c = Version_Compare b v
      in if c \<noteq> 0 then Inr c
         else bindr (buildAsPrerelease b) (\<lambda>bPre.
              bindr (buildAsPrerelease v) (\<lambda>vPre. Inr (Version_Compare bPre vPre))))"

section \<open>Three-way comparisons\<close>

text \<open>
  What a caller of a three-way comparison relies on: it answers -1, 0 or 1, swapping the arguments negates
  the answer, and it is transitive. Every comparison above is an instance.
\<close>

locale three_way =
  fixes cmp :: "'a \<Rightarrow> 'a \<Rightarrow> int"
  assumes cmp_range: "cmp a b \<in> {- 1, 0, 1}"
    and cmp_swap: "cmp b a = - cmp a b"
    and cmp_trans: "cmp a b \<le> 0 \<Longrightarrow> cmp b c \<le> 0 \<Longrightarrow> cmp a c \<le> 0"
begin

lemma cmp_refl [simp]: "cmp a a = 0"
  using cmp_swap [of a a] by simp

lemma cmp_cases: "cmp a b = - 1 \<or> cmp a b = 0 \<or> cmp a b = 1"
  using cmp_range [of a b] by auto

lemma cmp_trans_ge: "cmp a b \<ge> 0 \<Longrightarrow> cmp b c \<ge> 0 \<Longrightarrow> cmp a c \<ge> 0"
  using cmp_trans [of c b a] cmp_swap [of a b] cmp_swap [of b c] cmp_swap [of a c] by simp

lemma cmp_eq_left: "cmp a b = 0 \<Longrightarrow> cmp a c = cmp b c"
proof -
  assume ab: "cmp a b = 0"
  then have ba: "cmp b a = 0" using cmp_swap [of a b] by simp
  have "cmp a c \<le> 0 \<longleftrightarrow> cmp b c \<le> 0" "cmp a c \<ge> 0 \<longleftrightarrow> cmp b c \<ge> 0"
    using cmp_trans [of a b c] cmp_trans [of b a c] cmp_trans_ge [of a b c] cmp_trans_ge [of b a c] ab ba by auto
  then show ?thesis using cmp_cases [of a c] cmp_cases [of b c] by auto
qed

lemma cmp_eq_right: "cmp a b = 0 \<Longrightarrow> cmp c a = cmp c b"
  using cmp_eq_left [of a b c] cmp_swap [of c a] cmp_swap [of c b] by simp

lemma cmp_less_trans: "cmp a b < 0 \<Longrightarrow> cmp b c \<le> 0 \<Longrightarrow> cmp a c < 0"
proof -
  assume ab: "cmp a b < 0" and bc: "cmp b c \<le> 0"
  then have "cmp a c \<le> 0" using cmp_trans [of a b c] by simp
  moreover have "cmp a c \<noteq> 0"
  proof
    assume "cmp a c = 0"
    from cmp_eq_left [OF this, of b] ab have "cmp c b < 0" by simp
    with bc cmp_swap [of b c] show False by simp
  qed
  ultimately show ?thesis by simp
qed

lemma cmp_trans_less: "cmp a b \<le> 0 \<Longrightarrow> cmp b c < 0 \<Longrightarrow> cmp a c < 0"
  using cmp_less_trans [of a b c] cmp_eq_left [of a b c] by (cases "cmp a b = 0") auto

end

interpretation order3: three_way "order3 :: 'a::linorder \<Rightarrow> 'a \<Rightarrow> int"
  by unfold_locales (auto simp: order3_def split: if_splits)

interpretation prerelease: three_way PRVersion_Compare
proof
  fix a b c :: PRVersion
  show "PRVersion_Compare a b \<in> {- 1, 0, 1}"
    using order3.cmp_range [of "pr_VersionNum a" "pr_VersionNum b"] order3.cmp_range [of "pr_VersionStr a" "pr_VersionStr b"]
    by (auto simp: PRVersion_Compare_def)
  show "PRVersion_Compare b a = - PRVersion_Compare a b"
    using order3.cmp_swap [of "pr_VersionNum a" "pr_VersionNum b"] order3.cmp_swap [of "pr_VersionStr a" "pr_VersionStr b"]
    by (auto simp: PRVersion_Compare_def)
  show "PRVersion_Compare a b \<le> 0 \<Longrightarrow> PRVersion_Compare b c \<le> 0 \<Longrightarrow> PRVersion_Compare a c \<le> 0"
    using order3.cmp_trans [of "pr_VersionNum a" "pr_VersionNum b" "pr_VersionNum c"]
      order3.cmp_trans [of "pr_VersionStr a" "pr_VersionStr b" "pr_VersionStr c"]
    by (auto simp: PRVersion_Compare_def split: if_splits)
qed

lemma pre_compare_Cons:
  "pre_compare (p # ps) (q # qs) = (if PRVersion_Compare p q = 0 then pre_compare ps qs else PRVersion_Compare p q)"
  using prerelease.cmp_cases [of p q] by (auto simp: Let_def)

declare pre_compare.simps(4) [simp del]

lemma pre_compare_Nil_le: "pre_compare [] c \<le> 0"
  by (cases c) simp_all

lemma pre_compare_trans: "pre_compare a b \<le> 0 \<Longrightarrow> pre_compare b c \<le> 0 \<Longrightarrow> pre_compare a c \<le> 0"
proof (induction a b arbitrary: c rule: pre_compare.induct)
  case (4 p ps q qs)
  then obtain r rs where c: "c = r # rs" by (cases c) auto
  have pq: "PRVersion_Compare p q \<le> 0" and qr: "PRVersion_Compare q r \<le> 0"
    using "4.prems" by (auto simp: pre_compare_Cons c split: if_splits)
  show ?case
  proof (cases "PRVersion_Compare p r = 0")
    case True
    then have "PRVersion_Compare r p = 0" using prerelease.cmp_swap [of p r] by simp
    with qr prerelease.cmp_trans_less [of q r p] prerelease.cmp_trans [OF qr, of p] pq
    have "PRVersion_Compare q p \<le> 0" by simp
    with pq have pq0: "PRVersion_Compare p q = 0" using prerelease.cmp_swap [of p q] by simp
    have qr0: "PRVersion_Compare q r = 0" using prerelease.cmp_eq_left [OF pq0, of r] True by (simp only:)
    have "pre_compare ps qs \<le> 0" "pre_compare qs rs \<le> 0"
      using "4.prems" by (simp_all only: pre_compare_Cons c pq0 qr0 if_True simp_thms)
    from "4.IH" [OF refl pq0 this] True show ?thesis by (simp only: pre_compare_Cons c if_True simp_thms)
  next
    case False
    then show ?thesis using prerelease.cmp_trans [OF pq qr] by (simp add: pre_compare_Cons c)
  qed
qed (simp_all add: pre_compare_Nil_le)

interpretation prereleases: three_way pre_compare
proof
  fix a b c :: "PRVersion list"
  show "pre_compare a b \<in> {- 1, 0, 1}"
  proof (induction a b rule: pre_compare.induct)
    case (4 p ps q qs)
    then show ?case using prerelease.cmp_range [of p q] by (auto simp: pre_compare_Cons)
  qed simp_all
  show "pre_compare b a = - pre_compare a b"
  proof (induction a b rule: pre_compare.induct)
    case (4 p ps q qs)
    then show ?case using prerelease.cmp_swap [of p q] by (simp add: pre_compare_Cons)
  qed simp_all
qed (rule pre_compare_trans)

text \<open>The comparison of versions, number by number and then the prerelease identifiers, where none is the largest.\<close>

definition lex3 :: "int \<Rightarrow> int \<Rightarrow> int" where
  "lex3 c d = (if c \<noteq> 0 then c else d)"

definition pre_part :: "PRVersion list \<Rightarrow> PRVersion list \<Rightarrow> int" where
  "pre_part ps qs = lex3 (order3 (ps = []) (qs = [])) (pre_compare ps qs)"

lemma lex3_three_way:
  assumes "three_way f" and "three_way g"
  shows "three_way (\<lambda>a b. lex3 (f (p a) (p b)) (g (q a) (q b)))"
proof
  fix a b c
  note f = three_way.cmp_range [OF assms(1)] three_way.cmp_swap [OF assms(1)] three_way.cmp_trans [OF assms(1)]
  note g = three_way.cmp_range [OF assms(2)] three_way.cmp_swap [OF assms(2)] three_way.cmp_trans [OF assms(2)]
  show "lex3 (f (p a) (p b)) (g (q a) (q b)) \<in> {- 1, 0, 1}"
    using f(1) [of "p a" "p b"] g(1) [of "q a" "q b"] by (auto simp: lex3_def)
  show "lex3 (f (p b) (p a)) (g (q b) (q a)) = - lex3 (f (p a) (p b)) (g (q a) (q b))"
    using f(2) [of "p a" "p b"] g(2) [of "q a" "q b"] by (auto simp: lex3_def)
  assume ab: "lex3 (f (p a) (p b)) (g (q a) (q b)) \<le> 0" and bc: "lex3 (f (p b) (p c)) (g (q b) (q c)) \<le> 0"
  have le: "f (p a) (p b) \<le> 0" "f (p b) (p c) \<le> 0" using ab bc by (auto simp: lex3_def split: if_splits)
  show "lex3 (f (p a) (p c)) (g (q a) (q c)) \<le> 0"
  proof (cases "f (p a) (p c) = 0")
    case False
    then show ?thesis using f(3) [OF le] by (simp add: lex3_def)
  next
    case True
    have "f (p a) (p b) = 0"
      using three_way.cmp_less_trans [OF assms(1), of "p a" "p b" "p c"] le True by fastforce
    moreover have "f (p b) (p c) = 0"
      using three_way.cmp_trans_less [OF assms(1), of "p a" "p b" "p c"] le True by fastforce
    ultimately show ?thesis using ab bc True g(3) [of "q a" "q b" "q c"] by (simp add: lex3_def)
  qed
qed

lemma Version_Compare_lex:
  "Version_Compare v w =
     lex3 (order3 (v_Major v) (v_Major w))
       (lex3 (order3 (v_Minor v) (v_Minor w))
         (lex3 (order3 (v_Patch v) (v_Patch w)) (pre_part (v_Pre v) (v_Pre w))))"
  by (auto simp: Version_Compare_def lex3_def order3_def pre_part_def)

lemma pre_part_three_way: "three_way pre_part"
proof -
  have "pre_part = (\<lambda>ps qs. lex3 (order3 (ps = []) (qs = [])) (pre_compare (id ps) (id qs)))"
    by (intro ext) (simp add: pre_part_def)
  with lex3_three_way [OF order3.three_way_axioms prereleases.three_way_axioms, of "\<lambda>ps. ps = []" id]
  show ?thesis by (simp only:)
qed

interpretation version: three_way Version_Compare
proof -
  have eq: "Version_Compare = (\<lambda>v w. lex3 (order3 (v_Major v) (v_Major w))
       (lex3 (order3 (v_Minor (id v)) (v_Minor (id w)))
         (lex3 (order3 (v_Patch (id v)) (v_Patch (id w))) (pre_part (v_Pre (id v)) (v_Pre (id w))))))"
    by (intro ext) (simp add: Version_Compare_lex)
  have 3: "three_way (\<lambda>v w. lex3 (order3 (v_Patch v) (v_Patch w)) (pre_part (v_Pre v) (v_Pre w)))"
    by (rule lex3_three_way [OF order3.three_way_axioms pre_part_three_way])
  have 2: "three_way (\<lambda>v w. lex3 (order3 (v_Minor v) (v_Minor w))
      (lex3 (order3 (v_Patch (id v)) (v_Patch (id w))) (pre_part (v_Pre (id v)) (v_Pre (id w)))))"
    by (rule lex3_three_way [OF order3.three_way_axioms 3, where q = id])
  show "three_way Version_Compare"
    unfolding eq using lex3_three_way [OF order3.three_way_axioms 2, of v_Major id] by simp
qed

section \<open>Parsing is the inverse of printing\<close>

lemma digit_char:
  assumes "c \<in> set numbers" shows "numbers ! (of_char c - 48) = c" and "of_char c - 48 < (10::nat)"
    and "of_char c - 48 = (0::nat) \<longleftrightarrow> c = CHR ''0''"
  using assms by (auto simp: numbers_def)

lemma nth_digit: "n < 10 \<Longrightarrow> numbers ! n \<in> set numbers \<and> of_char (numbers ! n) - 48 = n \<and> (numbers ! n = CHR ''0'' \<longleftrightarrow> n = 0)"
proof -
  assume "n < 10"
  then have "n \<in> {0, 1, 2, 3, 4, 5, 6, 7, 8, 9}" by auto
  then show ?thesis by (auto simp: numbers_def)
qed

lemma decimal_snoc: "decimal n (s @ [c]) = 10 * decimal n s + (of_char c - 48)"
  by (induction s arbitrary: n) auto

lemma decimal_pos: "s \<noteq> [] \<Longrightarrow> containsOnly s numbers \<Longrightarrow> hd s \<noteq> CHR ''0'' \<Longrightarrow> decimal 0 s > 0"
proof (induction s rule: rev_induct)
  case (snoc c s)
  then show ?case
    using digit_char(3) [of c] by (cases "s = []") (auto simp: decimal_snoc containsOnly_def)
qed simp

definition canonical :: "string \<Rightarrow> bool" where
  "canonical s \<longleftrightarrow> s \<noteq> [] \<and> containsOnly s numbers \<and> \<not> hasLeadingZeroes s"

lemma FormatUint_decimal: "canonical s \<Longrightarrow> FormatUint (decimal 0 s) = s"
proof (induction s rule: rev_induct)
  case (snoc c s)
  have c: "c \<in> set numbers" using snoc.prems by (simp add: canonical_def containsOnly_def)
  note d = digit_char [OF c]
  show ?case
  proof (cases "s = []")
    case True
    then show ?thesis using d by (simp add: FormatUint.simps)
  next
    case False
    with snoc.prems have s: "canonical s" "hd s \<noteq> CHR ''0''"
      by (auto simp: canonical_def containsOnly_def hasLeadingZeroes_def)
    then have "decimal 0 s > 0" using decimal_pos False by (simp add: canonical_def)
    then show ?thesis
      using snoc.IH [OF s(1)] d by (subst FormatUint.simps) (simp add: decimal_snoc)
  qed
qed (simp add: canonical_def)

lemma FormatUint_canonical: "canonical (FormatUint n) \<and> decimal 0 (FormatUint n) = n \<and> (n > 0 \<longrightarrow> hd (FormatUint n) \<noteq> CHR ''0'')"
proof (induction n rule: FormatUint.induct)
  case (1 n)
  show ?case
  proof (cases "n < 10")
    case True
    then show ?thesis
      using nth_digit [OF True] by (simp add: FormatUint.simps [of n] canonical_def containsOnly_def hasLeadingZeroes_def)
  next
    case False
    then have m: "n mod 10 < 10" "n div 10 > 0" by auto
    note ih = 1 [OF False] and d = nth_digit [OF m(1)]
    have ne: "FormatUint (n div 10) \<noteq> []" using ih by (simp add: canonical_def)
    have eq: "FormatUint n = FormatUint (n div 10) @ [numbers ! (n mod 10)]" using False by (subst FormatUint.simps) simp
    show ?thesis
      using ih d m(2) ne unfolding eq by (auto simp: canonical_def containsOnly_def hasLeadingZeroes_def decimal_snoc)
  qed
qed

lemma parse_number_iff: "parse_number s = Inr n \<longleftrightarrow> n < 2 ^ 64 \<and> s = FormatUint n"
proof
  assume "parse_number s = Inr n"
  then have "canonical s" "n = decimal 0 s" "n < 2 ^ 64"
    by (auto simp: parse_number_def ParseUint_def canonical_def split: if_splits)
  then show "n < 2 ^ 64 \<and> s = FormatUint n" using FormatUint_decimal by simp
next
  assume "n < 2 ^ 64 \<and> s = FormatUint n"
  then show "parse_number s = Inr n"
    using FormatUint_canonical [of n] by (simp add: parse_number_def ParseUint_def canonical_def)
qed

definition valid_pr :: "PRVersion \<Rightarrow> bool" where
  "valid_pr p \<longleftrightarrow>
     (if pr_IsNum p then pr_VersionStr p = [] \<and> pr_VersionNum p < 2 ^ 64
      else pr_VersionNum p = 0 \<and> containsOnly (pr_VersionStr p) alphanum \<and> \<not> containsOnly (pr_VersionStr p) numbers)"

definition valid_build :: "string \<Rightarrow> bool" where
  "valid_build b \<longleftrightarrow> b \<noteq> [] \<and> containsOnly b alphanum"

definition valid_version :: "Version \<Rightarrow> bool" where
  "valid_version v \<longleftrightarrow> v_Major v < 2 ^ 64 \<and> v_Minor v < 2 ^ 64 \<and> v_Patch v < 2 ^ 64
     \<and> list_all valid_pr (v_Pre v) \<and> list_all valid_build (v_Build v)"

lemma NewPRVersion_iff: "NewPRVersion s = Inr p \<longleftrightarrow> valid_pr p \<and> s = PRVersion_String p"
proof (cases "s \<noteq> [] \<and> containsOnly s numbers")
  case True
  then have "NewPRVersion s = bindr (parse_number s) (\<lambda>n. Inr \<lparr>pr_VersionStr = [], pr_VersionNum = n, pr_IsNum = True\<rparr>)"
    by (simp add: NewPRVersion_def parse_number_def)
  then show ?thesis
    using True by (cases p) (auto simp: parse_number_iff valid_pr_def PRVersion_String_def)
next
  case False
  then have "\<not> canonical s" by (auto simp: canonical_def)
  then have "s \<noteq> FormatUint n" for n using FormatUint_canonical by auto
  with False show ?thesis
    by (cases p) (auto simp: NewPRVersion_def valid_pr_def PRVersion_String_def containsOnly_def)
qed

lemma parse_build_iff: "parse_build s = Inr b \<longleftrightarrow> valid_build b \<and> s = id b"
  by (auto simp: parse_build_def valid_build_def)

lemma mapM_print:
  assumes "\<And>s x. f s = Inr x \<longleftrightarrow> P x \<and> s = g x"
  shows "mapM f ss = Inr xs \<longleftrightarrow> list_all P xs \<and> ss = map g xs"
  unfolding mapM_Inr using assms
  by (induction ss arbitrary: xs) (auto simp: list_all2_Cons1 Cons_eq_map_conv)

lemma cut_first:
  assumes "d \<notin> set a"
  shows "takeWhile (\<lambda>x. x \<noteq> d) (a @ d # t) = a" and "dropWhile (\<lambda>x. x \<noteq> d) (a @ d # t) = d # t"
    and "dropWhile (\<lambda>x. x \<noteq> d) a = []"
  using assms by (induction a) auto

lemma cut_rest:
  assumes "dropWhile (\<lambda>x. x \<noteq> d) s = x # t"
  shows "s = takeWhile (\<lambda>x. x \<noteq> d) s @ d # t" and "d \<notin> set (takeWhile (\<lambda>x. x \<noteq> d) s)"
proof -
  have "x = d" using assms hd_dropWhile [of "\<lambda>x. x \<noteq> d" s] by simp
  then show "s = takeWhile (\<lambda>x. x \<noteq> d) s @ d # t" using assms takeWhile_dropWhile_id [of "\<lambda>x. x \<noteq> d" s] by simp
  show "d \<notin> set (takeWhile (\<lambda>x. x \<noteq> d) s)" by (auto dest: set_takeWhileD)
qed

lemma SplitN3_iff:
  "strings_SplitN 3 d s = [a, b, c] \<longleftrightarrow> d \<notin> set a \<and> d \<notin> set b \<and> s = a @ d # b @ d # c"
proof
  assume "strings_SplitN 3 d s = [a, b, c]"
  then obtain x t y u where "dropWhile (\<lambda>x. x \<noteq> d) s = x # t" "takeWhile (\<lambda>x. x \<noteq> d) s = a"
      "dropWhile (\<lambda>x. x \<noteq> d) t = y # u" "takeWhile (\<lambda>x. x \<noteq> d) t = b" "u = c"
    by (auto simp: numeral_3_eq_3 split: list.splits)
  with cut_rest [of d s] cut_rest [of d t] show "d \<notin> set a \<and> d \<notin> set b \<and> s = a @ d # b @ d # c" by metis
next
  assume "d \<notin> set a \<and> d \<notin> set b \<and> s = a @ d # b @ d # c"
  then show "strings_SplitN 3 d s = [a, b, c]" by (simp add: numeral_3_eq_3 cut_first)
qed

lemma cut_at_iff:
  assumes "\<forall>p \<in> set ps. CHR ''.'' \<notin> set p"
  shows "cut_at c s = (a, ps) \<longleftrightarrow> c \<notin> set a \<and> s = a @ (if ps \<noteq> [] then c # strings_Join ''.'' ps else [])"
proof (cases "dropWhile (\<lambda>x. x \<noteq> c) s")
  case Nil
  then have "c \<notin> set s" by (auto simp: dropWhile_eq_Nil_conv)
  moreover have "cut_at c s = (s, [])" by (simp only: cut_at_def Nil list.case)
  ultimately show ?thesis by auto
next
  case (Cons x t)
  note r = cut_rest [OF Cons]
  show ?thesis
  proof
    assume "cut_at c s = (a, ps)"
    then have "a = takeWhile (\<lambda>x. x \<noteq> c) s" "ps = strings_Split CHR ''.'' t" by (auto simp: cut_at_def Cons)
    with r show "c \<notin> set a \<and> s = a @ (if ps \<noteq> [] then c # strings_Join ''.'' ps else [])" by simp
  next
    assume a: "c \<notin> set a \<and> s = a @ (if ps \<noteq> [] then c # strings_Join ''.'' ps else [])"
    have "c \<in> set s" using r(1) by (metis in_set_conv_decomp)
    with a have "ps \<noteq> []" by auto
    with a assms show "cut_at c s = (a, ps)" by (simp add: cut_at_def cut_first strings_Split_Join)
  qed
qed

lemma cut_at_dots: "cut_at c s = (a, ps) \<Longrightarrow> p \<in> set ps \<Longrightarrow> CHR ''.'' \<notin> set p"
  by (cases "dropWhile (\<lambda>x. x \<noteq> c) s") (use strings_Split_notin in \<open>auto simp: cut_at_def\<close>)

lemma numbers_plain: "CHR ''.'' \<notin> set numbers" "CHR ''-'' \<notin> set numbers" "CHR ''+'' \<notin> set numbers"
  by (simp_all add: numbers_def)

lemma alphanum_chars: "CHR ''.'' \<notin> set alphanum" "CHR ''+'' \<notin> set alphanum"
  by (simp_all add: alphanum_def)

lemma digits_plain: "FormatUint n = s \<Longrightarrow> CHR ''.'' \<notin> set s \<and> CHR ''-'' \<notin> set s \<and> CHR ''+'' \<notin> set s"
proof -
  assume "FormatUint n = s"
  then have "\<forall>c \<in> set s. c \<in> set numbers" using FormatUint_canonical [of n] by (simp add: canonical_def containsOnly_def)
  with numbers_plain show ?thesis by blast
qed

lemma alphanum_plain: "containsOnly s alphanum \<Longrightarrow> CHR ''.'' \<notin> set s \<and> CHR ''+'' \<notin> set s"
  unfolding containsOnly_def using alphanum_chars by blast

lemma valid_pr_plain: "valid_pr p \<Longrightarrow> CHR ''.'' \<notin> set (PRVersion_String p) \<and> CHR ''+'' \<notin> set (PRVersion_String p)"
  using digits_plain [OF refl] alphanum_plain by (auto simp: valid_pr_def PRVersion_String_def split: if_splits)

lemma set_Join: "x \<in> set (strings_Join sep ss) \<Longrightarrow> x \<in> set sep \<or> (\<exists>t \<in> set ss. x \<in> set t)"
  by (induction sep ss rule: strings_Join.induct) auto

lemma Version_Parse_iff: "Version_Parse s = Inr v \<longleftrightarrow> valid_version v \<and> s = Version_String v"
proof
  assume "Version_Parse s = Inr v"
  then obtain a b c where sp: "strings_SplitN 3 CHR ''.'' s = [a, b, c]"
    by (auto simp: Version_Parse_def split: if_splits list.splits)
  obtain c1 build where cut1: "cut_at CHR ''+'' c = (c1, build)" by (cases "cut_at CHR ''+'' c")
  obtain patchStr prerelease where cut2: "cut_at CHR ''-'' c1 = (patchStr, prerelease)" by (cases "cut_at CHR ''-'' c1")
  note cut = cut1 cut2
  have "\<exists>maj min pat pre bs. parse_number a = Inr maj \<and> parse_number b = Inr min \<and> parse_number patchStr = Inr pat
      \<and> mapM NewPRVersion prerelease = Inr pre \<and> mapM parse_build build = Inr bs
      \<and> v = \<lparr>v_Major = maj, v_Minor = min, v_Patch = pat, v_Pre = pre, v_Build = bs\<rparr>"
    using \<open>Version_Parse s = Inr v\<close> by (simp add: Version_Parse_def sp cut split: if_splits) blast
  then have parts: "parse_number a = Inr (v_Major v)" "parse_number b = Inr (v_Minor v)" "parse_number patchStr = Inr (v_Patch v)"
      "mapM NewPRVersion prerelease = Inr (v_Pre v)" "mapM parse_build build = Inr (v_Build v)"
    by auto
  have pre: "list_all valid_pr (v_Pre v)" "prerelease = map PRVersion_String (v_Pre v)"
    using parts(4) by (simp_all add: mapM_print [OF NewPRVersion_iff])
  have build: "list_all valid_build (v_Build v)" "build = v_Build v"
    using parts(5) by (simp_all add: mapM_print [OF parse_build_iff])
  have "c = c1 @ (if build \<noteq> [] then CHR ''+'' # strings_Join ''.'' build else [])"
    using cut(1) cut_at_iff [of build] cut_at_dots [OF cut(1)] by blast
  moreover have "c1 = patchStr @ (if prerelease \<noteq> [] then CHR ''-'' # strings_Join ''.'' prerelease else [])"
    using cut(2) cut_at_iff [of prerelease] cut_at_dots [OF cut(2)] by blast
  moreover have "s = a @ CHR ''.'' # b @ CHR ''.'' # c" using sp by (simp add: SplitN3_iff)
  ultimately show "valid_version v \<and> s = Version_String v"
    using parts(1-3) pre build by (simp add: parse_number_iff valid_version_def Version_String_def)
next
  assume v: "valid_version v \<and> s = Version_String v"
  let ?c1 = "FormatUint (v_Patch v) @ (if v_Pre v \<noteq> [] then CHR ''-'' # strings_Join ''.'' (map PRVersion_String (v_Pre v)) else [])"
  let ?c = "?c1 @ (if v_Build v \<noteq> [] then CHR ''+'' # strings_Join ''.'' (v_Build v) else [])"
  have pre: "\<forall>p \<in> set (map PRVersion_String (v_Pre v)). CHR ''.'' \<notin> set p \<and> CHR ''+'' \<notin> set p"
    using v valid_pr_plain by (auto simp: valid_version_def list_all_iff)
  have build: "\<forall>p \<in> set (v_Build v). CHR ''.'' \<notin> set p"
    using v alphanum_plain by (auto simp: valid_version_def list_all_iff valid_build_def)
  have "strings_SplitN 3 CHR ''.'' s = [FormatUint (v_Major v), FormatUint (v_Minor v), ?c]"
    using v digits_plain [OF refl] by (simp add: SplitN3_iff Version_String_def)
  moreover have "CHR ''+'' \<notin> set ?c1"
    using digits_plain [OF refl] pre set_Join [of "CHR ''+''" "''.''" "map PRVersion_String (v_Pre v)"] by auto
  then have "cut_at CHR ''+'' ?c = (?c1, v_Build v)" using build by (simp add: cut_at_iff)
  moreover have "cut_at CHR ''-'' ?c1 = (FormatUint (v_Patch v), map PRVersion_String (v_Pre v))"
    using pre digits_plain [OF refl] by (simp add: cut_at_iff)
  moreover have "mapM NewPRVersion (map PRVersion_String (v_Pre v)) = Inr (v_Pre v)" "mapM parse_build (v_Build v) = Inr (v_Build v)"
    using v by (simp_all add: valid_version_def mapM_print [OF NewPRVersion_iff] mapM_print [OF parse_build_iff])
  moreover have "s \<noteq> []" using v FormatUint_canonical [of "v_Major v"] by (simp add: Version_String_def)
  moreover have "parse_number (FormatUint n) = Inr n" if "n < 2 ^ 64" for n using that by (simp add: parse_number_iff)
  ultimately show "Version_Parse s = Inr v" using v by (simp add: Version_Parse_def valid_version_def)
qed

text \<open>
  C17: A text parses as a version exactly when it is the printed form of that version, with numbers below \<open>2 ^ 64\<close> and
  legal identifiers. So parsing inverts printing, no two texts parse to the same version, and a stored version text
  parses again to what was printed.
\<close>

theorem Version_Parse_String: "Version_Parse s = Inr v \<longleftrightarrow> valid_version v \<and> s = Version_String v"
  by (rule Version_Parse_iff)

section \<open>The order with build identifiers\<close>

text \<open>The build identifiers as prerelease identifiers, when each of them is one.\<close>

definition build_pre :: "Version \<Rightarrow> PRVersion list option" where
  "build_pre v = (case mapM NewPRVersion (v_Build v) of Inl _ \<Rightarrow> None | Inr ps \<Rightarrow> Some ps)"

definition has_build_ids :: "Version \<Rightarrow> bool" where
  "has_build_ids v \<longleftrightarrow> build_pre v \<noteq> None"

definition build_order :: "PRVersion list \<Rightarrow> PRVersion list \<Rightarrow> int" where
  "build_order ps qs = lex3 (order3 (ps \<noteq> []) (qs \<noteq> [])) (pre_compare ps qs)"

definition build_id_order :: "Version \<Rightarrow> Version \<Rightarrow> int" where
  "build_id_order v w = lex3 (Version_Compare v w) (build_order (the (build_pre v)) (the (build_pre w)))"

lemma build_order_three_way: "three_way build_order"
proof -
  have "build_order = (\<lambda>ps qs. lex3 (order3 (ps \<noteq> []) (qs \<noteq> [])) (pre_compare (id ps) (id qs)))"
    by (intro ext) (simp add: build_order_def)
  with lex3_three_way [OF order3.three_way_axioms prereleases.three_way_axioms, of "\<lambda>ps. ps \<noteq> []" id]
  show ?thesis by (simp only:)
qed

interpretation build_id: three_way build_id_order
proof -
  have eq: "build_id_order = (\<lambda>v w. lex3 (Version_Compare (id v) (id w)) (build_order (the (build_pre v)) (the (build_pre w))))"
    by (intro ext) (simp add: build_id_order_def)
  show "three_way build_id_order"
    unfolding eq by (rule lex3_three_way [OF version.three_way_axioms build_order_three_way])
qed

lemma BuildIdCompare_eq:
  assumes "has_build_ids v" and "has_build_ids w"
  shows "BuildIdCompare v w = Inr (build_id_order v w)"
proof -
  obtain ps qs where "mapM NewPRVersion (v_Build v) = Inr ps" "mapM NewPRVersion (v_Build w) = Inr qs"
    using assms by (auto simp: has_build_ids_def build_pre_def split: sum.splits)
  then show ?thesis
    by (auto simp: BuildIdCompare_def build_id_order_def lex3_def Let_def buildAsPrerelease_def build_pre_def
        build_order_def order3_def Version_Compare_def)
qed

lemma order3_0: "order3 a b = 0 \<longleftrightarrow> a = b"
  by (auto simp: order3_def)

lemma pre_compare_0: "list_all valid_pr ps \<Longrightarrow> list_all valid_pr qs \<Longrightarrow> pre_compare ps qs = 0 \<longleftrightarrow> ps = qs"
proof (induction ps qs rule: pre_compare.induct)
  case (4 p ps q qs)
  have "PRVersion_Compare p q = 0 \<longleftrightarrow> p = q"
    using 4 by (cases p; cases q) (auto simp: PRVersion_Compare_def valid_pr_def order3_0 split: if_splits)
  with 4 show ?case by (auto simp: pre_compare_Cons)
qed auto

lemma build_id_order_0:
  assumes v: "valid_version v" "has_build_ids v" and w: "valid_version w" "has_build_ids w"
  shows "build_id_order v w = 0 \<longleftrightarrow> v = w"
proof
  assume 0: "build_id_order v w = 0"
  obtain ps qs where b: "mapM NewPRVersion (v_Build v) = Inr ps" "mapM NewPRVersion (v_Build w) = Inr qs"
    using v(2) w(2) by (auto simp: has_build_ids_def build_pre_def split: sum.splits)
  then have ids: "list_all valid_pr ps" "v_Build v = map PRVersion_String ps" "list_all valid_pr qs" "v_Build w = map PRVersion_String qs"
    by (simp_all add: mapM_print [OF NewPRVersion_iff])
  have "build_order ps qs = 0" "Version_Compare v w = 0"
    using 0 b by (auto simp: build_id_order_def lex3_def build_pre_def split: if_splits)
  with ids have "v_Build v = v_Build w"
    using pre_compare_0 [of ps qs] by (auto simp: build_order_def lex3_def split: if_splits)
  moreover have "v_Pre v = v_Pre w" "v_Major v = v_Major w" "v_Minor v = v_Minor w" "v_Patch v = v_Patch w"
    using \<open>Version_Compare v w = 0\<close> pre_compare_0 [of "v_Pre v" "v_Pre w"] v(1) w(1)
    by (auto simp: Version_Compare_def valid_version_def split: if_splits)
  ultimately show "v = w" by (cases v; cases w) simp
qed simp

text \<open>
  C18: On versions whose build identifiers are legal prerelease identifiers the comparison never fails and is a
  strict total order: it answers 0 only for equal versions, swapping negates it, it is transitive, it refines the
  precedence of versions, and without a build identifier a version is below the same version with one.
\<close>

theorem BuildIdCompare_spec:
  assumes "valid_version u" "has_build_ids u" and "valid_version v" "has_build_ids v"
    and "valid_version w" "has_build_ids w"
  shows "\<exists>c d e. BuildIdCompare u v = Inr c \<and> BuildIdCompare v w = Inr d \<and> BuildIdCompare u w = Inr e
    \<and> c \<in> {- 1, 0, 1} \<and> (c = 0 \<longleftrightarrow> u = v) \<and> BuildIdCompare v u = Inr (- c)
    \<and> (c \<le> 0 \<and> d \<le> 0 \<longrightarrow> e \<le> 0)
    \<and> (Version_Compare u v \<noteq> 0 \<longrightarrow> c = Version_Compare u v)
    \<and> (Version_Compare u v = 0 \<and> v_Build u = [] \<and> v_Build v \<noteq> [] \<longrightarrow> c = - 1)"
proof -
  have "build_id_order u v = - 1" if "Version_Compare u v = 0" "v_Build u = []" "v_Build v \<noteq> []"
    using assms(4) that
    by (auto simp: build_id_order_def lex3_def has_build_ids_def build_pre_def build_order_def order3_def split: sum.splits)
      (auto simp: mapM_Inr)
  moreover have "build_id_order u v = Version_Compare u v" if "Version_Compare u v \<noteq> 0"
    using that by (simp add: build_id_order_def lex3_def)
  moreover have "BuildIdCompare v u = Inr (- build_id_order u v)"
    unfolding BuildIdCompare_eq [OF assms(4,2)] by (simp only: build_id.cmp_swap [where b = v and a = u])
  ultimately show ?thesis
    using build_id_order_0 [OF assms(1-4)] build_id.cmp_range [of u v] build_id.cmp_trans [of u v w]
    unfolding BuildIdCompare_eq [OF assms(2,4)] BuildIdCompare_eq [OF assms(4,6)] BuildIdCompare_eq [OF assms(2,6)]
    by simp
qed

definition sample_version :: "nat \<Rightarrow> string list \<Rightarrow> Version" where
  "sample_version n bs = \<lparr>v_Major = 1, v_Minor = 0, v_Patch = n, v_Pre = [], v_Build = bs\<rparr>"

theorem BuildIdCompare_spec_witness:
  "BuildIdCompare (sample_version 0 []) (sample_version 0 [''1'']) = Inr (- 1)"
proof -
  have "valid_version (sample_version n [])" if "n < 2" for n
    using that by (simp add: valid_version_def sample_version_def)
  moreover have "valid_version (sample_version 0 [''1''])"
    by (simp add: valid_version_def sample_version_def valid_build_def containsOnly_def alphanum_def)
  moreover have "has_build_ids (sample_version 0 [])" "has_build_ids (sample_version 0 [''1''])" "has_build_ids (sample_version 1 [])"
    by code_simp+
  ultimately obtain c where "BuildIdCompare (sample_version 0 []) (sample_version 0 [''1'']) = Inr c"
      "Version_Compare (sample_version 0 []) (sample_version 0 [''1'']) = 0
       \<and> v_Build (sample_version 0 []) = [] \<and> v_Build (sample_version 0 [''1'']) \<noteq> [] \<longrightarrow> c = - 1"
    using BuildIdCompare_spec [of "sample_version 0 []" "sample_version 0 [''1'']" "sample_version 1 []"] by fastforce
  moreover have "Version_Compare (sample_version 0 []) (sample_version 0 [''1'']) = 0" by code_simp
  ultimately show ?thesis by (simp add: sample_version_def)
qed

end
