(* ===== verification/Api.thy ===== *)
theory Api
  imports Model "HOL-Library.Product_Lexorder"
begin

text \<open>
  The package \<^verbatim>\<open>pkg/api\<close>: the messages of the gRPC service (\<^verbatim>\<open>registry.pb.go\<close>) and the conversions
  between a bundle of an index and a bundle message (\<^verbatim>\<open>model_to_api.go\<close>, \<^verbatim>\<open>api_to_model.go\<close>).

  A message is a record; elements of repeated message fields are not nil. Where the code ranges over a
  Go map, the model visits the entries in the order in which they were added.
\<close>

section \<open>Messages\<close>

record GroupVersionKind =
  g_Group :: string
  g_Version :: string
  g_Kind :: string
  g_Plural :: string

record ApiDependency =
  ad_Type :: string
  ad_Value :: string

record ApiProperty =
  ap_Type :: string
  ap_Value :: string

record ApiBundle =
  ab_CsvName :: string
  ab_PackageName :: string
  ab_ChannelName :: string
  ab_CsvJson :: string
  ab_Object :: "string list"
  ab_BundlePath :: string
  ab_ProvidedApis :: "GroupVersionKind list"
  ab_RequiredApis :: "GroupVersionKind list"
  ab_Version :: string
  ab_SkipRange :: string
  ab_Dependencies :: "ApiDependency list"
  ab_Properties :: "ApiProperty list"
  ab_Replaces :: string
  ab_Skips :: "string list"

record ApiChannel =
  ac_Name :: string
  ac_CsvName :: string

record ApiPackage =
  apk_Name :: string
  apk_Channels :: "ApiChannel list"
  apk_DefaultChannelName :: string

record ApiChannelEntry =
  ace_PackageName :: string
  ace_ChannelName :: string
  ace_BundleName :: string
  ace_Replaces :: string

definition dec_GroupVersionKind :: "json \<Rightarrow> GroupVersionKind option" where
  "dec_GroupVersionKind =
     decode_struct [''group'', ''version'', ''kind'', ''plural'']
       (\<lambda>n v g. if n = ''group'' then map_option (\<lambda>s. g\<lparr>g_Group := s\<rparr>) (decode_string v (g_Group g))
                else if n = ''version'' then map_option (\<lambda>s. g\<lparr>g_Version := s\<rparr>) (decode_string v (g_Version g))
                else if n = ''kind'' then map_option (\<lambda>s. g\<lparr>g_Kind := s\<rparr>) (decode_string v (g_Kind g))
                else map_option (\<lambda>s. g\<lparr>g_Plural := s\<rparr>) (decode_string v (g_Plural g)))
       \<lparr>g_Group = [], g_Version = [], g_Kind = [], g_Plural = []\<rparr>"

section \<open>From an index to messages\<close>

datatype api_error = ApiParse parse_error | NotOnePackage nat | MultipleSkipRanges
  | DependencyInvalid | ApiPanic go_panic | BuildPanic build_error | CsvInvalid

definition api_parseProperties :: "Property list \<Rightarrow> api_error + Properties" where
  "api_parseProperties ps =
     (case Parse ps of
        Inl e \<Rightarrow> Inl (ApiParse e)
      | Inr props \<Rightarrow>
          if length (Packages props) \<noteq> 1 then Inl (NotOnePackage (length (Packages props)))
          else if length (SkipRanges props) > 1 then Inl MultipleSkipRanges
          else Inr props)"

definition gvksProvidedtoAPIGVKs :: "GVK list \<Rightarrow> GroupVersionKind list" where
  "gvksProvidedtoAPIGVKs gvks =
     map (\<lambda>g. \<lparr>g_Group = gvk_Group g, g_Version = gvk_Version g, g_Kind = gvk_Kind g, g_Plural = []\<rparr>) gvks"

definition gvksRequirestoAPIGVKs :: "GVKRequired list \<Rightarrow> GroupVersionKind list" where
  "gvksRequirestoAPIGVKs gvks =
     map (\<lambda>g. \<lparr>g_Group = gvkr_Group g, g_Version = gvkr_Version g, g_Kind = gvkr_Kind g, g_Plural = []\<rparr>) gvks"

definition convertModelPropertiesToAPIProperties :: "Property list \<Rightarrow> ApiProperty list" where
  "convertModelPropertiesToAPIProperties props =
     map (\<lambda>p. \<lparr>ap_Type = p_Type p, ap_Value = raw_bytes (p_Value p)\<rparr>)
       (filter (\<lambda>p. p_Type p \<noteq> TypeBundleObject) props)"

definition must_build :: "build_error panic + 'a \<Rightarrow> api_error + 'a" where
  "must_build r = (case r of Inl (Panic e) \<Rightarrow> Inl (BuildPanic e) | Inr x \<Rightarrow> Inr x)"

fun convertModelPropertiesToAPIDependencies :: "Property list \<Rightarrow> api_error + ApiDependency list" where
  "convertModelPropertiesToAPIDependencies [] = Inr []"
| "convertModelPropertiesToAPIDependencies (prop # props) =
     bindr
       (if p_Type prop = TypeGVKRequired then Inr [\<lparr>ad_Type = TypeGVK, ad_Value = raw_bytes (p_Value prop)\<rparr>]
        else if p_Type prop = TypePackageRequired then
          (case unmarshal dec_PackageRequired (p_Value prop) of
             None \<Rightarrow> Inl DependencyInvalid
           | Some v \<Rightarrow>
               bindr (must_build (MustBuildPackage scheme_init (req_PackageName v) (req_VersionRange v))) (\<lambda>pkg.
               Inr [\<lparr>ad_Type = p_Type pkg, ad_Value = raw_bytes (p_Value pkg)\<rparr>]))
        else Inr [])
       (\<lambda>ds. bindr (convertModelPropertiesToAPIDependencies props) (\<lambda>rest. Inr (ds @ rest)))"

abbreviation api_panic :: "go_panic + 'a \<Rightarrow> api_error + 'a" where
  "api_panic \<equiv> map_sum ApiPanic id"

definition ConvertModelBundleToAPIBundle :: "heap \<Rightarrow> ModelBundle \<Rightarrow> api_error + ApiBundle" where
  "ConvertModelBundleToAPIBundle h b =
     bindr (api_parseProperties (mb_Properties b)) (\<lambda>props.
     let skipRange = (if SkipRanges props \<noteq> [] then hd (SkipRanges props) else [])
     in
     bindr (convertModelPropertiesToAPIDependencies (mb_Properties b)) (\<lambda>apiDeps.
     bindr (api_panic (deref_opt (h_pkg h) (mb_Package b))) (\<lambda>pk.
     bindr (api_panic (deref_opt (h_ch h) (mb_Channel b))) (\<lambda>ch.
     Inr \<lparr>ab_CsvName = mb_Name b, ab_PackageName = mp_Name pk, ab_ChannelName = mc_Name ch,
          ab_CsvJson = mb_CsvJSON b, ab_Object = mb_Objects b, ab_BundlePath = mb_Image b,
          ab_ProvidedApis = gvksProvidedtoAPIGVKs (GVKs props),
          ab_RequiredApis = gvksRequirestoAPIGVKs (GVKsRequired props),
          ab_Version = pkg_Version (hd (Packages props)), ab_SkipRange = skipRange, ab_Dependencies = apiDeps,
          ab_Properties = convertModelPropertiesToAPIProperties (mb_Properties b),
          ab_Replaces = mb_Replaces b, ab_Skips = mb_Skips b\<rparr>))))"

section \<open>From messages to an index\<close>

text \<open>The state of the loops: the properties collected, the two sets of APIs, and the flag.\<close>

record conv =
  cv_out :: "Property list"
  cv_provided :: "GVK list"
  cv_required :: "GVKRequired list"
  cv_found :: bool

definition add_key :: "'a \<Rightarrow> 'a list \<Rightarrow> 'a list" where
  "add_key k ks = (if k \<in> set ks then ks else ks @ [k])"

definition api_gvk :: "GroupVersionKind \<Rightarrow> GVK" where
  "api_gvk g = \<lparr>gvk_Group = g_Group g, gvk_Kind = g_Kind g, gvk_Version = g_Version g\<rparr>"

definition api_gvkr :: "GroupVersionKind \<Rightarrow> GVKRequired" where
  "api_gvkr g = \<lparr>gvkr_Group = g_Group g, gvkr_Kind = g_Kind g, gvkr_Version = g_Version g\<rparr>"

fun convert_properties :: "nat \<Rightarrow> ApiProperty list \<Rightarrow> conv \<Rightarrow> api_error + conv" where
  "convert_properties i [] c = Inr c"
| "convert_properties i (p # ps) c =
     bindr
       (if ap_Type p = TypeGVK then
          (case unmarshal dec_GroupVersionKind (Some (ap_Value p)) of
             None \<Rightarrow> Inl (ApiParse (ParseError i (ap_Type p)))
           | Some v \<Rightarrow> Inr (c\<lparr>cv_provided := add_key (api_gvk v) (cv_provided c)\<rparr>))
        else if ap_Type p = TypePackage then
          Inr (c\<lparr>cv_found := True, cv_out := cv_out c @ [\<lparr>p_Type = TypePackage, p_Value = Some (ap_Value p)\<rparr>]\<rparr>)
        else Inr (c\<lparr>cv_out := cv_out c @ [\<lparr>p_Type = ap_Type p, p_Value = Some (ap_Value p)\<rparr>]\<rparr>))
       (convert_properties (Suc i) ps)"

fun convert_dependencies :: "nat \<Rightarrow> ApiDependency list \<Rightarrow> conv \<Rightarrow> api_error + conv" where
  "convert_dependencies i [] c = Inr c"
| "convert_dependencies i (p # ps) c =
     bindr
       (if ad_Type p = TypeGVK then
          (case unmarshal dec_GroupVersionKind (Some (ad_Value p)) of
             None \<Rightarrow> Inl (ApiParse (ParseError i (ad_Type p)))
           | Some v \<Rightarrow> Inr (c\<lparr>cv_required := add_key (api_gvkr v) (cv_required c)\<rparr>))
        else if ad_Type p = TypePackage then
          (case unmarshal dec_Package (Some (ad_Value p)) of
             None \<Rightarrow> Inl (ApiParse (ParseError i (ad_Type p)))
           | Some v \<Rightarrow>
               bindr (must_build (MustBuildPackageRequired scheme_init (pkg_PackageName v) (pkg_Version v))) (\<lambda>r.
               Inr (c\<lparr>cv_out := cv_out c @ [r]\<rparr>)))
        else Inr c)
       (convert_dependencies (Suc i) ps)"

definition convertAPIBundleToModelProperties :: "ApiBundle \<Rightarrow> api_error + Property list" where
  "convertAPIBundleToModelProperties b =
     bindr (mapM (\<lambda>s. must_build (MustBuildSkips scheme_init s)) (ab_Skips b)) (\<lambda>skips.
     bindr (if ab_SkipRange b \<noteq> []
            then bindr (must_build (MustBuildSkipRange scheme_init (ab_SkipRange b))) (\<lambda>r. Inr [r]) else Inr []) (\<lambda>ranges.
     bindr (must_build (MustBuildChannel scheme_init (ab_ChannelName b) (ab_Replaces b))) (\<lambda>chan.
     bindr (convert_properties 0 (ab_Properties b)
              \<lparr>cv_out = skips @ ranges @ [chan], cv_provided = [], cv_required = [], cv_found = False\<rparr>) (\<lambda>c1.
     bindr (convert_dependencies 0 (ab_Dependencies b) c1) (\<lambda>c2.
     bindr (if \<not> cv_found c2
            then bindr (must_build (MustBuildPackage scheme_init (ab_PackageName b) (ab_Version b))) (\<lambda>r. Inr [r])
            else Inr []) (\<lambda>pkg.
     let provided = fold (\<lambda>g. add_key (api_gvk g)) (ab_ProvidedApis b) (cv_provided c2);
         required = fold (\<lambda>g. add_key (api_gvkr g)) (ab_RequiredApis b) (cv_required c2)
     in
     bindr (mapM (\<lambda>g. must_build (MustBuildGVK scheme_init (gvk_Group g) (gvk_Version g) (gvk_Kind g))) provided) (\<lambda>ps.
     bindr (mapM (\<lambda>g. must_build (MustBuildGVKRequired scheme_init (gvkr_Group g) (gvkr_Version g) (gvkr_Kind g))) required) (\<lambda>rs.
     bindr (mapM (\<lambda>obj. must_build (MustBuildBundleObjectData scheme_init obj)) (ab_Object b)) (\<lambda>objs.
     Inr (sort_Slice dedup_key (cv_out c2 @ pkg @ ps @ rs @ objs)))))))))))"

definition dec_related_image :: "RelatedImage \<Rightarrow> json \<Rightarrow> RelatedImage option" where
  "dec_related_image =
     decode_struct [''name'', ''image'']
       (\<lambda>n v r. if n = ''name'' then map_option (\<lambda>s. r\<lparr>ri_Name := s\<rparr>) (decode_string v (ri_Name r))
                else map_option (\<lambda>s. r\<lparr>ri_Image := s\<rparr>) (decode_string v (ri_Image r)))"

definition dec_csv_images :: "json \<Rightarrow> RelatedImage list option" where
  "dec_csv_images =
     decode_struct [''spec'']
       (\<lambda>_ v ris.
          decode_struct [''relatedImages'']
            (\<lambda>_ w old. decode_array dec_related_image \<lparr>ri_Name = [], ri_Image = []\<rparr> w old) ris v) []"

definition getRelatedImages :: "string \<Rightarrow> api_error + RelatedImage list" where
  "getRelatedImages csvJSON =
     (if csvJSON = [] then Inr [] else of_option CsvInvalid (unmarshal dec_csv_images (Some csvJSON)))"

definition ConvertAPIBundleToModelBundle :: "ApiBundle \<Rightarrow> api_error + ModelBundle" where
  "ConvertAPIBundleToModelBundle b =
     bindr (convertAPIBundleToModelProperties b) (\<lambda>bundleProps.
     bindr (getRelatedImages (ab_CsvJson b)) (\<lambda>relatedImages.
     Inr \<lparr>mb_Package = None, mb_Channel = None, mb_Name = ab_CsvName b, mb_Image = ab_BundlePath b,
          mb_Replaces = ab_Replaces b, mb_Skips = ab_Skips b, mb_Properties = bundleProps,
          mb_RelatedImages = relatedImages, mb_Objects = ab_Object b, mb_CsvJSON = ab_CsvJson b\<rparr>))"

section \<open>What a message becomes\<close>

lemma must_build_built: "iface_ok v \<Longrightarrow> must_build (MustBuild scheme_init v) = Inr (built v)"
  by (simp add: must_build_def MustBuild_def Build_built)

lemma add_key_props [simp]: "set (add_key k ks) = insert k (set ks)" "distinct (add_key k ks) \<longleftrightarrow> distinct ks"
  by (auto simp: add_key_def)

lemma fold_add_key:
  "set (fold (\<lambda>g. add_key (f g)) gs ks) = f ` set gs \<union> set ks"
  "distinct (fold (\<lambda>g. add_key (f g)) gs ks) \<longleftrightarrow> distinct ks"
  by (induction gs arbitrary: ks) auto

text \<open>The values the message states, typed, and the properties it keeps as they are.\<close>

definition prop_gvks :: "ApiBundle \<Rightarrow> GroupVersionKind option list" where
  "prop_gvks b = map (\<lambda>p. unmarshal dec_GroupVersionKind (Some (ap_Value p))) (filter (\<lambda>p. ap_Type p = TypeGVK) (ab_Properties b))"

definition dep_gvks :: "ApiBundle \<Rightarrow> GroupVersionKind option list" where
  "dep_gvks b = map (\<lambda>p. unmarshal dec_GroupVersionKind (Some (ad_Value p))) (filter (\<lambda>p. ad_Type p = TypeGVK) (ab_Dependencies b))"

definition dep_packages :: "ApiBundle \<Rightarrow> Package option list" where
  "dep_packages b = map (\<lambda>p. unmarshal dec_Package (Some (ad_Value p))) (filter (\<lambda>p. ad_Type p = TypePackage) (ab_Dependencies b))"

definition provided_apis :: "ApiBundle \<Rightarrow> GVK set" where
  "provided_apis b = api_gvk ` (the ` set (prop_gvks b) \<union> set (ab_ProvidedApis b))"

definition required_apis :: "ApiBundle \<Rightarrow> GVKRequired set" where
  "required_apis b = api_gvkr ` (the ` set (dep_gvks b) \<union> set (ab_RequiredApis b))"

definition required_package :: "Package option \<Rightarrow> PackageRequired" where
  "required_package v = \<lparr>req_PackageName = pkg_PackageName (the v), req_VersionRange = pkg_Version (the v)\<rparr>"

definition api_kept :: "ApiBundle \<Rightarrow> Property list" where
  "api_kept b = map (\<lambda>p. \<lparr>p_Type = ap_Type p, p_Value = Some (ap_Value p)\<rparr>) (filter (\<lambda>p. ap_Type p \<noteq> TypeGVK) (ab_Properties b))"

definition api_stated :: "ApiBundle \<Rightarrow> iface list" where
  "api_stated b =
     map ISkips (ab_Skips b)
     @ (if ab_SkipRange b = [] then [] else [ISkipRange (ab_SkipRange b)])
     @ [IChannel \<lparr>chan_Name = ab_ChannelName b, chan_Replaces = ab_Replaces b\<rparr>]
     @ map (IPackageRequired \<circ> required_package) (dep_packages b)
     @ (if TypePackage \<in> ap_Type ` set (ab_Properties b) then []
        else [IPackage \<lparr>pkg_PackageName = ab_PackageName b, pkg_Version = ab_Version b\<rparr>])
     @ map (\<lambda>d. IBundleObject \<lparr>f_ref = [], f_data = d\<rparr>) (ab_Object b)"

definition api_ok :: "ApiBundle \<Rightarrow> bool" where
  "api_ok b \<longleftrightarrow>
     None \<notin> set (prop_gvks b) \<and> None \<notin> set (dep_gvks b) \<and> None \<notin> set (dep_packages b)
     \<and> list_all iface_ok (api_stated b) \<and> Ball (provided_apis b) ok_GVK \<and> Ball (required_apis b) ok_GVKRequired"

lemma convert_properties_ok:
  assumes "\<forall>p \<in> set ps. ap_Type p = TypeGVK \<longrightarrow> unmarshal dec_GroupVersionKind (Some (ap_Value p)) \<noteq> None"
    and "distinct (cv_provided c)"
  shows "\<exists>c'. convert_properties i ps c = Inr c'
    \<and> cv_out c' = cv_out c @ map (\<lambda>p. \<lparr>p_Type = ap_Type p, p_Value = Some (ap_Value p)\<rparr>) (filter (\<lambda>p. ap_Type p \<noteq> TypeGVK) ps)
    \<and> set (cv_provided c') = set (cv_provided c)
        \<union> (\<lambda>p. api_gvk (the (unmarshal dec_GroupVersionKind (Some (ap_Value p))))) ` set (filter (\<lambda>p. ap_Type p = TypeGVK) ps)
    \<and> distinct (cv_provided c') \<and> cv_required c' = cv_required c
    \<and> (cv_found c' \<longleftrightarrow> cv_found c \<or> TypePackage \<in> ap_Type ` set ps)"
  using assms
proof (induction ps arbitrary: i c)
  case (Cons p ps)
  consider v where "ap_Type p = TypeGVK" "unmarshal dec_GroupVersionKind (Some (ap_Value p)) = Some v"
    | "ap_Type p = TypePackage" | "ap_Type p \<noteq> TypeGVK" "ap_Type p \<noteq> TypePackage"
    using Cons.prems(1) by fastforce
  then show ?case
  proof cases
    case 1
    with Cons.IH [of "c\<lparr>cv_provided := add_key (api_gvk v) (cv_provided c)\<rparr>" "Suc i"] Cons.prems
    show ?thesis by (auto simp del: set_filter)
  next
    case 2
    with Cons.IH [of "c\<lparr>cv_found := True, cv_out := cv_out c @ [\<lparr>p_Type = TypePackage, p_Value = Some (ap_Value p)\<rparr>]\<rparr>" "Suc i"]
      Cons.prems show ?thesis by (auto simp del: set_filter)
  next
    case 3
    with Cons.IH [of "c\<lparr>cv_out := cv_out c @ [\<lparr>p_Type = ap_Type p, p_Value = Some (ap_Value p)\<rparr>]\<rparr>" "Suc i"]
      Cons.prems show ?thesis by (auto simp del: set_filter)
  qed
qed simp

lemma convert_dependencies_ok:
  assumes "\<forall>p \<in> set ps. ad_Type p = TypeGVK \<longrightarrow> unmarshal dec_GroupVersionKind (Some (ad_Value p)) \<noteq> None"
    and "\<forall>p \<in> set ps. ad_Type p = TypePackage \<longrightarrow>
      (\<exists>v. unmarshal dec_Package (Some (ad_Value p)) = Some v \<and> iface_ok (IPackageRequired (required_package (Some v))))"
    and "distinct (cv_required c)"
  shows "\<exists>c'. convert_dependencies i ps c = Inr c'
    \<and> cv_out c' = cv_out c @ map (\<lambda>p. built (IPackageRequired (required_package (unmarshal dec_Package (Some (ad_Value p))))))
         (filter (\<lambda>p. ad_Type p = TypePackage) ps)
    \<and> set (cv_required c') = set (cv_required c)
        \<union> (\<lambda>p. api_gvkr (the (unmarshal dec_GroupVersionKind (Some (ad_Value p))))) ` set (filter (\<lambda>p. ad_Type p = TypeGVK) ps)
    \<and> distinct (cv_required c') \<and> cv_provided c' = cv_provided c \<and> cv_found c' = cv_found c"
  using assms
proof (induction ps arbitrary: i c)
  case (Cons p ps)
  consider v where "ad_Type p = TypeGVK" "unmarshal dec_GroupVersionKind (Some (ad_Value p)) = Some v"
    | v where "ad_Type p = TypePackage" "unmarshal dec_Package (Some (ad_Value p)) = Some v"
        "iface_ok (IPackageRequired (required_package (Some v)))"
    | "ad_Type p \<noteq> TypeGVK" "ad_Type p \<noteq> TypePackage"
    using Cons.prems(1,2) by fastforce
  then show ?case
  proof cases
    case 1
    with Cons.IH [of "c\<lparr>cv_required := add_key (api_gvkr v) (cv_required c)\<rparr>" "Suc i"] Cons.prems
    show ?thesis by (auto simp del: set_filter)
  next
    case 2
    have "must_build (MustBuildPackageRequired scheme_init (pkg_PackageName v) (pkg_Version v))
        = Inr (built (IPackageRequired (required_package (Some v))))"
      using must_build_built [OF 2(3)] by (simp add: MustBuildPackageRequired_def required_package_def)
    with 2 Cons.IH [of "c\<lparr>cv_out := cv_out c @ [built (IPackageRequired (required_package (Some v)))]\<rparr>" "Suc i"]
      Cons.prems show ?thesis by (auto simp del: set_filter)
  next
    case 3
    with Cons.IH [of c "Suc i"] Cons.prems show ?thesis by (auto simp del: set_filter)
  qed
qed simp

text \<open>The stages of the conversion, for a message that satisfies \<open>api_ok\<close>.\<close>

definition head_stated :: "ApiBundle \<Rightarrow> iface list" where
  "head_stated b =
     map ISkips (ab_Skips b) @ (if ab_SkipRange b = [] then [] else [ISkipRange (ab_SkipRange b)])
     @ [IChannel \<lparr>chan_Name = ab_ChannelName b, chan_Replaces = ab_Replaces b\<rparr>]"

lemma api_stated_ok: "api_ok b \<Longrightarrow> v \<in> set (api_stated b) \<Longrightarrow> iface_ok v"
  by (simp add: api_ok_def list_all_iff)

lemma properties_stage:
  assumes "api_ok b"
  obtains c where "convert_properties 0 (ab_Properties b)
      \<lparr>cv_out = out, cv_provided = [], cv_required = [], cv_found = False\<rparr> = Inr c"
    "cv_out c = out @ api_kept b" "set (cv_provided c) = api_gvk ` the ` set (prop_gvks b)" "distinct (cv_provided c)"
    "cv_required c = []" "cv_found c \<longleftrightarrow> TypePackage \<in> ap_Type ` set (ab_Properties b)"
proof -
  have "\<forall>p \<in> set (ab_Properties b). ap_Type p = TypeGVK \<longrightarrow> unmarshal dec_GroupVersionKind (Some (ap_Value p)) \<noteq> None"
    using assms by (force simp: api_ok_def prop_gvks_def)
  from convert_properties_ok [OF this, of "\<lparr>cv_out = out, cv_provided = [], cv_required = [], cv_found = False\<rparr>" 0]
  obtain c where "convert_properties 0 (ab_Properties b)
      \<lparr>cv_out = out, cv_provided = [], cv_required = [], cv_found = False\<rparr> = Inr c"
    "cv_out c = out @ api_kept b"
    "set (cv_provided c) = (\<lambda>p. api_gvk (the (unmarshal dec_GroupVersionKind (Some (ap_Value p)))))
       ` set (filter (\<lambda>p. ap_Type p = TypeGVK) (ab_Properties b))"
    "distinct (cv_provided c)" "cv_required c = []" "cv_found c \<longleftrightarrow> TypePackage \<in> ap_Type ` set (ab_Properties b)"
    by (auto simp: api_kept_def simp del: set_filter)
  then show thesis using that [of c] by (simp add: prop_gvks_def image_image del: set_filter)
qed

lemma dependencies_stage:
  assumes "api_ok b" "cv_required c = []"
  obtains c' where "convert_dependencies 0 (ab_Dependencies b) c = Inr c'"
    "cv_out c' = cv_out c @ map (built \<circ> IPackageRequired \<circ> required_package) (dep_packages b)"
    "set (cv_required c') = api_gvkr ` the ` set (dep_gvks b)" "distinct (cv_required c')"
    "cv_provided c' = cv_provided c" "cv_found c' = cv_found c"
proof -
  have g: "\<forall>p \<in> set (ab_Dependencies b). ad_Type p = TypeGVK \<longrightarrow> unmarshal dec_GroupVersionKind (Some (ad_Value p)) \<noteq> None"
    using assms(1) by (force simp: api_ok_def dep_gvks_def)
  have "\<exists>v. unmarshal dec_Package (Some (ad_Value p)) = Some v \<and> iface_ok (IPackageRequired (required_package (Some v)))"
    if "p \<in> set (ab_Dependencies b)" "ad_Type p = TypePackage" for p
  proof -
    have mem: "unmarshal dec_Package (Some (ad_Value p)) \<in> set (dep_packages b)"
      using that by (force simp: dep_packages_def)
    then obtain v where v: "unmarshal dec_Package (Some (ad_Value p)) = Some v"
      using assms(1) by (metis api_ok_def not_None_eq)
    have "IPackageRequired (required_package (Some v)) \<in> set (api_stated b)"
      using mem v by (force simp: api_stated_def)
    with v show ?thesis using api_stated_ok [OF assms(1)] by blast
  qed
  then have p: "\<forall>p \<in> set (ab_Dependencies b). ad_Type p = TypePackage \<longrightarrow>
      (\<exists>v. unmarshal dec_Package (Some (ad_Value p)) = Some v \<and> iface_ok (IPackageRequired (required_package (Some v))))"
    by blast
  from convert_dependencies_ok [OF g p, of c 0] assms(2)
  obtain c' where "convert_dependencies 0 (ab_Dependencies b) c = Inr c'"
    "cv_out c' = cv_out c @ map (\<lambda>p. built (IPackageRequired (required_package (unmarshal dec_Package (Some (ad_Value p))))))
       (filter (\<lambda>p. ad_Type p = TypePackage) (ab_Dependencies b))"
    "set (cv_required c') = (\<lambda>p. api_gvkr (the (unmarshal dec_GroupVersionKind (Some (ad_Value p)))))
       ` set (filter (\<lambda>p. ad_Type p = TypeGVK) (ab_Dependencies b))"
    "distinct (cv_required c')" "cv_provided c' = cv_provided c" "cv_found c' = cv_found c"
    by (auto simp del: set_filter)
  then show thesis
    using that [of c'] by (simp add: dep_packages_def dep_gvks_def image_image comp_def del: set_filter)
qed

lemma gvk_eta [simp]:
  "\<lparr>gvk_Group = gvk_Group g, gvk_Kind = gvk_Kind g, gvk_Version = gvk_Version g\<rparr> = g"
  "\<lparr>gvkr_Group = gvkr_Group r, gvkr_Kind = gvkr_Kind r, gvkr_Version = gvkr_Version r\<rparr> = r"
  by simp_all

lemma mset_eq_mset_set: "distinct xs \<Longrightarrow> set xs = A \<Longrightarrow> mset xs = mset_set A"
  by (auto simp: mset_set_set)

text \<open>
  C12: Unless a GVK property or a dependency of the message does not decode, converting a bundle message
  succeeds: the result is sorted by type and value and has exactly the properties of the message
  other than GVKs, one property for each value the message states elsewhere (the package only if no
  property states it), and one for each API provided or required, however often it is stated.
\<close>

theorem convertAPIBundleToModelProperties_spec:
  assumes ok: "api_ok b"
  shows "\<exists>ps. convertAPIBundleToModelProperties b = Inr ps \<and> sorted (map dedup_key ps)
    \<and> mset ps = mset (api_kept b) + image_mset built (mset (api_stated b)
        + image_mset IGVK (mset_set (provided_apis b)) + image_mset IGVKRequired (mset_set (required_apis b)))"
proof -
  note build = must_build_built api_stated_ok [OF ok] api_stated_def
  have skips: "mapM (\<lambda>s. must_build (MustBuildSkips scheme_init s)) (ab_Skips b) = Inr (map (built \<circ> ISkips) (ab_Skips b))"
    by (rule mapM_total) (simp add: MustBuildSkips_def build)
  have range: "must_build (MustBuildSkipRange scheme_init (ab_SkipRange b)) = Inr (built (ISkipRange (ab_SkipRange b)))"
    if "ab_SkipRange b \<noteq> []" using that by (simp add: MustBuildSkipRange_def build)
  have chan: "must_build (MustBuildChannel scheme_init (ab_ChannelName b) (ab_Replaces b))
      = Inr (built (IChannel \<lparr>chan_Name = ab_ChannelName b, chan_Replaces = ab_Replaces b\<rparr>))"
    by (simp add: MustBuildChannel_def build)
  have pkg: "must_build (MustBuildPackage scheme_init (ab_PackageName b) (ab_Version b))
      = Inr (built (IPackage \<lparr>pkg_PackageName = ab_PackageName b, pkg_Version = ab_Version b\<rparr>))"
    if "TypePackage \<notin> ap_Type ` set (ab_Properties b)" using that by (simp add: MustBuildPackage_def build)
  have objs: "mapM (\<lambda>obj. must_build (MustBuildBundleObjectData scheme_init obj)) (ab_Object b)
      = Inr (map (\<lambda>d. built (IBundleObject \<lparr>f_ref = [], f_data = d\<rparr>)) (ab_Object b))"
    by (rule mapM_total) (simp add: MustBuildBundleObjectData_def build)
  obtain c1 where c1: "convert_properties 0 (ab_Properties b)
      \<lparr>cv_out = map built (head_stated b), cv_provided = [], cv_required = [], cv_found = False\<rparr> = Inr c1"
    "cv_out c1 = map built (head_stated b) @ api_kept b" "set (cv_provided c1) = api_gvk ` the ` set (prop_gvks b)"
    "distinct (cv_provided c1)" "cv_required c1 = []" "cv_found c1 \<longleftrightarrow> TypePackage \<in> ap_Type ` set (ab_Properties b)"
    using properties_stage [OF ok] .
  obtain c2 where c2: "convert_dependencies 0 (ab_Dependencies b) c1 = Inr c2"
    "cv_out c2 = cv_out c1 @ map (built \<circ> IPackageRequired \<circ> required_package) (dep_packages b)"
    "set (cv_required c2) = api_gvkr ` the ` set (dep_gvks b)" "distinct (cv_required c2)"
    "cv_provided c2 = cv_provided c1" "cv_found c2 = cv_found c1"
    using dependencies_stage [OF ok c1(5)] .
  let ?ps = "fold (\<lambda>g. add_key (api_gvk g)) (ab_ProvidedApis b) (cv_provided c2)"
  let ?rs = "fold (\<lambda>g. add_key (api_gvkr g)) (ab_RequiredApis b) (cv_required c2)"
  have sets: "set ?ps = provided_apis b" "distinct ?ps" "set ?rs = required_apis b" "distinct ?rs"
    by (auto simp: fold_add_key provided_apis_def required_apis_def c1 c2)
  have ps: "mapM (\<lambda>g. must_build (MustBuildGVK scheme_init (gvk_Group g) (gvk_Version g) (gvk_Kind g))) ?ps
      = Inr (map (built \<circ> IGVK) ?ps)"
    by (rule mapM_total) (use ok in \<open>simp add: MustBuildGVK_def must_build_built sets api_ok_def iface_ok_def\<close>)
  have rs: "mapM (\<lambda>g. must_build (MustBuildGVKRequired scheme_init (gvkr_Group g) (gvkr_Version g) (gvkr_Kind g))) ?rs
      = Inr (map (built \<circ> IGVKRequired) ?rs)"
    by (rule mapM_total) (use ok in \<open>simp add: MustBuildGVKRequired_def must_build_built sets api_ok_def iface_ok_def\<close>)
  let ?pkg = "if TypePackage \<in> ap_Type ` set (ab_Properties b) then []
    else [built (IPackage \<lparr>pkg_PackageName = ab_PackageName b, pkg_Version = ab_Version b\<rparr>)]"
  have "convertAPIBundleToModelProperties b = Inr (sort_Slice dedup_key (cv_out c2 @ ?pkg
      @ map (built \<circ> IGVK) ?ps @ map (built \<circ> IGVKRequired) ?rs
      @ map (\<lambda>d. built (IBundleObject \<lparr>f_ref = [], f_data = d\<rparr>)) (ab_Object b)))"
    using c1(1) pkg range
    by (cases "ab_SkipRange b = []"; cases "TypePackage \<in> ap_Type ` set (ab_Properties b)")
      (simp_all add: convertAPIBundleToModelProperties_def Let_def skips chan objs ps rs c1(6) c2(1,6) head_stated_def)
  moreover have "mset ?ps = mset_set (provided_apis b)" "mset ?rs = mset_set (required_apis b)"
    using sets by (auto intro: mset_eq_mset_set)
  ultimately show ?thesis
    by (simp add: c1(2) c2(2) api_stated_def head_stated_def multiset.map_comp comp_def)
qed

definition sample_gvk :: GroupVersionKind where
  "sample_gvk = \<lparr>g_Group = ''g'', g_Version = ''v1'', g_Kind = ''K'', g_Plural = []\<rparr>"

definition sample_api :: ApiBundle where
  "sample_api =
     \<lparr>ab_CsvName = ''b'', ab_PackageName = ''p'', ab_ChannelName = ''a'', ab_CsvJson = [], ab_Object = [],
      ab_BundlePath = ''i'', ab_ProvidedApis = [sample_gvk], ab_RequiredApis = [], ab_Version = ''1'', ab_SkipRange = [],
      ab_Dependencies = [],
      ab_Properties = [\<lparr>ap_Type = TypeGVK, ap_Value = json_print False (enc_GVK (api_gvk sample_gvk))\<rparr>],
      ab_Replaces = [], ab_Skips = [''x'', ''w'']\<rparr>"

lemma sample_api_gvks: "prop_gvks sample_api = [Some sample_gvk]"
proof -
  have "unmarshal dec_GroupVersionKind (Some (json_print False (enc_GVK (api_gvk sample_gvk)))) = Some sample_gvk"
    by code_simp
  then show ?thesis by (simp add: prop_gvks_def sample_api_def)
qed

lemma sample_api_ok: "api_ok sample_api"
  by (simp add: api_ok_def sample_api_gvks provided_apis_def)
    (simp add: sample_api_def dep_gvks_def dep_packages_def api_stated_def required_apis_def iface_ok_def api_gvk_def
      ok_Channel_def ok_Package_def ok_GVK_def sample_gvk_def valid_utf8_literal byte_def)

theorem convertAPIBundleToModelProperties_spec_witness:
  "\<exists>ps. convertAPIBundleToModelProperties sample_api = Inr ps \<and> sorted (map dedup_key ps)
    \<and> mset ps = image_mset built {#IGVK (api_gvk sample_gvk), ISkips ''x'', ISkips ''w'',
        IChannel \<lparr>chan_Name = ''a'', chan_Replaces = []\<rparr>, IPackage \<lparr>pkg_PackageName = ''p'', pkg_Version = ''1''\<rparr>#}"
  using convertAPIBundleToModelProperties_spec [OF sample_api_ok] unfolding provided_apis_def sample_api_gvks
  by (simp add: sample_api_def dep_gvks_def dep_packages_def api_stated_def api_kept_def required_apis_def)

end
