(* ===== verification/Querier.thy ===== *)
theory Querier
  imports Api
begin

text \<open>
  The in-memory query service of \<^verbatim>\<open>pkg/registry/query.go\<close> over an index, with the types of
  \<^verbatim>\<open>pkg/registry/types.go\<close> its answers have. The index is not changed by a query, so the heap is only read.
\<close>

section \<open>Types\<close>

record PackageChannel =
  pc_Name :: string
  pc_CurrentCSVName :: string

record PackageManifest =
  pm_PackageName :: string
  pm_Channels :: "PackageChannel list"
  pm_DefaultChannelName :: string

definition GetDefaultChannel :: "PackageManifest \<Rightarrow> string" where
  "GetDefaultChannel m =
     (if pm_DefaultChannelName m \<noteq> [] then pm_DefaultChannelName m
      else if length (pm_Channels m) = 1 then pc_Name (hd (pm_Channels m))
      else [])"

definition IsDefaultChannel :: "PackageChannel \<Rightarrow> PackageManifest \<Rightarrow> bool" where
  "IsDefaultChannel pc pm \<longleftrightarrow> pc_Name pc = pm_DefaultChannelName pm \<or> length (pm_Channels pm) = 1"

record ChannelEntry =
  ce_PackageName :: string
  ce_ChannelName :: string
  ce_BundleName :: string
  ce_Replaces :: string

section \<open>Queries\<close>

datatype query_error = PackageNotFound string | ChannelNotFound string string | BundleNotFound string string string
  | ConvertBundle string api_error | InvalidHead string string head_error | NoReplacement string
  | NoEntry string string | NoProvider string string string | QueryPanic go_panic

abbreviation q_panic :: "go_panic + 'a \<Rightarrow> query_error + 'a" where
  "q_panic \<equiv> map_sum QueryPanic id"

definition convert_bundle_q :: "heap \<Rightarrow> ModelBundle \<Rightarrow> query_error + ApiBundle" where
  "convert_bundle_q h b = map_sum (ConvertBundle (mb_Name b)) id (ConvertModelBundleToAPIBundle h b)"

definition ListPackages :: "Model \<Rightarrow> string list" where
  "ListPackages pkgs = map fst pkgs"

text \<open>\<^verbatim>\<open>out = append(out, f(x)...)\<close> for every \<open>x\<close>.\<close>

definition concatM :: "('a \<Rightarrow> 'e + 'b list) \<Rightarrow> 'a list \<Rightarrow> 'e + 'b list" where
  "concatM f xs = bindr (mapM f xs) (\<lambda>ys. Inr (concat ys))"

lemma concatM_set:
  assumes "concatM f xs = Inr ys"
  shows "y \<in> set ys \<longleftrightarrow> (\<exists>x \<in> set xs. \<exists>zs. f x = Inr zs \<and> y \<in> set zs)"
proof -
  obtain yss where "mapM f xs = Inr yss" "ys = concat yss" using assms by (auto simp: concatM_def)
  then show ?thesis using mapM_set [of f xs yss] by (simp only: set_concat UN_iff) blast
qed

lemma concatM_all: "concatM f xs = Inr ys \<Longrightarrow> x \<in> set xs \<Longrightarrow> \<exists>zs. f x = Inr zs"
  using mapM_Inr_ex [of f xs] by (auto simp: concatM_def)

lemma concatM_Inl: "concatM f xs = Inl e \<Longrightarrow> \<exists>x \<in> set xs. f x = Inl e"
  by (auto simp: concatM_def bindr_Inl dest!: mapM_Inl)

text \<open>The channels and the bundles of the index in the order of the nested loops.\<close>

definition each_channel ::
  "heap \<Rightarrow> Model \<Rightarrow> (ModelPackage \<Rightarrow> ModelChannel \<Rightarrow> query_error + 'a list) \<Rightarrow> query_error + 'a list" where
  "each_channel h pkgs f =
     concatM (\<lambda>e. bindr (q_panic (deref_pkg h (snd e))) (\<lambda>pkg.
       concatM (\<lambda>e. bindr (q_panic (deref_ch h (snd e))) (f pkg)) (entries (mp_Channels pkg)))) pkgs"

definition each_bundle :: "heap \<Rightarrow> Model \<Rightarrow> (ModelBundle \<Rightarrow> query_error + 'a list) \<Rightarrow> query_error + 'a list" where
  "each_bundle h pkgs f =
     each_channel h pkgs (\<lambda>_ ch. concatM (\<lambda>e. bindr (q_panic (deref_bun h (snd e))) f) (entries (mc_Bundles ch)))"

definition ListBundles :: "heap \<Rightarrow> Model \<Rightarrow> query_error + ApiBundle list" where
  "ListBundles h pkgs = each_bundle h pkgs (\<lambda>b. bindr (convert_bundle_q h b) (\<lambda>a. Inr [a]))"

definition head_q :: "heap \<Rightarrow> string \<Rightarrow> ModelChannel \<Rightarrow> query_error + ModelBundle" where
  "head_q h pkgName ch =
     bindr (q_panic (Channel_Head h ch)) (\<lambda>r.
       case r of
         Inl e \<Rightarrow> Inl (InvalidHead pkgName (mc_Name ch) e)
       | Inr a \<Rightarrow> q_panic (deref_bun h a))"

definition GetPackage :: "heap \<Rightarrow> Model \<Rightarrow> string \<Rightarrow> query_error + PackageManifest" where
  "GetPackage h pkgs name =
     (case gm_get pkgs name of
        None \<Rightarrow> Inl (PackageNotFound name)
      | Some a \<Rightarrow>
          bindr (q_panic (deref_pkg h a)) (\<lambda>pkg.
          bindr (mapM (\<lambda>e. bindr (q_panic (deref_ch h (snd e))) (\<lambda>ch.
                   bindr (head_q h name ch) (\<lambda>hd.
                   Inr \<lparr>pc_Name = mc_Name ch, pc_CurrentCSVName = mb_Name hd\<rparr>))) (entries (mp_Channels pkg))) (\<lambda>channels.
          bindr (q_panic (deref_opt (h_ch h) (mp_DefaultChannel pkg))) (\<lambda>dc.
          Inr \<lparr>pm_PackageName = mp_Name pkg, pm_Channels = channels, pm_DefaultChannelName = mc_Name dc\<rparr>))))"

definition find_channel_q :: "heap \<Rightarrow> Model \<Rightarrow> string \<Rightarrow> string \<Rightarrow> query_error + ModelChannel" where
  "find_channel_q h pkgs pkgName channelName =
     (case gm_get pkgs pkgName of
        None \<Rightarrow> Inl (PackageNotFound pkgName)
      | Some a \<Rightarrow>
          bindr (q_panic (deref_pkg h a)) (\<lambda>pkg.
          case gm_get (entries (mp_Channels pkg)) channelName of
            None \<Rightarrow> Inl (ChannelNotFound pkgName channelName)
          | Some c \<Rightarrow> q_panic (deref_ch h c)))"

definition unset_edges :: "ApiBundle \<Rightarrow> ApiBundle" where
  "unset_edges b = b\<lparr>ab_Replaces := [], ab_Skips := []\<rparr>"

definition GetBundle :: "heap \<Rightarrow> Model \<Rightarrow> string \<Rightarrow> string \<Rightarrow> string \<Rightarrow> query_error + ApiBundle" where
  "GetBundle h pkgs pkgName channelName csvName =
     bindr (find_channel_q h pkgs pkgName channelName) (\<lambda>ch.
       case gm_get (entries (mc_Bundles ch)) csvName of
         None \<Rightarrow> Inl (BundleNotFound pkgName channelName csvName)
       | Some a \<Rightarrow>
           bindr (q_panic (deref_bun h a)) (\<lambda>b.
           bindr (convert_bundle_q h b) (\<lambda>apiBundle. Inr (unset_edges apiBundle))))"

definition GetBundleForChannel :: "heap \<Rightarrow> Model \<Rightarrow> string \<Rightarrow> string \<Rightarrow> query_error + ApiBundle" where
  "GetBundleForChannel h pkgs pkgName channelName =
     bindr (find_channel_q h pkgs pkgName channelName) (\<lambda>ch.
     bindr (q_panic (Channel_Head h ch)) (\<lambda>r.
       case r of
         Inl e \<Rightarrow> Inl (InvalidHead pkgName channelName e)
       | Inr a \<Rightarrow>
           bindr (q_panic (deref_bun h a)) (\<lambda>b.
           bindr (convert_bundle_q h b) (\<lambda>apiBundle. Inr (unset_edges apiBundle)))))"

definition bundleReplaces :: "ModelBundle \<Rightarrow> string \<Rightarrow> bool" where
  "bundleReplaces b name \<longleftrightarrow> mb_Replaces b = name \<or> name \<in> set (mb_Skips b)"

definition bundle_entry :: "heap \<Rightarrow> ModelBundle \<Rightarrow> string \<Rightarrow> query_error + ChannelEntry" where
  "bundle_entry h b replaces =
     bindr (q_panic (deref_opt (h_pkg h) (mb_Package b))) (\<lambda>pk.
     bindr (q_panic (deref_opt (h_ch h) (mb_Channel b))) (\<lambda>ch.
     Inr \<lparr>ce_PackageName = mp_Name pk, ce_ChannelName = mc_Name ch, ce_BundleName = mb_Name b, ce_Replaces = replaces\<rparr>))"

definition channelEntriesThatReplace :: "heap \<Rightarrow> ModelBundle \<Rightarrow> string \<Rightarrow> query_error + ChannelEntry list" where
  "channelEntriesThatReplace h b name =
     mapM (\<lambda>_. bundle_entry h b (mb_Replaces b))
       ((if mb_Replaces b = name then [name] else [])
        @ filter (\<lambda>s. s = name \<and> s \<noteq> mb_Replaces b) (mb_Skips b))"

definition channelEntriesForBundle :: "heap \<Rightarrow> ModelBundle \<Rightarrow> bool \<Rightarrow> query_error + ChannelEntry list" where
  "channelEntriesForBundle h b ignoreChannel =
     bindr (bundle_entry h b (mb_Replaces b)) (\<lambda>e.
     bindr (q_panic (deref_opt (h_ch h) (mb_Channel b))) (\<lambda>ch.
     bindr (mapM (bundle_entry h b)
              (filter (\<lambda>s. s \<noteq> mb_Replaces b \<and> (ignoreChannel \<or> gm_has (entries (mc_Bundles ch)) s)) (mb_Skips b))) (\<lambda>es.
     Inr (e # es))))"

definition doesModelBundleProvide :: "heap \<Rightarrow> ModelBundle \<Rightarrow> string \<Rightarrow> string \<Rightarrow> string \<Rightarrow> query_error + bool" where
  "doesModelBundleProvide h b g v k =
     bindr (convert_bundle_q h b) (\<lambda>a.
     Inr (list_ex (\<lambda>x. g_Group x = g \<and> g_Version x = v \<and> g_Kind x = k) (ab_ProvidedApis a)))"

definition GetChannelEntriesThatReplace :: "heap \<Rightarrow> Model \<Rightarrow> string \<Rightarrow> query_error + ChannelEntry list" where
  "GetChannelEntriesThatReplace h pkgs name =
     bindr (each_bundle h pkgs (\<lambda>b. channelEntriesThatReplace h b name)) (\<lambda>es.
     if es = [] then Inl (NoReplacement name) else Inr es)"

fun find_replacing :: "heap \<Rightarrow> string \<Rightarrow> (string, addr) gomap \<Rightarrow> go_panic + ModelBundle option" where
  "find_replacing h name [] = Inr None"
| "find_replacing h name (e # es) =
     bindr (deref_bun h (snd e)) (\<lambda>b. if bundleReplaces b name then Inr (Some b) else find_replacing h name es)"

definition GetBundleThatReplaces :: "heap \<Rightarrow> Model \<Rightarrow> string \<Rightarrow> string \<Rightarrow> string \<Rightarrow> query_error + ApiBundle" where
  "GetBundleThatReplaces h pkgs name pkgName channelName =
     bindr (find_channel_q h pkgs pkgName channelName) (\<lambda>ch.
     bindr (q_panic (find_replacing h name (entries (mc_Bundles ch)))) (\<lambda>r.
       case r of
         None \<Rightarrow> Inl (NoEntry pkgName channelName)
       | Some b \<Rightarrow> bindr (convert_bundle_q h b) (\<lambda>apiBundle. Inr (unset_edges apiBundle))))"

definition GetChannelEntriesThatProvide ::
  "heap \<Rightarrow> Model \<Rightarrow> string \<Rightarrow> string \<Rightarrow> string \<Rightarrow> query_error + ChannelEntry list" where
  "GetChannelEntriesThatProvide h pkgs g v k =
     bindr (each_bundle h pkgs (\<lambda>b.
       bindr (doesModelBundleProvide h b g v k) (\<lambda>provides.
       if provides then channelEntriesForBundle h b True else Inr []))) (\<lambda>es.
     if es = [] then Inl (NoProvider g v k) else Inr es)"

definition GetLatestChannelEntriesThatProvide ::
  "heap \<Rightarrow> Model \<Rightarrow> string \<Rightarrow> string \<Rightarrow> string \<Rightarrow> query_error + ChannelEntry list" where
  "GetLatestChannelEntriesThatProvide h pkgs g v k =
     bindr (each_channel h pkgs (\<lambda>pkg ch.
       bindr (head_q h (mp_Name pkg) ch) (\<lambda>b.
       bindr (doesModelBundleProvide h b g v k) (\<lambda>provides.
       if provides then channelEntriesForBundle h b False else Inr [])))) (\<lambda>es.
     if es = [] then Inl (NoProvider g v k) else Inr es)"

fun first_default ::
  "heap \<Rightarrow> Model \<Rightarrow> (ChannelEntry \<Rightarrow> query_error + 'a) \<Rightarrow> query_error \<Rightarrow> ChannelEntry list \<Rightarrow> query_error + 'a" where
  "first_default h pkgs f err [] = Inl err"
| "first_default h pkgs f err (e # es) =
     (case gm_get pkgs (ce_PackageName e) of
        None \<Rightarrow> first_default h pkgs f err es
      | Some a \<Rightarrow>
          bindr (q_panic (deref_pkg h a)) (\<lambda>pkg.
          bindr (q_panic (deref_opt (h_ch h) (mp_DefaultChannel pkg))) (\<lambda>dc.
          if ce_ChannelName e = mc_Name dc then f e else first_default h pkgs f err es)))"

definition GetBundleThatProvides :: "heap \<Rightarrow> Model \<Rightarrow> string \<Rightarrow> string \<Rightarrow> string \<Rightarrow> query_error + ApiBundle" where
  "GetBundleThatProvides h pkgs g v k =
     bindr (GetLatestChannelEntriesThatProvide h pkgs g v k) (\<lambda>latest.
     first_default h pkgs
       (\<lambda>e. GetBundle h pkgs (ce_PackageName e) (ce_ChannelName e) (ce_BundleName e))
       (NoProvider g v k) (sort_Slice ce_PackageName latest))"

section \<open>The service over the content of the index\<close>

text \<open>The message of a bundle, from its content and the names of its package and channel.\<close>

definition message :: "string \<Rightarrow> string \<Rightarrow> ModelBundle \<Rightarrow> api_error + ApiBundle" where
  "message pn cn b =
     bindr (api_parseProperties (mb_Properties b)) (\<lambda>props.
     bindr (convertModelPropertiesToAPIDependencies (mb_Properties b)) (\<lambda>apiDeps.
     Inr \<lparr>ab_CsvName = mb_Name b, ab_PackageName = pn, ab_ChannelName = cn,
          ab_CsvJson = mb_CsvJSON b, ab_Object = mb_Objects b, ab_BundlePath = mb_Image b,
          ab_ProvidedApis = gvksProvidedtoAPIGVKs (GVKs props),
          ab_RequiredApis = gvksRequirestoAPIGVKs (GVKsRequired props),
          ab_Version = pkg_Version (hd (Packages props)),
          ab_SkipRange = (if SkipRanges props \<noteq> [] then hd (SkipRanges props) else []), ab_Dependencies = apiDeps,
          ab_Properties = convertModelPropertiesToAPIProperties (mb_Properties b),
          ab_Replaces = mb_Replaces b, ab_Skips = mb_Skips b\<rparr>))"

lemma message_links [simp]: "message pn cn (b\<lparr>mb_Package := p, mb_Channel := c\<rparr>) = message pn cn b"
  by (simp add: message_def)

text \<open>A bundle of a linked index, with the objects it is linked to.\<close>

definition at_bundle :: "heap \<Rightarrow> Model \<Rightarrow> string \<Rightarrow> string \<Rightarrow> string \<Rightarrow> ModelBundle \<Rightarrow> bool" where
  "at_bundle h m pn cn bn b \<longleftrightarrow>
     (\<exists>p pk c ch a. (pn, p) \<in> set m \<and> h_pkg h p = Some pk \<and> mp_Name pk = pn
        \<and> (cn, c) \<in> set (entries (mp_Channels pk)) \<and> h_ch h c = Some ch \<and> mc_Name ch = cn
        \<and> (bn, a) \<in> set (entries (mc_Bundles ch)) \<and> h_bun h a = Some b \<and> mb_Name b = bn
        \<and> mb_Package b = Some p \<and> mb_Channel b = Some c)"

lemma convert_at:
  assumes "at_bundle h m pn cn bn b"
  shows "convert_bundle_q h b = map_sum (ConvertBundle bn) id (message pn cn b)"
  using assms
  by (cases "api_parseProperties (mb_Properties b)"; cases "convertModelPropertiesToAPIDependencies (mb_Properties b)")
    (auto simp: at_bundle_def convert_bundle_q_def ConvertModelBundleToAPIBundle_def message_def deref_opt_def Let_def)

lemma entry_at:
  assumes "at_bundle h m pn cn bn b"
  shows "bundle_entry h b r = Inr \<lparr>ce_PackageName = pn, ce_ChannelName = cn, ce_BundleName = bn, ce_Replaces = r\<rparr>"
  using assms by (auto simp: at_bundle_def bundle_entry_def deref_opt_def)

lemma linked_channelD:
  assumes l: "linked h m" and "(pn, p) \<in> set m"
  obtains pk where "h_pkg h p = Some pk" "mp_Name pk = pn"
    "\<And>cn c. (cn, c) \<in> set (entries (mp_Channels pk)) \<Longrightarrow> channel_linked h p cn c" "gm_wf (entries (mp_Channels pk))"
proof -
  obtain pk where pk: "h_pkg h p = Some pk" "mp_Name pk = pn" using linkedD(4) [OF l assms(2)] by blast
  obtain cs where "mp_Channels pk = Some cs" "gm_wf cs" "\<forall>(k, c) \<in> set cs. channel_linked h p k c"
    using linkedD(3) [OF l assms(2)] pk by (auto simp: package_linked_def)
  then have "\<And>cn c. (cn, c) \<in> set (entries (mp_Channels pk)) \<Longrightarrow> channel_linked h p cn c" "gm_wf (entries (mp_Channels pk))"
    by auto
  with pk that show thesis by blast
qed

lemma channel_linkedD:
  assumes "channel_linked h p cn c"
  obtains ch where "h_ch h c = Some ch" "mc_Name ch = cn" "gm_wf (entries (mc_Bundles ch))"
    "\<And>bn a. (bn, a) \<in> set (entries (mc_Bundles ch)) \<Longrightarrow> bundle_linked h p c bn a"
proof -
  obtain ch bs where "h_ch h c = Some ch" "mc_Name ch = cn" "mc_Bundles ch = Some bs" "gm_wf bs"
    "\<forall>(k, b) \<in> set bs. bundle_linked h p c k b"
    using assms unfolding channel_linked_def by blast
  then show thesis using that [of ch] by auto
qed

lemma at_bundleI:
  assumes l: "linked h m" and "(pn, p) \<in> set m" "h_pkg h p = Some pk" "(cn, c) \<in> set (entries (mp_Channels pk))"
    "h_ch h c = Some ch" "(bn, a) \<in> set (entries (mc_Bundles ch))"
  obtains b where "h_bun h a = Some b" "at_bundle h m pn cn bn b"
proof -
  obtain pk' where pk': "h_pkg h p = Some pk'" "mp_Name pk' = pn"
    "\<And>cn c. (cn, c) \<in> set (entries (mp_Channels pk')) \<Longrightarrow> channel_linked h p cn c"
    using linked_channelD [OF l assms(2)] by metis
  then have cl: "channel_linked h p cn c" using assms by simp
  obtain ch' where "h_ch h c = Some ch'" "mc_Name ch' = cn"
    "\<And>bn a. (bn, a) \<in> set (entries (mc_Bundles ch')) \<Longrightarrow> bundle_linked h p c bn a"
    using channel_linkedD [OF cl] by metis
  then have "bundle_linked h p c bn a" "mc_Name ch = cn" using assms by auto
  then obtain b where b: "h_bun h a = Some b" "mb_Name b = bn" "mb_Channel b = Some c" "mb_Package b = Some p" "mc_Name ch = cn"
    unfolding bundle_linked_def by blast
  moreover have "mp_Name pk = pn" using pk' assms(3) by simp
  ultimately have "at_bundle h m pn cn bn b" unfolding at_bundle_def using assms by blast
  with b(1) that show thesis by blast
qed

lemma lookup_at:
  assumes l: "linked h m" and b: "at_bundle h m pn cn bn b"
  shows "lookup h m pn cn bn = Some (b\<lparr>mb_Package := None, mb_Channel := None\<rparr>)"
proof -
  obtain p pk c ch a where o: "(pn, p) \<in> set m" "h_pkg h p = Some pk" "(cn, c) \<in> set (entries (mp_Channels pk))"
    "h_ch h c = Some ch" "(bn, a) \<in> set (entries (mc_Bundles ch))" "h_bun h a = Some b"
    using b unfolding at_bundle_def by blast
  obtain pk' where pk: "h_pkg h p = Some pk'" "gm_wf (entries (mp_Channels pk'))"
    "\<And>cn c. (cn, c) \<in> set (entries (mp_Channels pk')) \<Longrightarrow> channel_linked h p cn c"
    using linked_channelD [OF l o(1)] by metis
  then have cl: "channel_linked h p cn c" using o by simp
  obtain ch' where "h_ch h c = Some ch'" "gm_wf (entries (mc_Bundles ch'))" using channel_linkedD [OF cl] by metis
  then have "gm_get m pn = Some p" "gm_get (entries (mp_Channels pk)) cn = Some c" "gm_get (entries (mc_Bundles ch)) bn = Some a"
    using o pk linkedD(1) [OF l] by (auto simp: gm_get_Some_iff)
  with o show ?thesis by (simp add: lookup_def find_channel_def bundle_in_def)
qed

lemma find_channel_q_eq:
  assumes l: "linked h m"
  shows "find_channel_q h m pn cn =
    (case gm_get m pn of
       None \<Rightarrow> Inl (PackageNotFound pn)
     | Some p \<Rightarrow>
         (case find_channel h m pn cn of
            None \<Rightarrow> Inl (ChannelNotFound pn cn)
          | Some c \<Rightarrow> Inr (the (h_ch h c))))"
proof (cases "gm_get m pn")
  case (Some p)
  then have mem: "(pn, p) \<in> set m" by (rule map_of_SomeD)
  obtain pk where pk: "h_pkg h p = Some pk" "\<And>cn c. (cn, c) \<in> set (entries (mp_Channels pk)) \<Longrightarrow> channel_linked h p cn c"
    using linked_channelD [OF l mem] by metis
  have "h_ch h c \<noteq> None" if "gm_get (entries (mp_Channels pk)) cn = Some c" for c
    using pk(2) [OF map_of_SomeD [OF that]] by (auto simp: channel_linked_def)
  with Some pk show ?thesis
    by (fastforce simp: find_channel_q_def find_channel_def split: option.splits)
qed (simp add: find_channel_q_def)

lemma GetBundle_eq:
  assumes l: "linked h m"
  shows "GetBundle h m pn cn bn =
    (case lookup h m pn cn bn of
       Some b \<Rightarrow> map_sum (ConvertBundle bn) unset_edges (message pn cn b)
     | None \<Rightarrow>
         Inl (if gm_get m pn = None then PackageNotFound pn
              else if find_channel h m pn cn = None then ChannelNotFound pn cn
              else BundleNotFound pn cn bn))"
proof (cases "find_channel h m pn cn")
  case None
  then show ?thesis
    by (simp add: GetBundle_def find_channel_q_eq [OF l] lookup_def split: option.split)
next
  case (Some c)
  obtain p pk where g: "gm_get m pn = Some p" "h_pkg h p = Some pk" "gm_get (entries (mp_Channels pk)) cn = Some c"
    using Some by (auto simp: find_channel_def bind_eq_Some_conv)
  note o = map_of_SomeD [OF g(1)] g(2) map_of_SomeD [OF g(3)] g(1)
  obtain ch where ch: "h_ch h c = Some ch"
    using find_channel_linked [OF l Some] by (metis channel_linkedD)
  show ?thesis
  proof (cases "gm_get (entries (mc_Bundles ch)) bn")
    case None
    with Some ch o show ?thesis by (simp add: GetBundle_def find_channel_q_eq [OF l] lookup_def bundle_in_def)
  next
    case (Some a)
    obtain b where b: "h_bun h a = Some b" "at_bundle h m pn cn bn b"
      using at_bundleI [OF l o(1,2,3) ch map_of_SomeD [OF Some]] .
    show ?thesis
      using Some ch o b \<open>find_channel h m pn cn = Some c\<close>
      by (cases "message pn cn b")
        (simp_all add: GetBundle_def find_channel_q_eq [OF l] lookup_at [OF l b(2)] convert_at [OF b(2)])
  qed
qed


section \<open>Who provides an API\<close>

definition provides_api :: "ModelBundle \<Rightarrow> string \<Rightarrow> string \<Rightarrow> string \<Rightarrow> bool" where
  "provides_api b g v k \<longleftrightarrow>
     (case Parse (mb_Properties b) of
        Inl _ \<Rightarrow> False
      | Inr props \<Rightarrow> \<lparr>gvk_Group = g, gvk_Kind = k, gvk_Version = v\<rparr> \<in> set (GVKs props))"

text \<open>The head of a channel of the index.\<close>

definition head_at :: "heap \<Rightarrow> Model \<Rightarrow> string \<Rightarrow> string \<Rightarrow> ModelBundle \<Rightarrow> bool" where
  "head_at h m pn cn b \<longleftrightarrow>
     (\<exists>p pk c ch a. (pn, p) \<in> set m \<and> h_pkg h p = Some pk \<and> (cn, c) \<in> set (entries (mp_Channels pk))
        \<and> h_ch h c = Some ch \<and> Channel_Head h ch = Inr (Inr a) \<and> h_bun h a = Some b)"

definition default_channel :: "heap \<Rightarrow> Model \<Rightarrow> string \<Rightarrow> string option" where
  "default_channel h m pn =
     Option.bind (gm_get m pn) (\<lambda>p. Option.bind (h_pkg h p) (\<lambda>pk. Option.bind (mp_DefaultChannel pk) (\<lambda>d.
       map_option mc_Name (h_ch h d))))"

lemma Channel_Head_mem:
  assumes "Channel_Head h ch = Inr (Inr a)"
  shows "\<exists>k. (k, a) \<in> set (entries (mc_Bundles ch))"
proof -
  from assms obtain bs where bs: "channel_bundles h ch = Inr bs" "heads_of bs \<noteq> []" "a = fst (hd (heads_of bs))"
    by (auto simp: Channel_Head_def Let_def split: if_splits)
  then have "hd (heads_of bs) \<in> set bs" using hd_in_set [OF bs(2)] by (auto simp: heads_of_def Let_def)
  with bs obtain e x where "e \<in> set (entries (mc_Bundles ch))" "(snd e, x) = hd (heads_of bs)"
    by (auto simp: channel_bundles_def mapM_set)
  with bs(3) show ?thesis by (metis fst_conv prod.collapse)
qed

lemma head_at_bundle:
  assumes l: "linked h m" and "head_at h m pn cn b"
  shows "at_bundle h m pn cn (mb_Name b) b"
proof -
  obtain p pk c ch a where o: "(pn, p) \<in> set m" "h_pkg h p = Some pk" "(cn, c) \<in> set (entries (mp_Channels pk))"
    "h_ch h c = Some ch" "Channel_Head h ch = Inr (Inr a)" "h_bun h a = Some b"
    using assms(2) unfolding head_at_def by blast
  obtain k where k: "(k, a) \<in> set (entries (mc_Bundles ch))" using Channel_Head_mem [OF o(5)] ..
  obtain b' where b': "h_bun h a = Some b'" "at_bundle h m pn cn k b'" using at_bundleI [OF l o(1-4) k] .
  then have "b' = b" "mb_Name b' = k" using o(6) by (auto simp: at_bundle_def)
  with b' show ?thesis by blast
qed

lemma message_provided:
  assumes "message pn cn b = Inr a"
  shows "\<exists>props. Parse (mb_Properties b) = Inr props \<and> ab_ProvidedApis a = gvksProvidedtoAPIGVKs (GVKs props)"
  using assms by (auto simp: message_def api_parseProperties_def split: sum.splits if_splits)

lemma gvk_provided_iff:
  "\<lparr>gvk_Group = g, gvk_Kind = k, gvk_Version = v\<rparr> \<in> set gs \<longleftrightarrow>
     list_ex (\<lambda>x. g_Group x = g \<and> g_Version x = v \<and> g_Kind x = k) (gvksProvidedtoAPIGVKs gs)"
  by (force simp: gvksProvidedtoAPIGVKs_def list_ex_iff)

lemma provide_at:
  assumes "at_bundle h m pn cn bn b" "doesModelBundleProvide h b g v k = Inr x"
  shows "x \<longleftrightarrow> provides_api b g v k"
  using assms(2) unfolding doesModelBundleProvide_def convert_at [OF assms(1)]
  by (auto simp: provides_api_def gvk_provided_iff dest!: message_provided)

lemma provide_error:
  assumes "at_bundle h m pn cn bn b" "doesModelBundleProvide h b g v k = Inl e"
  shows "\<exists>x. e = ConvertBundle bn x"
  using assms(2) unfolding doesModelBundleProvide_def convert_at [OF assms(1)]
  by (cases "message pn cn b") auto

lemma entries_at:
  assumes "at_bundle h m pn cn bn b"
  obtains e es where "channelEntriesForBundle h b ign = Inr (e # es)"
    "\<And>x. x \<in> set (e # es) \<Longrightarrow> ce_PackageName x = pn \<and> ce_ChannelName x = cn \<and> ce_BundleName x = bn"
proof -
  obtain c ch where "mb_Channel b = Some c" "h_ch h c = Some ch" using assms by (auto simp: at_bundle_def)
  then have "deref_opt (h_ch h) (mb_Channel b) = Inr ch" by (simp add: deref_opt_def)
  moreover have "mapM (bundle_entry h b) rs =
      Inr (map (\<lambda>r. \<lparr>ce_PackageName = pn, ce_ChannelName = cn, ce_BundleName = bn, ce_Replaces = r\<rparr>) rs)" for rs
    by (rule mapM_total) (rule entry_at [OF assms])
  ultimately have "channelEntriesForBundle h b ign =
      Inr (\<lparr>ce_PackageName = pn, ce_ChannelName = cn, ce_BundleName = bn, ce_Replaces = mb_Replaces b\<rparr>
        # map (\<lambda>r. \<lparr>ce_PackageName = pn, ce_ChannelName = cn, ce_BundleName = bn, ce_Replaces = r\<rparr>)
            (filter (\<lambda>s. s \<noteq> mb_Replaces b \<and> (ign \<or> gm_has (entries (mc_Bundles ch)) s)) (mb_Skips b)))"
    by (simp add: channelEntriesForBundle_def entry_at [OF assms])
  then show thesis by (rule that) auto
qed

text \<open>The latest entries of one channel of a valid index.\<close>

definition latest_of :: "heap \<Rightarrow> string \<Rightarrow> string \<Rightarrow> string \<Rightarrow> ModelPackage \<Rightarrow> ModelChannel \<Rightarrow> query_error + ChannelEntry list" where
  "latest_of h g v k pkg ch =
     bindr (head_q h (mp_Name pkg) ch) (\<lambda>b.
     bindr (doesModelBundleProvide h b g v k) (\<lambda>provides.
     if provides then channelEntriesForBundle h b False else Inr []))"

definition latest_result ::
  "string \<Rightarrow> string \<Rightarrow> string \<Rightarrow> string \<Rightarrow> string \<Rightarrow> ModelBundle \<Rightarrow> query_error + ChannelEntry list \<Rightarrow> bool" where
  "latest_result g v k pn cn b r \<longleftrightarrow>
     (case r of
        Inl e \<Rightarrow> \<exists>x. e = ConvertBundle (mb_Name b) x
      | Inr es \<Rightarrow> (es \<noteq> [] \<longleftrightarrow> provides_api b g v k)
          \<and> (\<forall>x \<in> set es. ce_PackageName x = pn \<and> ce_ChannelName x = cn \<and> ce_BundleName x = mb_Name b))"

lemma latest_of_at:
  assumes l: "linked h m" and val: "model_valid h m"
    and o: "(pn, p) \<in> set m" "h_pkg h p = Some pk" "(cn, c) \<in> set (entries (mp_Channels pk))"
  shows "\<exists>ch b. h_ch h c = Some ch \<and> head_at h m pn cn b \<and> latest_result g v k pn cn b (latest_of h g v k pk ch)"
proof -
  have pv: "package_valid h p" using val o(1) by (auto simp: model_valid_def)
  have "channel_valid h c" using pv o(2,3) by (fastforce simp: package_valid_def)
  then obtain ch a where ch: "h_ch h c = Some ch" "Channel_Head h ch = Inr (Inr a)" by (auto simp: channel_valid_def)
  obtain kk where kk: "(kk, a) \<in> set (entries (mc_Bundles ch))" using Channel_Head_mem [OF ch(2)] ..
  obtain b where b: "h_bun h a = Some b" using at_bundleI [OF l o ch(1) kk] by metis
  then have head: "head_at h m pn cn b" using o ch unfolding head_at_def by blast
  note at = head_at_bundle [OF l head]
  obtain e es where es: "channelEntriesForBundle h b False = Inr (e # es)"
    "\<And>x. x \<in> set (e # es) \<Longrightarrow> ce_PackageName x = pn \<and> ce_ChannelName x = cn \<and> ce_BundleName x = mb_Name b"
    using entries_at [OF at] by metis
  have hq: "head_q h (mp_Name pk) ch = Inr b" using ch(2) b by (simp add: head_q_def)
  have "latest_result g v k pn cn b (latest_of h g v k pk ch)"
  proof (cases "doesModelBundleProvide h b g v k")
    case (Inl e)
    with provide_error [OF at Inl] show ?thesis by (simp add: latest_of_def hq latest_result_def)
  next
    case (Inr x)
    have "\<forall>x \<in> set (e # es). ce_PackageName x = pn \<and> ce_ChannelName x = cn \<and> ce_BundleName x = mb_Name b"
      using es(2) by blast
    moreover have "latest_of h g v k pk ch = (if provides_api b g v k then Inr (e # es) else Inr [])"
      by (simp add: latest_of_def hq Inr es(1) provide_at [OF at Inr])
    ultimately show ?thesis by (simp only: latest_result_def sum.case split: if_split) simp
  qed
  with ch(1) head show ?thesis by blast
qed

abbreviation pkg_channels :: "heap \<Rightarrow> (ModelPackage \<Rightarrow> ModelChannel \<Rightarrow> query_error + 'a list) \<Rightarrow> ModelPackage \<Rightarrow> query_error + 'a list" where
  "pkg_channels h f pkg \<equiv> concatM (\<lambda>e. bindr (q_panic (deref_ch h (snd e))) (f pkg)) (entries (mp_Channels pkg))"

lemma each_channel_Inr:
  assumes "each_channel h m f = Inr xs" "x \<in> set xs"
  obtains pn p pk cn c ch ys where "(pn, p) \<in> set m" "h_pkg h p = Some pk" "(cn, c) \<in> set (entries (mp_Channels pk))"
    "h_ch h c = Some ch" "f pk ch = Inr ys" "x \<in> set ys"
proof -
  obtain pn p pk zs where p: "(pn, p) \<in> set m" "h_pkg h p = Some pk" "pkg_channels h f pk = Inr zs" "x \<in> set zs"
    using assms concatM_set [OF assms(1) [unfolded each_channel_def], of x] by auto
  then obtain cn c ch ys where "(cn, c) \<in> set (entries (mp_Channels pk))" "h_ch h c = Some ch" "f pk ch = Inr ys" "x \<in> set ys"
    using concatM_set [OF p(3), of x] by auto
  with p that show thesis by blast
qed

lemma each_channel_all:
  assumes "each_channel h m f = Inr xs" "(pn, p) \<in> set m" "h_pkg h p = Some pk"
    "(cn, c) \<in> set (entries (mp_Channels pk))" "h_ch h c = Some ch"
  obtains ys where "f pk ch = Inr ys" "set ys \<subseteq> set xs"
proof -
  obtain zs where zs: "pkg_channels h f pk = Inr zs"
    using concatM_all [OF assms(1) [unfolded each_channel_def] assms(2)] assms(3) by auto
  obtain ys where ys: "f pk ch = Inr ys" using concatM_all [OF zs assms(4)] assms(5) by auto
  have "set zs \<subseteq> set xs"
    using concatM_set [OF assms(1) [unfolded each_channel_def]] assms(2,3) zs by fastforce
  moreover have "set ys \<subseteq> set zs" using concatM_set [OF zs] assms(4,5) ys by fastforce
  ultimately show thesis using that ys by blast
qed

lemma each_channel_Inl:
  assumes l: "linked h m" and "each_channel h m f = Inl e"
  obtains pn p pk cn c ch where "(pn, p) \<in> set m" "h_pkg h p = Some pk" "(cn, c) \<in> set (entries (mp_Channels pk))"
    "h_ch h c = Some ch" "f pk ch = Inl e"
proof -
  obtain pn p where p: "(pn, p) \<in> set m" "bindr (q_panic (deref_pkg h p)) (pkg_channels h f) = Inl e"
    using concatM_Inl [OF assms(2) [unfolded each_channel_def]] by auto
  obtain pk where pk: "h_pkg h p = Some pk" "\<And>cn c. (cn, c) \<in> set (entries (mp_Channels pk)) \<Longrightarrow> channel_linked h p cn c"
    using linked_channelD [OF l p(1)] by metis
  have "pkg_channels h f pk = Inl e" using p(2) pk(1) by simp
  then obtain cn c where c: "(cn, c) \<in> set (entries (mp_Channels pk))" "bindr (q_panic (deref_ch h c)) (f pk) = Inl e"
    by (auto dest!: concatM_Inl)
  obtain ch where "h_ch h c = Some ch" using channel_linkedD [OF pk(2) [OF c(1)]] by metis
  with c p(1) pk(1) that show thesis by simp
qed

lemma first_default_find:
  assumes "\<forall>e \<in> set es. default_channel h m (ce_PackageName e) \<noteq> None"
  shows "first_default h m f err es =
    (case find (\<lambda>e. default_channel h m (ce_PackageName e) = Some (ce_ChannelName e)) es of
       None \<Rightarrow> Inl err | Some e \<Rightarrow> f e)"
  using assms
proof (induction es)
  case (Cons e es)
  obtain p pk d dc where "gm_get m (ce_PackageName e) = Some p" "h_pkg h p = Some pk" "mp_DefaultChannel pk = Some d"
    "h_ch h d = Some dc"
    using Cons.prems by (auto simp: default_channel_def bind_eq_None_conv)
  with Cons show ?case by (auto simp: default_channel_def deref_opt_def)
qed simp

lemma find_SomeD: "find P xs = Some x \<Longrightarrow> x \<in> set xs \<and> P x"
  by (induction xs) (auto split: if_splits)

lemma find_sorted_least:
  "sorted (map k xs) \<Longrightarrow> find P xs = Some x \<Longrightarrow> y \<in> set xs \<Longrightarrow> P y \<Longrightarrow> k x \<le> k y"
  by (induction xs) (auto split: if_splits)

lemma valid_default_channel:
  assumes l: "linked h m" and val: "model_valid h m" and "(pn, p) \<in> set m"
  shows "default_channel h m pn \<noteq> None"
proof -
  have "gm_get m pn = Some p" using linkedD(1) [OF l] assms(3) by (simp add: gm_get_Some_iff)
  moreover obtain pk d where "h_pkg h p = Some pk" "mp_DefaultChannel pk = Some d" "h_ch h d \<noteq> None"
    using val assms(3) by (fastforce simp: model_valid_def package_valid_def)
  ultimately show ?thesis by (simp add: default_channel_def)
qed

lemma head_at_unique:
  assumes l: "linked h m" and "head_at h m pn cn b" "head_at h m pn cn b'"
  shows "b' = b"
proof -
  obtain p pk c ch a where o: "(pn, p) \<in> set m" "h_pkg h p = Some pk" "(cn, c) \<in> set (entries (mp_Channels pk))"
    "h_ch h c = Some ch" "Channel_Head h ch = Inr (Inr a)" "h_bun h a = Some b"
    using assms(2) unfolding head_at_def by blast
  obtain p' pk' c' ch' a' where o': "(pn, p') \<in> set m" "h_pkg h p' = Some pk'" "(cn, c') \<in> set (entries (mp_Channels pk'))"
    "h_ch h c' = Some ch'" "Channel_Head h ch' = Inr (Inr a')" "h_bun h a' = Some b'"
    using assms(3) unfolding head_at_def by blast
  have p: "p' = p" using o(1) o'(1) linkedD(1) [OF l] by (metis gm_get_Some_iff option.inject)
  then have "pk' = pk" using o(2) o'(2) by simp
  moreover have "gm_wf (entries (mp_Channels pk))" using linked_channelD [OF l o(1)] o(2) by (metis option.inject)
  ultimately have "c' = c" using o(3) o'(3) by (metis gm_get_Some_iff option.inject)
  then show ?thesis using o o' by simp
qed

text \<open>The latest entries are those of the channel heads that provide the API.\<close>

lemma latest_entries:
  assumes l: "linked h m" and val: "model_valid h m"
  shows "case each_channel h m (latest_of h g v k) of
      Inl e \<Rightarrow> \<exists>n x. e = ConvertBundle n x
    | Inr es \<Rightarrow>
        (\<forall>e \<in> set es. \<exists>b. head_at h m (ce_PackageName e) (ce_ChannelName e) b \<and> provides_api b g v k \<and> ce_BundleName e = mb_Name b)
        \<and> (\<forall>pn cn b. head_at h m pn cn b \<longrightarrow> provides_api b g v k \<longrightarrow>
             (\<exists>e \<in> set es. ce_PackageName e = pn \<and> ce_ChannelName e = cn))"
proof (cases "each_channel h m (latest_of h g v k)")
  case (Inl e)
  obtain pn p pk cn c ch where o: "(pn, p) \<in> set m" "h_pkg h p = Some pk" "(cn, c) \<in> set (entries (mp_Channels pk))"
    "h_ch h c = Some ch" "latest_of h g v k pk ch = Inl e"
    using each_channel_Inl [OF l Inl] .
  from latest_of_at [OF l val o(1-3), of g v k] o(4,5) Inl show ?thesis by (auto simp: latest_result_def)
next
  case (Inr es)
  have "\<exists>b. head_at h m (ce_PackageName e) (ce_ChannelName e) b \<and> provides_api b g v k \<and> ce_BundleName e = mb_Name b"
    if mem: "e \<in> set es" for e
  proof -
    obtain pn p pk cn c ch ys where o: "(pn, p) \<in> set m" "h_pkg h p = Some pk" "(cn, c) \<in> set (entries (mp_Channels pk))"
      "h_ch h c = Some ch" "latest_of h g v k pk ch = Inr ys" "e \<in> set ys"
      using each_channel_Inr [OF Inr mem] .
    from latest_of_at [OF l val o(1-3), of g v k] o(4-6) show ?thesis by (auto simp: latest_result_def)
  qed
  moreover have "\<exists>e \<in> set es. ce_PackageName e = pn \<and> ce_ChannelName e = cn"
    if head: "head_at h m pn cn b" and prov: "provides_api b g v k" for pn cn b
  proof -
    obtain p pk c where o: "(pn, p) \<in> set m" "h_pkg h p = Some pk" "(cn, c) \<in> set (entries (mp_Channels pk))"
      using head unfolding head_at_def by blast
    obtain ch b' where b: "h_ch h c = Some ch" "head_at h m pn cn b'" "latest_result g v k pn cn b' (latest_of h g v k pk ch)"
      using latest_of_at [OF l val o, of g v k] by blast
    obtain ys where ys: "latest_of h g v k pk ch = Inr ys" "set ys \<subseteq> set es"
      using each_channel_all [OF Inr o b(1)] .
    have "provides_api b' g v k" using head_at_unique [OF l head b(2)] prov by simp
    with b(3) ys show ?thesis by (cases ys) (auto simp: latest_result_def)
  qed
  ultimately show ?thesis using Inr by simp
qed

text \<open>
  C14: On a linked and valid index \<^verbatim>\<open>GetBundleThatProvides\<close> answers with the message of a bundle that provides the API and is
  the head of the default channel of its package, and no package with a smaller name has such a
  bundle; it says that there is none only if there is none; and it fails otherwise only if the
  message of some bundle cannot be built.
\<close>

theorem GetBundleThatProvides_spec:
  assumes l: "linked h m" and val: "model_valid h m"
  shows "case GetBundleThatProvides h m g v k of
      Inr a \<Rightarrow>
        (\<exists>pn cn b a'. default_channel h m pn = Some cn \<and> head_at h m pn cn b \<and> provides_api b g v k
           \<and> message pn cn b = Inr a' \<and> a = unset_edges a'
           \<and> (\<forall>pn' cn' b'. default_channel h m pn' = Some cn' \<longrightarrow> head_at h m pn' cn' b' \<longrightarrow> provides_api b' g v k \<longrightarrow> pn \<le> pn'))
    | Inl e \<Rightarrow>
        (\<exists>n x. e = ConvertBundle n x)
        \<or> e = NoProvider g v k
          \<and> (\<forall>pn cn b. default_channel h m pn = Some cn \<longrightarrow> head_at h m pn cn b \<longrightarrow> \<not> provides_api b g v k)"
proof (cases "each_channel h m (latest_of h g v k)")
  case (Inl e)
  then show ?thesis
    using latest_entries [OF l val, of g v k]
    by (auto simp: GetBundleThatProvides_def GetLatestChannelEntriesThatProvide_def latest_of_def [abs_def])
next
  case (Inr es)
  let ?ss = "sort_Slice ce_PackageName es"
  let ?P = "\<lambda>e. default_channel h m (ce_PackageName e) = Some (ce_ChannelName e)"
  let ?f = "\<lambda>e. GetBundle h m (ce_PackageName e) (ce_ChannelName e) (ce_BundleName e)"
  have heads: "\<exists>b. head_at h m (ce_PackageName e) (ce_ChannelName e) b \<and> provides_api b g v k \<and> ce_BundleName e = mb_Name b"
    if "e \<in> set es" for e using latest_entries [OF l val, of g v k] Inr that by simp
  have listed: "\<exists>e \<in> set es. ce_PackageName e = pn \<and> ce_ChannelName e = cn"
    if "head_at h m pn cn b" "provides_api b g v k" for pn cn b
    using latest_entries [OF l val, of g v k] Inr that by simp
  have "default_channel h m (ce_PackageName e) \<noteq> None" if "e \<in> set es" for e
    using heads [OF that] valid_default_channel [OF l val] unfolding head_at_def by blast
  then have run: "GetBundleThatProvides h m g v k =
      (if es = [] then Inl (NoProvider g v k) else case find ?P ?ss of None \<Rightarrow> Inl (NoProvider g v k) | Some e \<Rightarrow> ?f e)"
    using Inr first_default_find [of ?ss h m ?f "NoProvider g v k"]
    by (simp add: GetBundleThatProvides_def GetLatestChannelEntriesThatProvide_def latest_of_def [abs_def])
  show ?thesis
  proof (cases "find ?P ?ss")
    case None
    then have "\<not> ?P e" if "e \<in> set es" for e using that by (simp add: find_None_iff)
    then have "\<not> provides_api b g v k" if "default_channel h m pn = Some cn" "head_at h m pn cn b" for pn cn b
      using listed [OF that(2)] that(1) by blast
    with None show ?thesis by (simp add: run)
  next
    case (Some e)
    then have e: "e \<in> set es" "?P e" using find_SomeD [OF Some] by simp_all
    obtain b where b: "head_at h m (ce_PackageName e) (ce_ChannelName e) b" "provides_api b g v k" "ce_BundleName e = mb_Name b"
      using heads [OF e(1)] by blast
    note at = head_at_bundle [OF l b(1)]
    have fe: "?f e = map_sum (ConvertBundle (mb_Name b)) unset_edges (message (ce_PackageName e) (ce_ChannelName e) b)"
      unfolding GetBundle_eq [OF l] b(3) lookup_at [OF l at] by simp
    have least: "ce_PackageName e \<le> pn" if hyp: "default_channel h m pn = Some cn" "head_at h m pn cn b'" "provides_api b' g v k" for pn cn b'
    proof -
      obtain e' where "e' \<in> set ?ss" "ce_PackageName e' = pn" "?P e'" using listed [OF hyp(2,3)] hyp(1) by auto
      then show ?thesis using find_sorted_least [OF _ Some] by force
    qed
    have "es \<noteq> []" using e(1) by auto
    with Some fe have res: "GetBundleThatProvides h m g v k =
        map_sum (ConvertBundle (mb_Name b)) unset_edges (message (ce_PackageName e) (ce_ChannelName e) b)"
      by (simp add: run)
    show ?thesis
    proof (cases "message (ce_PackageName e) (ce_ChannelName e) b")
      case (Inr a)
      show ?thesis unfolding res Inr map_sum.simps sum.case using e(2) b(1,2) Inr least by blast
    qed (simp add: res)
  qed
qed

section \<open>A sample index with an API\<close>

definition api_bundle :: ModelBundle where
  "api_bundle =
     \<lparr>mb_Package = Some 0, mb_Channel = Some 1, mb_Name = ''b'', mb_Image = ''i'', mb_Replaces = [], mb_Skips = [],
      mb_Properties = map built [IPackage \<lparr>pkg_PackageName = ''p'', pkg_Version = ''1''\<rparr>, IGVK (api_gvk sample_gvk)],
      mb_RelatedImages = [], mb_Objects = [], mb_CsvJSON = []\<rparr>"

definition api_heap :: heap where
  "api_heap =
     \<lparr>h_pkg = map_of [(0, \<lparr>mp_Name = ''p'', mp_Description = [], mp_Icon = None, mp_DefaultChannel = Some 1,
                        mp_Channels = Some [(''a'', 1)]\<rparr>)],
      h_ch = map_of [(1, \<lparr>mc_Package = Some 0, mc_Name = ''a'', mc_Bundles = Some [(''b'', 2)]\<rparr>)],
      h_bun = map_of [(2, api_bundle)], h_next = 3\<rparr>"

definition api_model :: Model where
  "api_model = [(''p'', 0)]"

lemma api_linked: "linked api_heap api_model"
  by (simp add: linked_def heap_fresh_def gm_wf_def package_linked_def channel_linked_def bundle_linked_def
      api_heap_def api_model_def api_bundle_def)

lemma api_valid: "model_valid api_heap api_model"
proof -
  have "Model_Validate api_heap api_model = Inr []" by code_simp
  then show ?thesis by (simp add: Model_Validate_iff)
qed


theorem GetBundleThatProvides_spec_witness:
  "\<exists>a. GetBundleThatProvides api_heap api_model ''g'' ''v1'' ''K'' = Inr a
     \<and> (\<exists>pn cn b a'. default_channel api_heap api_model pn = Some cn \<and> head_at api_heap api_model pn cn b
          \<and> provides_api b ''g'' ''v1'' ''K'' \<and> message pn cn b = Inr a' \<and> a = unset_edges a')"
proof -
  have "\<not> isl (GetBundleThatProvides api_heap api_model ''g'' ''v1'' ''K'')" by code_simp
  then obtain a where a: "GetBundleThatProvides api_heap api_model ''g'' ''v1'' ''K'' = Inr a"
    by (cases "GetBundleThatProvides api_heap api_model ''g'' ''v1'' ''K''") auto
  with GetBundleThatProvides_spec [OF api_linked api_valid, of "''g''" "''v1''" "''K''"] show ?thesis by auto
qed

end
