(* ===== verification/Registry_Bundle.thy ===== *)
theory Registry_Bundle
  imports Querier
begin

text \<open>
  Bundles of \<^verbatim>\<open>pkg/registry\<close>: the cluster service version (\<^verbatim>\<open>csv.go\<close>), the bundle with its lazily filled
  cache (\<^verbatim>\<open>bundle.go\<close>), the parser of a bundle directory (\<^verbatim>\<open>parse.go\<close>), dependencies and annotations
  (\<^verbatim>\<open>types.go\<close>), and the splitting of a bundle string (\<^verbatim>\<open>conversion.go\<close>).

  A Kubernetes object is what the library functions that the code calls return on it. A method that may fill
  the cache returns its result together with the bundle afterwards.
\<close>

section \<open>Types\<close>

record APIKey =
  ak_Group :: string
  ak_Version :: string
  ak_Kind :: string
  ak_Plural :: string

record DefinitionKey =
  dk_Group :: string
  dk_Kind :: string
  dk_Name :: string
  dk_Version :: string

record Annotations =
  an_PackageName :: string
  an_Channels :: string
  an_DefaultChannelName :: string

record Dependency =
  dep_Type :: string
  dep_Value :: raw_message

record GVKDependency =
  gd_Group :: string
  gd_Kind :: string
  gd_Version :: string

record PackageDependency =
  pd_PackageName :: string
  pd_Version :: string

type_synonym LabelDependency = string

definition GVKType :: string where "GVKType = ''olm.gvk''"
definition PackageType :: string where "PackageType = ''olm.package''"
definition DeprecatedType :: string where "DeprecatedType = ''olm.deprecated''"
definition LabelType :: string where "LabelType = ''olm.label''"
definition PropertyKey :: string where "PropertyKey = ''olm.properties''"

datatype validate_msg = GroupEmpty | VersionEmpty | KindEmpty | LabelMissing | PackageNameMissing
  | PackageVersionEmpty | InvalidSemverRange

definition GVKDependency_Validate :: "GVKDependency \<Rightarrow> validate_msg list" where
  "GVKDependency_Validate gd =
     (if gd_Group gd = [] then [GroupEmpty] else []) @ (if gd_Version gd = [] then [VersionEmpty] else [])
     @ (if gd_Kind gd = [] then [KindEmpty] else [])"

definition LabelDependency_Validate :: "LabelDependency \<Rightarrow> validate_msg list" where
  "LabelDependency_Validate ld = (if ld = [] then [LabelMissing] else [])"

text \<open>Whether the semver library accepts a range is an argument.\<close>

definition PackageDependency_Validate :: "(string \<Rightarrow> bool) \<Rightarrow> PackageDependency \<Rightarrow> validate_msg list" where
  "PackageDependency_Validate parse_range pd =
     (if pd_PackageName pd = [] then [PackageNameMissing] else [])
     @ (if pd_Version pd = [] then [PackageVersionEmpty]
        else if \<not> parse_range (pd_Version pd) then [InvalidSemverRange] else [])"

definition dec_GVKDependency :: "json \<Rightarrow> GVKDependency option" where
  "dec_GVKDependency =
     decode_struct [''group'', ''kind'', ''version'']
       (\<lambda>n v g. if n = ''group'' then map_option (\<lambda>s. g\<lparr>gd_Group := s\<rparr>) (decode_string v (gd_Group g))
                else if n = ''kind'' then map_option (\<lambda>s. g\<lparr>gd_Kind := s\<rparr>) (decode_string v (gd_Kind g))
                else map_option (\<lambda>s. g\<lparr>gd_Version := s\<rparr>) (decode_string v (gd_Version g)))
       \<lparr>gd_Group = [], gd_Kind = [], gd_Version = []\<rparr>"

definition dec_PackageDependency :: "json \<Rightarrow> PackageDependency option" where
  "dec_PackageDependency =
     decode_struct [''packageName'', ''version'']
       (\<lambda>n v p. if n = ''packageName'' then map_option (\<lambda>s. p\<lparr>pd_PackageName := s\<rparr>) (decode_string v (pd_PackageName p))
                else map_option (\<lambda>s. p\<lparr>pd_Version := s\<rparr>) (decode_string v (pd_Version p)))
       \<lparr>pd_PackageName = [], pd_Version = []\<rparr>"

definition dec_LabelDependency :: "json \<Rightarrow> LabelDependency option" where
  "dec_LabelDependency = decode_struct [''label''] (\<lambda>_ v l. decode_string v l) []"

datatype type_value = GVKValue GVKDependency | PackageValue PackageDependency | LabelValue LabelDependency

definition GetTypeValue :: "Dependency \<Rightarrow> type_value option" where
  "GetTypeValue e =
     (if dep_Type e = GVKType then map_option GVKValue (unmarshal dec_GVKDependency (dep_Value e))
      else if dep_Type e = PackageType then map_option PackageValue (unmarshal dec_PackageDependency (dep_Value e))
      else if dep_Type e = LabelType then map_option LabelValue (unmarshal dec_LabelDependency (dep_Value e))
      else None)"

definition AnnotationsFile_GetChannels :: "Annotations \<Rightarrow> string list" where
  "AnnotationsFile_GetChannels a = (if an_Channels a \<noteq> [] then strings_Split CHR '','' (an_Channels a) else [])"

definition SelectDefaultChannel :: "Annotations \<Rightarrow> string" where
  "SelectDefaultChannel a =
     (if length (an_Channels a) < 1 then [] else hd (sort_Strings (strings_Split CHR '','' (an_Channels a))))"

section \<open>The cluster service version\<close>

record ClusterServiceVersion =
  csv_Name :: string
  csv_Annotations :: "(string, string) gomap"
  csv_Spec :: raw_message

datatype bundle_error = CsvConversion | ObjectMarshal | CrdDecode string | SpecNotObject | FieldInvalid string
  | BadCRDName string | ApiNotInBundle APIKey | ObjectEncode | TwoCSVs | NilCsvPanic | CrdsUnavailable bundle_error

text \<open>
  Decoding the spec into a map of pointers to raw messages and taking the value of a key: \<open>None\<close> when the key
  is missing or its value is \<^verbatim>\<open>null\<close>. The last of several entries for a key counts.
\<close>

definition spec_field :: "string \<Rightarrow> ClusterServiceVersion \<Rightarrow> bundle_error + json option" where
  "spec_field key csv =
     (case json_parse (raw_bytes (csv_Spec csv)) of
        Some (JObj ms) \<Rightarrow> Inr (case gm_get (rev ms) key of Some JNull \<Rightarrow> None | r \<Rightarrow> r)
      | Some JNull \<Rightarrow> Inr None
      | _ \<Rightarrow> Inl SpecNotObject)"

definition spec_value :: "string \<Rightarrow> (json \<Rightarrow> 'a option) \<Rightarrow> 'a \<Rightarrow> ClusterServiceVersion \<Rightarrow> bundle_error + 'a" where
  "spec_value key dec z csv =
     bindr (spec_field key csv) (\<lambda>r.
       case r of None \<Rightarrow> Inr z | Some v \<Rightarrow> of_option (FieldInvalid key) (dec v))"

definition decode_strings :: "json \<Rightarrow> string list option" where
  "decode_strings v = decode_array (\<lambda>old w. decode_string w old) [] v []"

definition GetReplaces :: "ClusterServiceVersion \<Rightarrow> bundle_error + string" where
  "GetReplaces = spec_value ''replaces'' (\<lambda>v. decode_string v []) []"

definition GetVersion :: "ClusterServiceVersion \<Rightarrow> bundle_error + string" where
  "GetVersion = spec_value ''version'' (\<lambda>v. decode_string v []) []"

definition GetSkipRange :: "ClusterServiceVersion \<Rightarrow> string" where
  "GetSkipRange csv = (case gm_get (csv_Annotations csv) ''olm.skipRange'' of None \<Rightarrow> [] | Some s \<Rightarrow> s)"

definition GetSkips :: "ClusterServiceVersion \<Rightarrow> bundle_error + string list" where
  "GetSkips = spec_value ''skips'' decode_strings []"

definition dec_DefinitionKey :: "DefinitionKey \<Rightarrow> json \<Rightarrow> DefinitionKey option" where
  "dec_DefinitionKey =
     decode_struct [''group'', ''kind'', ''name'', ''version'']
       (\<lambda>n v d. if n = ''group'' then map_option (\<lambda>s. d\<lparr>dk_Group := s\<rparr>) (decode_string v (dk_Group d))
                else if n = ''kind'' then map_option (\<lambda>s. d\<lparr>dk_Kind := s\<rparr>) (decode_string v (dk_Kind d))
                else if n = ''name'' then map_option (\<lambda>s. d\<lparr>dk_Name := s\<rparr>) (decode_string v (dk_Name d))
                else map_option (\<lambda>s. d\<lparr>dk_Version := s\<rparr>) (decode_string v (dk_Version d)))"

text \<open>A slice of pointers: an element \<^verbatim>\<open>null\<close> is the nil pointer.\<close>

definition dec_definition_pointer :: "DefinitionKey option \<Rightarrow> json \<Rightarrow> DefinitionKey option option" where
  "dec_definition_pointer old v =
     (if v = JNull then Some None
      else map_option Some
             (dec_DefinitionKey (case old of None \<Rightarrow> \<lparr>dk_Group = [], dk_Kind = [], dk_Name = [], dk_Version = []\<rparr> | Some d \<Rightarrow> d) v))"

type_synonym definitions = "DefinitionKey option list \<times> DefinitionKey option list"

definition dec_definitions :: "json \<Rightarrow> definitions option" where
  "dec_definitions =
     decode_struct [''owned'', ''required'']
       (\<lambda>n v (owned, required).
          if n = ''owned'' then map_option (\<lambda>x. (x, required)) (decode_array dec_definition_pointer None v owned)
          else map_option (\<lambda>x. (owned, x)) (decode_array dec_definition_pointer None v required))
       ([], [])"

definition GetCustomResourceDefintions :: "ClusterServiceVersion \<Rightarrow> bundle_error + definitions" where
  "GetCustomResourceDefintions = spec_value ''customresourcedefinitions'' dec_definitions ([], [])"

definition GetApiServiceDefinitions :: "ClusterServiceVersion \<Rightarrow> bundle_error + definitions" where
  "GetApiServiceDefinitions = spec_value ''apiservicedefinitions'' dec_definitions ([], [])"

definition GetRelatedImages :: "ClusterServiceVersion \<Rightarrow> bundle_error + string list" where
  "GetRelatedImages csv =
     bindr (spec_value ''relatedImages''
              (\<lambda>v. decode_array dec_related_image \<lparr>ri_Name = [], ri_Image = []\<rparr> v []) [] csv) (\<lambda>ris.
     Inr (remdups (map ri_Image ris)))"

text \<open>
  Decoding the deployment spec of \<^verbatim>\<open>k8s.io/api/apps/v1\<close> into an earlier value is an argument; a deployment is the
  images of its containers and of its init containers.
\<close>

type_synonym deployment = "string list \<times> string list"

definition dec_install ::
  "(deployment \<Rightarrow> json \<Rightarrow> deployment option) \<Rightarrow> json \<Rightarrow> (string \<times> deployment list) option" where
  "dec_install dec_spec =
     decode_struct [''Install'']
       (\<lambda>_ v st. decode_struct [''strategy'', ''spec'']
          (\<lambda>n w (name, deps).
             if n = ''strategy'' then map_option (\<lambda>x. (x, deps)) (decode_string w name)
             else map_option (\<lambda>x. (name, map snd x))
                    (decode_struct [''Deployments'']
                       (\<lambda>_ x old. decode_array
                          (decode_struct [''Name'', ''Spec'']
                             (\<lambda>n y (nm, d). if n = ''Name'' then map_option (\<lambda>z. (z, d)) (decode_string y nm)
                                            else map_option (\<lambda>z. (nm, z)) (dec_spec d y)))
                          ([], ([], [])) x old)
                       (map (Pair []) deps) w)) st v)
       ([], [])"

definition GetOperatorImages ::
  "(deployment \<Rightarrow> json \<Rightarrow> deployment option) \<Rightarrow> ClusterServiceVersion \<Rightarrow> bundle_error + string list" where
  "GetOperatorImages dec_spec csv =
     (case Option.bind (json_parse (raw_bytes (csv_Spec csv))) (dec_install dec_spec) of
        None \<Rightarrow> Inl SpecNotObject
      | Some (name, deps) \<Rightarrow>
          if name \<noteq> ''deployment'' then Inr []
          else Inr (remdups (concat (map (\<lambda>d. fst d @ snd d) deps))))"

definition dec_icon :: "Icon \<Rightarrow> json \<Rightarrow> Icon option" where
  "dec_icon =
     decode_struct [''mediatype'', ''base64data'']
       (\<lambda>n v i. if n = ''mediatype'' then map_option (\<lambda>s. i\<lparr>ic_MediaType := s\<rparr>) (decode_string v (ic_MediaType i))
                else map_option (\<lambda>s. i\<lparr>ic_Data := s\<rparr>) (decode_bytes v (ic_Data i)))"

definition GetIcons :: "ClusterServiceVersion \<Rightarrow> bundle_error + Icon list" where
  "GetIcons = spec_value ''icon'' (\<lambda>v. decode_array dec_icon \<lparr>ic_Data = [], ic_MediaType = []\<rparr> v []) []"

definition GetDescription :: "ClusterServiceVersion \<Rightarrow> bundle_error + string" where
  "GetDescription = spec_value ''description'' (\<lambda>v. decode_string v []) []"

definition GetSubstitutesFor :: "ClusterServiceVersion \<Rightarrow> string" where
  "GetSubstitutesFor csv = (case gm_get (csv_Annotations csv) ''olm.substitutesFor'' of None \<Rightarrow> [] | Some s \<Rightarrow> s)"

text \<open>The files of a bundle directory: what each decodes to, or \<open>None\<close> when it cannot be opened or decoded.\<close>

datatype read_csv_error = DirUnreadable | MoreThanOneCSV | NoCSVInDir | CsvNotConvertible

fun read_csv_files ::
  "(string \<times> ClusterServiceVersion option) option list \<Rightarrow> ClusterServiceVersion option
   \<Rightarrow> read_csv_error + ClusterServiceVersion option" where
  "read_csv_files [] found = Inr found"
| "read_csv_files (f # fs) found =
     (case f of
        None \<Rightarrow> read_csv_files fs found
      | Some (kind, csv) \<Rightarrow>
          if kind \<noteq> ''ClusterServiceVersion'' then read_csv_files fs found
          else if found \<noteq> None then Inl MoreThanOneCSV
          else (case csv of None \<Rightarrow> Inl CsvNotConvertible | Some c \<Rightarrow> read_csv_files fs (Some c)))"

definition ReadCSVFromBundleDirectory ::
  "(bool \<times> (string \<times> ClusterServiceVersion option) option) list option \<Rightarrow> read_csv_error + ClusterServiceVersion" where
  "ReadCSVFromBundleDirectory dir =
     (case dir of
        None \<Rightarrow> Inl DirUnreadable
      | Some dirContent \<Rightarrow>
          bindr (read_csv_files (map snd (filter (\<lambda>e. \<not> fst e) dirContent)) None) (\<lambda>found.
          of_option NoCSVInDir found))"

section \<open>Bundles\<close>

record CRD =
  crd_Group :: string
  crd_Versions :: "string list"
  crd_Kind :: string
  crd_Plural :: string
  crd_Version :: string

text \<open>
  An object: its kind, the kind and version of its parsed group, version and kind, its name, its encoding, and
  what it converts or decodes to; \<open>None\<close> is an error of the library.
\<close>

record unstructured =
  u_Kind :: string
  u_GVKKind :: string
  u_GVKVersion :: string
  u_Name :: string
  u_HasObject :: bool
  u_Encode :: "string option"
  u_CSV :: "ClusterServiceVersion option"
  u_MarshalJSON :: bool
  u_v1crd :: "CRD option"
  u_v1beta1crd :: "CRD option"

record Bundle =
  bn_Name :: string
  bn_Objects :: "unstructured list"
  bn_Package :: string
  bn_Channels :: "string list"
  bn_BundleImage :: string
  bn_version :: string
  bn_csv :: "ClusterServiceVersion option"
  bn_v1beta1crds :: "CRD list"
  bn_v1crds :: "CRD list"
  bn_Dependencies :: "Dependency list"
  bn_Properties :: "Property list"
  bn_Annotations :: "Annotations option"
  bn_cacheStale :: bool

definition empty_bundle :: Bundle where
  "empty_bundle =
     \<lparr>bn_Name = [], bn_Objects = [], bn_Package = [], bn_Channels = [], bn_BundleImage = [], bn_version = [],
      bn_csv = None, bn_v1beta1crds = [], bn_v1crds = [], bn_Dependencies = [], bn_Properties = [],
      bn_Annotations = None, bn_cacheStale = False\<rparr>"

definition Size :: "Bundle \<Rightarrow> nat" where
  "Size b = length (bn_Objects b)"

definition Add :: "unstructured \<Rightarrow> Bundle \<Rightarrow> Bundle" where
  "Add obj b = b\<lparr>bn_Objects := bn_Objects b @ [obj], bn_cacheStale := True\<rparr>"

text \<open>\<open>None\<close> is the nil pointer, and its dereference a panic.\<close>

definition NewBundle :: "string \<Rightarrow> Annotations option \<Rightarrow> unstructured list \<Rightarrow> go_panic + Bundle" where
  "NewBundle name annotations objs =
     (case annotations of
        None \<Rightarrow> Inl NilDereference
      | Some a \<Rightarrow>
          Inr ((fold Add objs
                  (empty_bundle\<lparr>bn_Name := name, bn_Package := an_PackageName a, bn_Annotations := Some a\<rparr>))
               \<lparr>bn_Channels := strings_Split CHR '','' (an_Channels a)\<rparr>))"

text \<open>A stateful computation on a bundle that may fail.\<close>

type_synonym 'a bundle_op = "Bundle \<Rightarrow> (bundle_error + 'a) \<times> Bundle"

definition bbind :: "'a bundle_op \<Rightarrow> ('a \<Rightarrow> 'b bundle_op) \<Rightarrow> 'b bundle_op" where
  "bbind f g b = (case f b of (Inl e, b') \<Rightarrow> (Inl e, b') | (Inr x, b') \<Rightarrow> g x b')"

definition bret :: "bundle_error + 'a \<Rightarrow> 'a bundle_op" where
  "bret r b = (r, b)"

definition bget :: "(Bundle \<Rightarrow> 'a) \<Rightarrow> 'a bundle_op" where
  "bget f b = (Inr (f b), b)"

fun cache_csv :: "unstructured list \<Rightarrow> unit bundle_op" where
  "cache_csv [] b = (Inr (), b)"
| "cache_csv (o' # os) b =
     (if u_GVKKind o' = ''ClusterServiceVersion'' then
        (case u_CSV o' of None \<Rightarrow> (Inl CsvConversion, b) | Some csv \<Rightarrow> (Inr (), b\<lparr>bn_csv := Some csv\<rparr>))
      else cache_csv os b)"

fun cache_crds :: "unstructured list \<Rightarrow> unit bundle_op" where
  "cache_crds [] b = (Inr (), b)"
| "cache_crds (o' # os) b =
     (if u_GVKKind o' = ''CustomResourceDefinition'' then
        if \<not> u_MarshalJSON o' then (Inl ObjectMarshal, b)
        else if u_GVKVersion o' = ''v1'' then
          (case u_v1crd o' of
             None \<Rightarrow> (Inl (CrdDecode ''v1''), b)
           | Some crd \<Rightarrow> cache_crds os (b\<lparr>bn_v1crds := bn_v1crds b @ [crd]\<rparr>))
        else if u_GVKVersion o' = ''v1beta1'' then
          (case u_v1beta1crd o' of
             None \<Rightarrow> (Inl (CrdDecode ''v1beta1''), b)
           | Some crd \<Rightarrow> cache_crds os (b\<lparr>bn_v1beta1crds := bn_v1beta1crds b @ [crd]\<rparr>))
        else cache_crds os b
      else cache_crds os b)"

definition cache :: "unit bundle_op" where
  "cache b =
     (if \<not> bn_cacheStale b then (Inr (), b)
      else bbind (cache_csv (bn_Objects b)) (\<lambda>_.
           bbind (cache_crds (bn_Objects b)) (\<lambda>_ b'. (Inr (), b'\<lparr>bn_cacheStale := False\<rparr>))) b)"

definition Bundle_ClusterServiceVersion :: "ClusterServiceVersion option bundle_op" where
  "Bundle_ClusterServiceVersion = bbind cache (\<lambda>_. bget bn_csv)"

definition Bundle_Version :: "string bundle_op" where
  "Bundle_Version b =
     (if bn_version b \<noteq> [] then (Inr (bn_version b), b)
      else bbind cache (\<lambda>_ b'.
        case bn_csv b' of
          None \<Rightarrow> (Inr (bn_version b'), b')
        | Some csv \<Rightarrow>
            (case GetVersion csv of
               Inl e \<Rightarrow> (Inl e, b'\<lparr>bn_version := []\<rparr>)
             | Inr v \<Rightarrow> (Inr v, b'\<lparr>bn_version := v\<rparr>))) b)"

text \<open>Methods of the version object; on a nil pointer they panic.\<close>

definition with_csv :: "(ClusterServiceVersion \<Rightarrow> bundle_error + 'a) \<Rightarrow> 'a bundle_op" where
  "with_csv f =
     bbind cache (\<lambda>_. bbind (bget bn_csv) (\<lambda>c. bret (case c of None \<Rightarrow> Inl NilCsvPanic | Some csv \<Rightarrow> f csv)))"

definition Bundle_SkipRange :: "string bundle_op" where
  "Bundle_SkipRange = with_csv (\<lambda>csv. Inr (GetSkipRange csv))"

definition Bundle_Replaces :: "string bundle_op" where
  "Bundle_Replaces = with_csv GetReplaces"

definition Bundle_Skips :: "string list bundle_op" where
  "Bundle_Skips = with_csv GetSkips"

definition Bundle_Icons :: "Icon list bundle_op" where
  "Bundle_Icons = with_csv GetIcons"

definition Bundle_Description :: "string bundle_op" where
  "Bundle_Description = with_csv GetDescription"

definition Bundle_SubstitutesFor :: "string bundle_op" where
  "Bundle_SubstitutesFor = with_csv (\<lambda>csv. Inr (GetSubstitutesFor csv))"

datatype crd = V1 CRD | V1beta1 CRD

definition CustomResourceDefinitions :: "crd list bundle_op" where
  "CustomResourceDefinitions = bbind cache (\<lambda>_. bget (\<lambda>b. map V1 (bn_v1crds b) @ map V1beta1 (bn_v1beta1crds b)))"

fun crd_apis :: "crd \<Rightarrow> APIKey list" where
  "crd_apis (V1 c) =
     map (\<lambda>v. \<lparr>ak_Group = crd_Group c, ak_Version = v, ak_Kind = crd_Kind c, ak_Plural = crd_Plural c\<rparr>) (crd_Versions c)"
| "crd_apis (V1beta1 c) =
     map (\<lambda>v. \<lparr>ak_Group = crd_Group c, ak_Version = v, ak_Kind = crd_Kind c, ak_Plural = crd_Plural c\<rparr>)
       (crd_Versions c @ (if crd_Version c \<noteq> [] then [crd_Version c] else []))"

text \<open>The keys of the definitions; a nil definition is dereferenced.\<close>

fun service_api :: "DefinitionKey option \<Rightarrow> bundle_error + APIKey" where
  "service_api None = Inl NilCsvPanic"
| "service_api (Some d) =
     Inr \<lparr>ak_Group = dk_Group d, ak_Version = dk_Version d, ak_Kind = dk_Kind d, ak_Plural = dk_Name d\<rparr>"

fun crd_name_api :: "DefinitionKey option \<Rightarrow> bundle_error + APIKey" where
  "crd_name_api None = Inl NilCsvPanic"
| "crd_name_api (Some d) =
     (case strings_SplitN 2 CHR ''.'' (dk_Name d) of
        [plural, grp] \<Rightarrow> Inr \<lparr>ak_Group = grp, ak_Version = dk_Version d, ak_Kind = dk_Kind d, ak_Plural = plural\<rparr>
      | _ \<Rightarrow> Inl (BadCRDName (dk_Name d)))"

definition csv_or_panic :: "ClusterServiceVersion bundle_op" where
  "csv_or_panic = bbind Bundle_ClusterServiceVersion (\<lambda>c. bret (of_option NilCsvPanic c))"

definition ProvidedAPIs :: "APIKey list bundle_op" where
  "ProvidedAPIs b =
     (case CustomResourceDefinitions b of
        (Inl e, b') \<Rightarrow> (Inl (CrdsUnavailable e), b')
      | (Inr crds, b') \<Rightarrow>
          bbind csv_or_panic (\<lambda>csv. bret (
            bindr (GetApiServiceDefinitions csv) (\<lambda>(owned, _).
            bindr (mapM service_api owned) (\<lambda>ks. Inr (remdups (concat (map crd_apis crds) @ ks)))))) b')"

definition RequiredAPIs :: "APIKey list bundle_op" where
  "RequiredAPIs =
     bbind csv_or_panic (\<lambda>csv. bret (
       bindr (GetCustomResourceDefintions csv) (\<lambda>(_, requiredCRDs).
       bindr (mapM crd_name_api requiredCRDs) (\<lambda>ks.
       bindr (GetApiServiceDefinitions csv) (\<lambda>(_, requiredAPIs).
       bindr (mapM service_api requiredAPIs) (\<lambda>ks'. Inr (remdups (ks @ ks'))))))))"

definition AllProvidedAPIsInBundle :: "unit bundle_op" where
  "AllProvidedAPIsInBundle =
     bbind Bundle_ClusterServiceVersion (\<lambda>c.
     bbind ProvidedAPIs (\<lambda>bundleAPIs. bret (
       bindr (of_option NilCsvPanic c) (\<lambda>csv.
       bindr (GetCustomResourceDefintions csv) (\<lambda>(ownedCRDs, _).
       bindr (mapM crd_name_api ownedCRDs) (\<lambda>shouldExist.
       case find (\<lambda>k. k \<notin> set bundleAPIs) shouldExist of
         None \<Rightarrow> Inr ()
       | Some k \<Rightarrow> Inl (ApiNotInBundle k)))))))"

text \<open>The name, the text of the version object (nil when there is none) and the text of all objects.\<close>

fun serialize_objects ::
  "unstructured list \<Rightarrow> nat \<Rightarrow> string \<times> string option \<times> string \<Rightarrow> bundle_error + string \<times> string option \<times> string" where
  "serialize_objects [] n acc = Inr acc"
| "serialize_objects (obj # objs) n (csvName, csvBytes, bundleBytes) =
     (case u_Encode obj of
        None \<Rightarrow> Inl ObjectEncode
      | Some objBytes \<Rightarrow>
          if u_GVKKind obj = ''ClusterServiceVersion'' then
            if n + 1 > 1 then Inl TwoCSVs
            else serialize_objects objs (n + 1) (u_Name obj, Some objBytes, bundleBytes @ objBytes)
          else serialize_objects objs n (csvName, csvBytes, bundleBytes @ objBytes))"

definition Serialize :: "Bundle \<Rightarrow> bundle_error + string \<times> string \<times> string option \<times> string" where
  "Serialize b =
     bindr (serialize_objects (bn_Objects b) 0 ([], None, [])) (\<lambda>(csvName, csvBytes, bundleBytes).
     Inr (csvName, bn_BundleImage b, csvBytes, bundleBytes))"

definition Bundle_Images :: "(deployment \<Rightarrow> json \<Rightarrow> deployment option) \<Rightarrow> string list bundle_op" where
  "Bundle_Images dec_spec =
     bbind Bundle_ClusterServiceVersion (\<lambda>c.
     bbind (bget bn_BundleImage) (\<lambda>img. bret (
       let result = (if img \<noteq> [] then [img] else [])
       in case c of
            None \<Rightarrow> Inr result
          | Some csv \<Rightarrow>
              bindr (GetOperatorImages dec_spec csv) (\<lambda>images.
              bindr (GetRelatedImages csv) (\<lambda>related.
              Inr (remdups (result @ images @ related)))))))"

section \<open>Parsing a bundle directory\<close>

text \<open>
  A directory entry of the manifests, with the object it decodes to (\<open>None\<close> when it cannot be read or decoded), and an
  entry of the metadata, with what it decodes to as annotations, dependencies and properties.
\<close>

record manifest_file =
  mf_IsDir :: bool
  mf_Name :: string
  mf_Object :: "unstructured option"

record metadata_file =
  md_Annotations :: "Annotations option"
  md_Dependencies :: "Dependency list option"
  md_Properties :: "Property list option"

datatype parse_bundle_error = NilFS | ManifestsUnreadable | MetadataUnreadable | NoObjects | NoCsvInBundle
  | ParseBundle bundle_error | ProvidedApisCheck string bundle_error | NoAnnotations | Derive bundle_error | DeriveNoCsv

fun add_manifests :: "manifest_file list \<Rightarrow> bool \<Rightarrow> Bundle \<Rightarrow> Bundle" where
  "add_manifests [] csvFound b = b"
| "add_manifests (f # fs) csvFound b =
     (if mf_IsDir f \<or> strings_HasPrefix (mf_Name f) ''.'' then add_manifests fs csvFound b
      else
        (case mf_Object f of
           None \<Rightarrow> add_manifests fs csvFound b
         | Some obj \<Rightarrow>
             if u_Kind obj = ''ClusterServiceVersion'' \<and> csvFound then add_manifests fs csvFound b
             else add_manifests fs (csvFound \<or> u_Kind obj = ''ClusterServiceVersion'')
                    (if u_HasObject obj then Add obj b else b)))"

definition addManifests :: "manifest_file list option \<Rightarrow> Bundle \<Rightarrow> parse_bundle_error + Bundle" where
  "addManifests files bundle =
     (case files of
        None \<Rightarrow> Inl ManifestsUnreadable
      | Some fs \<Rightarrow>
          let b = add_manifests fs False bundle
          in if Size b = 0 then Inl NoObjects
             else
               (case Bundle_ClusterServiceVersion b of
                  (Inl e, _) \<Rightarrow> Inl (ParseBundle e)
                | (Inr None, _) \<Rightarrow> Inl NoCsvInBundle
                | (Inr (Some csv), b1) \<Rightarrow>
                    (case AllProvidedAPIsInBundle (b1\<lparr>bn_Name := csv_Name csv\<rparr>) of
                       (Inl e, _) \<Rightarrow> Inl (ProvidedApisCheck (csv_Name csv) e)
                     | (Inr _, b2) \<Rightarrow> Inr b2)))"

text \<open>The first file that decodes to something that is not empty, for each of the three kinds.\<close>

definition empty_annotations :: Annotations where
  "empty_annotations = \<lparr>an_PackageName = [], an_Channels = [], an_DefaultChannelName = []\<rparr>"

definition scan_metadata :: "metadata_file list \<Rightarrow> Annotations option \<times> Dependency list option \<times> Property list option" where
  "scan_metadata files =
     (map_option (the \<circ> md_Annotations) (find (\<lambda>f. md_Annotations f \<noteq> None \<and> md_Annotations f \<noteq> Some empty_annotations) files),
      map_option (the \<circ> md_Dependencies) (find (\<lambda>f. md_Dependencies f \<noteq> None \<and> md_Dependencies f \<noteq> Some []) files),
      map_option (the \<circ> md_Properties) (find (\<lambda>f. md_Properties f \<noteq> None \<and> md_Properties f \<noteq> Some []) files))"

definition addMetadata :: "metadata_file list option \<Rightarrow> Bundle \<Rightarrow> parse_bundle_error + Bundle" where
  "addMetadata files bundle =
     (case files of
        None \<Rightarrow> Inl MetadataUnreadable
      | Some fs \<Rightarrow>
          (case scan_metadata fs of
             (None, _) \<Rightarrow> Inl NoAnnotations
           | (Some af, df, pf) \<Rightarrow>
               Inr (bundle\<lparr>bn_Annotations := Some af, bn_Package := an_PackageName af,
                           bn_Channels := AnnotationsFile_GetChannels af,
                           bn_Dependencies := bn_Dependencies bundle @ (case df of None \<Rightarrow> [] | Some ds \<Rightarrow> ds),
                           bn_Properties := bn_Properties bundle @ (case pf of None \<Rightarrow> [] | Some ps \<Rightarrow> ps)\<rparr>)))"

definition Property_String :: "Property \<Rightarrow> string" where
  "Property_String p = ''type: '' @ p_Type p @ '', value: '' @ raw_bytes (p_Value p)"

fun property_set :: "Property list \<Rightarrow> string list \<Rightarrow> Property list" where
  "property_set [] visited = []"
| "property_set (p # ps) visited =
     (if Property_String p \<in> set visited then property_set ps visited
      else p # property_set ps (Property_String p # visited))"

definition propertySet :: "Property list \<Rightarrow> Property list" where
  "propertySet ps = property_set ps []"

text \<open>
  The properties of an annotation of the version object: decoding a list of properties from text is an argument,
  which gives what was decoded before an error. Marshalling a struct of strings never fails.
\<close>

definition package_property :: "string \<Rightarrow> string \<Rightarrow> Property" where
  "package_property pkg version =
     \<lparr>p_Type = PackageType,
      p_Value = Some (json_print True (JObj [(''packageName'', JStr pkg), (''version'', JStr version)]))\<rparr>"

definition gvk_property :: "APIKey \<Rightarrow> Property" where
  "gvk_property k =
     \<lparr>p_Type = GVKType,
      p_Value = Some (json_print True
        (JObj [(''group'', JStr (ak_Group k)), (''kind'', JStr (ak_Kind k)), (''version'', JStr (ak_Version k))]))\<rparr>"

definition derivedProperties ::
  "(string \<Rightarrow> Property list) \<Rightarrow> Bundle \<Rightarrow> parse_bundle_error + Property list \<times> Bundle" where
  "derivedProperties decode_props bundle =
     (case Bundle_ClusterServiceVersion bundle of
        (Inl e, _) \<Rightarrow> Inl (Derive e)
      | (Inr None, _) \<Rightarrow> Inl DeriveNoCsv
      | (Inr (Some csv), b1) \<Rightarrow>
          let derived = (case gm_get (csv_Annotations csv) PropertyKey of None \<Rightarrow> [] | Some t \<Rightarrow> decode_props t);
              with_pkg =
                (case bn_Annotations b1 of
                   Some an \<Rightarrow>
                     if an_PackageName an \<noteq> [] then
                       (case Bundle_Version b1 of
                          (Inl e, b2) \<Rightarrow> (Inl e, b2)
                        | (Inr v, b2) \<Rightarrow> (Inr (package_property (an_PackageName an) v # derived), b2))
                     else (Inr derived, b1)
                 | None \<Rightarrow> (Inr derived, b1))
          in case with_pkg of
               (Inl e, _) \<Rightarrow> Inl (Derive e)
             | (Inr ps, b2) \<Rightarrow>
                 (case ProvidedAPIs b2 of
                    (Inl e, _) \<Rightarrow> Inl (Derive e)
                  | (Inr apis, b3) \<Rightarrow> Inr (propertySet (ps @ map gvk_property apis), b3)))"

definition bundle_Parse ::
  "(string \<Rightarrow> Property list) \<Rightarrow> (manifest_file list option \<times> metadata_file list option) option
   \<Rightarrow> parse_bundle_error + Bundle" where
  "bundle_Parse decode_props root =
     (case root of
        None \<Rightarrow> Inl NilFS
      | Some (manifests, metadata) \<Rightarrow>
          bindr (addManifests manifests empty_bundle) (\<lambda>b1.
          bindr (addMetadata metadata b1) (\<lambda>b2.
          bindr (derivedProperties decode_props b2) (\<lambda>(derived, b3).
          Inr (b3\<lparr>bn_Properties := propertySet (bn_Properties b3 @ derived)\<rparr>)))))"

section \<open>Splitting and converting\<close>

text \<open>
  A bundle string is a sequence of JSON values. The decoder is done when only white space is left, or when the next
  character closes an array or an object.
\<close>

fun split_values :: "nat \<Rightarrow> string \<Rightarrow> string list option" where
  "split_values 0 s = None"
| "split_values (Suc n) s =
     (let t = skip_ws s
      in if t = [] \<or> hd t = CHR '']'' \<or> hd t = CHR ''}'' then Some []
         else
           (case parse_value (Suc (2 * length t)) t of
              None \<Rightarrow> None
            | Some (v, r) \<Rightarrow>
                if json_depth v > 10000 then None
                else map_option ((#) (take (length t - length r) t)) (split_values n r)))"

definition BundleStringToObjectStrings :: "string \<Rightarrow> string list option" where
  "BundleStringToObjectStrings s = split_values (Suc (length s)) s"

text \<open>The kind and the name of an object text, from the decoder; \<open>None\<close> when it does not decode.\<close>

fun find_csv :: "(string \<Rightarrow> (string \<times> string) option) \<Rightarrow> string list \<Rightarrow> (string \<times> string) option option" where
  "find_csv decode [] = Some None"
| "find_csv decode (o' # os) =
     (case decode o' of
        None \<Rightarrow> None
      | Some (kind, name) \<Rightarrow> if kind = ''ClusterServiceVersion'' then Some (Some (name, o')) else find_csv decode os)"

definition BundleStringToAPIBundle :: "(string \<Rightarrow> (string \<times> string) option) \<Rightarrow> string \<Rightarrow> ApiBundle option" where
  "BundleStringToAPIBundle decode s =
     Option.bind (BundleStringToObjectStrings s) (\<lambda>objs.
     Option.bind (find_csv decode objs) (\<lambda>r.
       case r of
         None \<Rightarrow> None
       | Some (name, text) \<Rightarrow>
           if name = [] then None
           else Some \<lparr>ab_CsvName = name, ab_PackageName = [], ab_ChannelName = [], ab_CsvJson = text, ab_Object = objs,
                      ab_BundlePath = [], ab_ProvidedApis = [], ab_RequiredApis = [], ab_Version = [], ab_SkipRange = [],
                      ab_Dependencies = [], ab_Properties = [], ab_Replaces = [], ab_Skips = []\<rparr>))"

definition PackageChannelToAPIChannel :: "PackageChannel \<Rightarrow> ApiChannel" where
  "PackageChannelToAPIChannel c = \<lparr>ac_Name = pc_Name c, ac_CsvName = pc_CurrentCSVName c\<rparr>"

definition PackageManifestToAPIPackage :: "PackageManifest \<Rightarrow> ApiPackage" where
  "PackageManifestToAPIPackage m =
     \<lparr>apk_Name = pm_PackageName m, apk_Channels = map PackageChannelToAPIChannel (pm_Channels m),
      apk_DefaultChannelName = pm_DefaultChannelName m\<rparr>"

definition ChannelEntryToAPIChannelEntry :: "ChannelEntry \<Rightarrow> ApiChannelEntry" where
  "ChannelEntryToAPIChannelEntry e =
     \<lparr>ace_PackageName = ce_PackageName e, ace_ChannelName = ce_ChannelName e, ace_BundleName = ce_BundleName e,
      ace_Replaces = ce_Replaces e\<rparr>"

text \<open>A bundle from the texts of a database row; decoding a text to an object is an argument.\<close>

definition NewBundleFromStrings ::
  "(string \<Rightarrow> unstructured option) \<Rightarrow> string \<Rightarrow> string \<Rightarrow> string \<Rightarrow> string \<Rightarrow> string \<Rightarrow> string \<Rightarrow> Bundle option" where
  "NewBundleFromStrings decode name version pkg defaultChannel channels objs =
     Option.bind (BundleStringToObjectStrings objs) (\<lambda>objStrs.
     Option.bind (those (map decode objStrs)) (\<lambda>unstObjs.
       case NewBundle name (Some \<lparr>an_PackageName = pkg, an_Channels = channels, an_DefaultChannelName = defaultChannel\<rparr>) unstObjs of
         Inl _ \<Rightarrow> None
       | Inr b \<Rightarrow> Some (b\<lparr>bn_version := version\<rparr>)))"

section \<open>What Serialize writes can be split again\<close>

definition object_text :: "json \<Rightarrow> string" where
  "object_text v = json_print True v"

definition object_ok :: "json \<Rightarrow> bool" where
  "object_ok v \<longleftrightarrow> json_wf v \<and> json_depth v \<le> 10000 \<and> (\<exists>ms. v = JObj ms)"

lemma object_text_first: "object_ok v \<Longrightarrow> \<exists>u. object_text v = CHR ''{'' # u"
  by (auto simp: object_ok_def object_text_def)

lemma parse_object_text:
  assumes "object_ok v" "ends_number r"
  shows "parse_value (Suc (2 * length (object_text v @ r))) (object_text v @ r) = Some (v, r)"
proof -
  let ?s = "object_text v @ r"
  have "parse_value (Suc (2 * length ?s + size v)) ?s = Some (v, r)"
    unfolding object_text_def by (rule parse_value_print) (use assms in \<open>simp_all add: object_ok_def\<close>)
  then show ?thesis using parse_value_fuel [of ?s "Suc (2 * length ?s + size v)"] by simp
qed

lemma ends_number_newline [simp]: "ends_number (CHR 0x0A # r)"
  by (simp add: ends_number_def is_digit_def byte_def)

lemma split_newline: "split_values n (CHR 0x0A # s) = split_values n s"
  by (cases n) (simp_all add: skip_ws_def is_ws_def)

lemma split_values_texts:
  "list_all object_ok vs \<Longrightarrow> length vs < n \<Longrightarrow>
     split_values n (concat (map (\<lambda>v. object_text v @ [CHR 0x0A]) vs)) = Some (map object_text vs)"
proof (induction vs arbitrary: n)
  case Nil
  then show ?case by (cases n) auto
next
  case (Cons v vs)
  let ?rest = "concat (map (\<lambda>v. object_text v @ [CHR 0x0A]) vs)"
  let ?s = "object_text v @ CHR 0x0A # ?rest"
  obtain m where m: "n = Suc m" "length vs < m" using Cons.prems by (cases n) auto
  have ok: "object_ok v" using Cons.prems by simp
  obtain u where u: "object_text v = CHR ''{'' # u" using object_text_first [OF ok] by blast
  then have ws: "skip_ws ?s = ?s" by (simp add: skip_ws_Cons is_ws_def byte_def)
  have parse: "parse_value (Suc (2 * length ?s)) ?s = Some (v, CHR 0x0A # ?rest)"
    by (rule parse_object_text [OF ok]) simp
  have "split_values n ?s = map_option ((#) (object_text v)) (split_values m (CHR 0x0A # ?rest))"
    unfolding m(1) split_values.simps Let_def ws parse using ok u by (simp add: object_ok_def)
  also have "\<dots> = Some (object_text v # map object_text vs)"
    using Cons.IH [OF _ m(2)] Cons.prems by (simp add: split_newline)
  finally show ?case by simp
qed

lemma serialize_objects_bytes:
  assumes "serialize_objects os n acc = Inr (name, csv, bytes)" "list_all2 (\<lambda>o' v. u_Encode o' = Some (object_text v @ [CHR 0x0A])) os vs"
  shows "bytes = snd (snd acc) @ concat (map (\<lambda>v. object_text v @ [CHR 0x0A]) vs)"
  using assms(2,1)
proof (induction os vs arbitrary: n acc rule: list_all2_induct)
  case (Cons o' os v vs)
  obtain cn cb bb where acc: "acc = (cn, cb, bb)" by (cases acc) auto
  with Cons.prems Cons.hyps(1) obtain m cn' cb' where
    "serialize_objects os m (cn', cb', bb @ object_text v @ [CHR 0x0A]) = Inr (name, csv, bytes)"
    by (auto split: if_splits)
  from Cons.IH [OF this] acc show ?case by simp
qed auto

text \<open>
  C16: When every object of a bundle is encoded as a JSON object and a newline, what \<^verbatim>\<open>Serialize\<close> writes for the
  bundle is split by \<^verbatim>\<open>BundleStringToObjectStrings\<close> into exactly the texts of its objects, in order.
\<close>

theorem Serialize_split:
  assumes "Serialize b = Inr (name, img, csv, bytes)"
    and "list_all2 (\<lambda>o' v. u_Encode o' = Some (object_text v @ [CHR 0x0A])) (bn_Objects b) vs" and "list_all object_ok vs"
  shows "BundleStringToObjectStrings bytes = Some (map object_text vs)"
proof -
  obtain r where "serialize_objects (bn_Objects b) 0 ([], None, []) = Inr (name, csv, bytes)"
    using assms(1) by (auto simp: Serialize_def)
  then have bytes: "bytes = concat (map (\<lambda>v. object_text v @ [CHR 0x0A]) vs)"
    using serialize_objects_bytes [OF _ assms(2)] by fastforce
  have "length vs \<le> length bytes" unfolding bytes by (induction vs) auto
  then show ?thesis
    using split_values_texts [OF assms(3), of "Suc (length bytes)"]
    by (simp add: BundleStringToObjectStrings_def bytes)
qed

definition sample_object :: "string \<Rightarrow> json \<Rightarrow> unstructured" where
  "sample_object kind v =
     \<lparr>u_Kind = kind, u_GVKKind = kind, u_GVKVersion = ''v1'', u_Name = ''n'', u_HasObject = True,
      u_Encode = Some (object_text v @ [CHR 0x0A]),
      u_CSV = Some \<lparr>csv_Name = ''n'', csv_Annotations = [], csv_Spec = Some (object_text v)\<rparr>,
      u_MarshalJSON = True, u_v1crd = None, u_v1beta1crd = None\<rparr>"

definition sample_values_json :: "json list" where
  "sample_values_json = [JObj [], JObj [(''a'', JNull)]]"

definition sample_registry_bundle :: Bundle where
  "sample_registry_bundle =
     empty_bundle\<lparr>bn_Objects := map (sample_object ''Service'') sample_values_json\<rparr>"

theorem Serialize_split_witness:
  "BundleStringToObjectStrings (concat (map (\<lambda>v. object_text v @ [CHR 0x0A]) sample_values_json))
     = Some (map object_text sample_values_json)"
  by (rule Serialize_split [where b = sample_registry_bundle and name = "[]" and img = "[]" and csv = None])
    (simp_all add: Serialize_def sample_registry_bundle_def sample_values_json_def sample_object_def empty_bundle_def
      object_ok_def valid_utf8_literal byte_def)

section \<open>What a parsed bundle satisfies\<close>

text \<open>Filling the cache leaves everything else as it is.\<close>

definition same_content :: "Bundle \<Rightarrow> Bundle \<Rightarrow> bool" where
  "same_content b b' \<longleftrightarrow>
     bn_Name b' = bn_Name b \<and> bn_Objects b' = bn_Objects b \<and> bn_Package b' = bn_Package b \<and> bn_Channels b' = bn_Channels b
     \<and> bn_BundleImage b' = bn_BundleImage b \<and> bn_Dependencies b' = bn_Dependencies b
     \<and> bn_Properties b' = bn_Properties b \<and> bn_Annotations b' = bn_Annotations b"

lemma same_content_refl [simp]: "same_content b b"
  by (simp add: same_content_def)

lemma same_content_trans: "same_content a b \<Longrightarrow> same_content b c \<Longrightarrow> same_content a c"
  by (simp add: same_content_def)

lemma cache_csv_content: "same_content b (snd (cache_csv os b))"
  by (induction os b rule: cache_csv.induct) (auto simp: same_content_def split: option.split)

lemma cache_crds_content:
  "same_content b (snd (cache_crds os b)) \<and> bn_csv (snd (cache_crds os b)) = bn_csv b"
  by (induction os b rule: cache_crds.induct) (auto simp: same_content_def split: option.split)

lemma cache_csv_fresh:
  "fst (cache_csv os b) = Inr () \<Longrightarrow> bn_cacheStale (snd (cache_csv os b)) = bn_cacheStale b"
  by (induction os b rule: cache_csv.induct) (auto split: option.split)

lemma cache_content: "same_content b (snd (cache b))"
proof -
  obtain r b1 where 1: "cache_csv (bn_Objects b) b = (r, b1)" by fastforce
  obtain q b2 where 2: "cache_crds (bn_Objects b) b1 = (q, b2)" by fastforce
  have "same_content b b1" "same_content b1 b2"
    using cache_csv_content [of b "bn_Objects b"] cache_crds_content [of b1 "bn_Objects b"] 1 2 by simp_all
  then show ?thesis
    using same_content_trans by (auto simp: cache_def bbind_def 1 2 same_content_def split: sum.split)
qed

lemma cache_ok: "cache b = (Inr (), b') \<Longrightarrow> \<not> bn_cacheStale b'"
  by (auto simp: cache_def bbind_def split: if_splits prod.splits sum.splits)

lemma cache_done [simp]: "\<not> bn_cacheStale b \<Longrightarrow> cache b = (Inr (), b)"
  by (simp add: cache_def)

lemmas bundle_ops = bbind_def bret_def bget_def Bundle_ClusterServiceVersion_def CustomResourceDefinitions_def csv_or_panic_def

lemma cached_csv: "\<not> bn_cacheStale b \<Longrightarrow> Bundle_ClusterServiceVersion b = (Inr (bn_csv b), b)"
  by (simp add: bundle_ops)

lemma csv_ok:
  assumes "Bundle_ClusterServiceVersion b = (Inr c, b')"
  shows "\<not> bn_cacheStale b' \<and> bn_csv b' = c \<and> same_content b b'"
  using assms cache_ok [of b] cache_content [of b] by (auto simp: bundle_ops split: prod.splits sum.splits)

lemma cached_ProvidedAPIs: "\<not> bn_cacheStale b \<Longrightarrow> snd (ProvidedAPIs b) = b"
  by (simp add: ProvidedAPIs_def bundle_ops split: sum.split)

lemma cached_ProvidedAPIs_eq:
  assumes "\<not> bn_cacheStale b" "\<not> bn_cacheStale b'" "bn_csv b' = bn_csv b" "bn_v1crds b' = bn_v1crds b"
    "bn_v1beta1crds b' = bn_v1beta1crds b"
  shows "fst (ProvidedAPIs b') = fst (ProvidedAPIs b)"
  using assms by (simp add: ProvidedAPIs_def bundle_ops split: sum.split)

lemma cached_Version:
  assumes "\<not> bn_cacheStale b" "Bundle_Version b = (Inr v, b')"
  shows "b' = b\<lparr>bn_version := v\<rparr>"
  using assms by (auto simp: Bundle_Version_def bundle_ops split: if_splits option.splits sum.splits)

lemma cached_AllProvided:
  assumes b: "\<not> bn_cacheStale b" "bn_csv b = Some csv" and ok: "AllProvidedAPIsInBundle b = (Inr (), b')"
  shows "b' = b \<and> (\<exists>owned req ks apis. GetCustomResourceDefintions csv = Inr (owned, req) \<and> mapM crd_name_api owned = Inr ks
    \<and> fst (ProvidedAPIs b) = Inr apis \<and> set ks \<subseteq> set apis)"
proof -
  obtain apis where p: "ProvidedAPIs b = (Inr apis, b)"
    using ok cached_ProvidedAPIs [OF b(1)] b
    by (cases "ProvidedAPIs b"; cases "fst (ProvidedAPIs b)")
      (auto simp: AllProvidedAPIsInBundle_def bbind_def cached_csv)
  obtain owned req ks where "GetCustomResourceDefintions csv = Inr (owned, req)" "mapM crd_name_api owned = Inr ks"
    "find (\<lambda>k. k \<notin> set apis) ks = None" "b' = b"
    using ok b p
    by (cases "GetCustomResourceDefintions csv")
      (auto simp: AllProvidedAPIsInBundle_def bbind_def cached_csv bret_def split: option.splits prod.splits)
  with p show ?thesis by (auto simp: find_None_iff)
qed

lemma property_set_distinct:
  "distinct (map Property_String (property_set ps visited))
   \<and> Property_String ` set (property_set ps visited) = Property_String ` set ps - set visited"
  by (induction ps arbitrary: visited) auto

lemma propertySet_props:
  "distinct (map Property_String (propertySet ps))" "Property_String ` set (propertySet ps) = Property_String ` set ps"
  using property_set_distinct [of ps "[]"] by (simp_all add: propertySet_def)

definition csv_objects :: "Bundle \<Rightarrow> unstructured list" where
  "csv_objects b = filter (\<lambda>o'. u_Kind o' = ''ClusterServiceVersion'') (bn_Objects b)"

lemma add_manifests_one_csv:
  "length (csv_objects b) \<le> (if found then 1 else 0) \<Longrightarrow> length (csv_objects (add_manifests fs found b)) \<le> 1"
proof (induction fs arbitrary: found b)
  case (Cons f fs)
  show ?case
  proof (cases "mf_IsDir f \<or> strings_HasPrefix (mf_Name f) ''.''")
    case False
    then show ?thesis
    proof (cases "mf_Object f")
      case (Some obj)
      let ?found = "found \<or> u_Kind obj = ''ClusterServiceVersion''"
      have "length (csv_objects (if u_HasObject obj then Add obj b else b)) \<le> (if ?found then 1 else 0)"
        if "\<not> (u_Kind obj = ''ClusterServiceVersion'' \<and> found)"
        using that Cons.prems by (auto simp: csv_objects_def Add_def split: if_splits)
      with Cons.IH [of "if u_HasObject obj then Add obj b else b" ?found] Cons.IH [of b found] Cons.prems False Some
      show ?thesis by (cases "u_Kind obj = ''ClusterServiceVersion'' \<and> found") (auto split: if_splits)
    qed (use Cons in simp)
  qed (use Cons in simp)
qed (auto split: if_splits)

lemma addManifests_ok:
  assumes "addManifests files empty_bundle = Inr b"
  shows "\<exists>csv. bn_csv b = Some csv \<and> bn_Name b = csv_Name csv \<and> \<not> bn_cacheStale b \<and> length (csv_objects b) \<le> 1
    \<and> (\<exists>owned req ks apis. GetCustomResourceDefintions csv = Inr (owned, req) \<and> mapM crd_name_api owned = Inr ks
         \<and> fst (ProvidedAPIs b) = Inr apis \<and> set ks \<subseteq> set apis)"
proof -
  obtain fs where fs: "files = Some fs" using assms by (cases files) (auto simp: addManifests_def)
  let ?b = "add_manifests fs False empty_bundle"
  obtain csv b1 where c: "Bundle_ClusterServiceVersion ?b = (Inr (Some csv), b1)"
    "AllProvidedAPIsInBundle (b1\<lparr>bn_Name := csv_Name csv\<rparr>) = (Inr (), b)"
    using assms fs by (auto simp: addManifests_def Let_def split: if_splits prod.splits sum.splits option.splits)
  have b1: "\<not> bn_cacheStale b1" "bn_csv b1 = Some csv" "same_content ?b b1" using csv_ok [OF c(1)] by auto
  have "length (csv_objects ?b) \<le> 1" by (rule add_manifests_one_csv) (simp add: csv_objects_def empty_bundle_def)
  then have "length (csv_objects b1) \<le> 1" using b1(3) by (simp add: csv_objects_def same_content_def)
  with cached_AllProvided [OF _ _ c(2), of csv] b1 show ?thesis by (auto simp: csv_objects_def)
qed

lemma derived_ok:
  assumes ok: "derivedProperties decode_props b = Inr (derived, b')"
    and b: "bn_Annotations b = Some an" "bn_csv b = Some csv" "\<not> bn_cacheStale b"
  shows "\<exists>v. b' = b\<lparr>bn_version := v\<rparr> \<and>
    (an_PackageName an = [] \<or> Property_String (package_property (an_PackageName an) v) \<in> Property_String ` set derived)"
proof -
  let ?d = "case gm_get (csv_Annotations csv) PropertyKey of None \<Rightarrow> [] | Some t \<Rightarrow> decode_props t"
  obtain ps b2 apis where r: "(if an_PackageName an = [] then ps = ?d \<and> b2 = b
      else \<exists>v. Bundle_Version b = (Inr v, b2) \<and> ps = package_property (an_PackageName an) v # ?d)"
    "ProvidedAPIs b2 = (Inr apis, b')" "derived = propertySet (ps @ map gvk_property apis)"
    using ok b by (auto simp: derivedProperties_def cached_csv Let_def split: if_splits prod.splits sum.splits option.splits)
  have b2: "\<exists>v. b2 = b\<lparr>bn_version := v\<rparr> \<and> (an_PackageName an = [] \<or> package_property (an_PackageName an) v \<in> set ps)"
  proof (cases "an_PackageName an = []")
    case True
    then show ?thesis using r(1) by (intro exI [of _ "bn_version b"]) simp
  next
    case False
    then show ?thesis using r(1) cached_Version [OF b(3)] by auto
  qed
  then have "b' = b2" using cached_ProvidedAPIs [of b2] r(2) b(3) by auto
  with b2 show ?thesis unfolding r(3) propertySet_props(2) by auto
qed

text \<open>
  C15: A bundle that \<^verbatim>\<open>Parse\<close> returns has a version object and is named after it, has at most one object of that kind
  although the directory may have more, has its package from the annotations, states no property twice, states the
  package with its version when it has one, and contains a definition for every CRD that the version object owns.
\<close>

theorem bundle_Parse_spec:
  assumes "bundle_Parse decode_props (Some (manifests, metadata)) = Inr b"
  shows "\<exists>csv an owned req ks apis.
    bn_csv b = Some csv \<and> bn_Name b = csv_Name csv \<and> length (csv_objects b) \<le> 1
    \<and> bn_Annotations b = Some an \<and> bn_Package b = an_PackageName an
    \<and> distinct (map Property_String (bn_Properties b))
    \<and> (an_PackageName an = [] \<or>
         Property_String (package_property (an_PackageName an) (bn_version b)) \<in> Property_String ` set (bn_Properties b))
    \<and> GetCustomResourceDefintions csv = Inr (owned, req) \<and> mapM crd_name_api owned = Inr ks
    \<and> fst (ProvidedAPIs b) = Inr apis \<and> set ks \<subseteq> set apis"
proof -
  obtain b1 b2 b3 derived where s: "addManifests manifests empty_bundle = Inr b1" "addMetadata metadata b1 = Inr b2"
    "derivedProperties decode_props b2 = Inr (derived, b3)" "b = b3\<lparr>bn_Properties := propertySet (bn_Properties b3 @ derived)\<rparr>"
    using assms by (auto simp: bundle_Parse_def)
  obtain csv owned req ks apis where b1: "bn_csv b1 = Some csv" "bn_Name b1 = csv_Name csv" "\<not> bn_cacheStale b1"
    "length (csv_objects b1) \<le> 1" "GetCustomResourceDefintions csv = Inr (owned, req)" "mapM crd_name_api owned = Inr ks"
    "fst (ProvidedAPIs b1) = Inr apis" "set ks \<subseteq> set apis"
    using addManifests_ok [OF s(1)] by blast
  obtain an where b2: "bn_Annotations b2 = Some an" "bn_Package b2 = an_PackageName an" "bn_csv b2 = Some csv"
    "bn_Name b2 = bn_Name b1" "bn_Objects b2 = bn_Objects b1" "\<not> bn_cacheStale b2" "bn_v1crds b2 = bn_v1crds b1"
    "bn_v1beta1crds b2 = bn_v1beta1crds b1"
    using s(2) b1 by (auto simp: addMetadata_def split: option.splits prod.splits)
  have b3: "\<exists>v. b3 = b2\<lparr>bn_version := v\<rparr> \<and>
      (an_PackageName an = [] \<or> Property_String (package_property (an_PackageName an) v) \<in> Property_String ` set derived)"
    using derived_ok [OF s(3) b2(1,3,6)] .
  then obtain v where v: "b3 = b2\<lparr>bn_version := v\<rparr>"
    "an_PackageName an = [] \<or> Property_String (package_property (an_PackageName an) v) \<in> Property_String ` set derived" by blast
  have "fst (ProvidedAPIs b) = fst (ProvidedAPIs b1)"
    by (rule cached_ProvidedAPIs_eq) (use b1 b2 v(1) s(4) in simp_all)
  moreover have "csv_objects b = csv_objects b1" using b2 v(1) s(4) by (simp add: csv_objects_def)
  moreover have "Property_String ` set derived \<subseteq> Property_String ` set (bn_Properties b)"
    using s(4) by (auto simp: propertySet_props)
  ultimately show ?thesis
    using b1 b2 v s(4) propertySet_props(1) by (intro exI conjI) auto
qed

definition sample_root :: "manifest_file list option \<times> metadata_file list option" where
  "sample_root =
     (Some [\<lparr>mf_IsDir = False, mf_Name = ''a'', mf_Object = Some (sample_object ''ClusterServiceVersion'' (JObj []))\<rparr>,
            \<lparr>mf_IsDir = False, mf_Name = ''b'', mf_Object = Some (sample_object ''ClusterServiceVersion'' (JObj []))\<rparr>],
      Some [\<lparr>md_Annotations = Some \<lparr>an_PackageName = ''p'', an_Channels = ''a'', an_DefaultChannelName = []\<rparr>,
             md_Dependencies = None, md_Properties = None\<rparr>])"

theorem bundle_Parse_spec_witness:
  "\<exists>b csv an. bundle_Parse (\<lambda>_. []) (Some sample_root) = Inr b \<and> bn_csv b = Some csv \<and> bn_Name b = csv_Name csv
     \<and> length (csv_objects b) \<le> 1 \<and> bn_Annotations b = Some an \<and> bn_Package b = an_PackageName an
     \<and> distinct (map Property_String (bn_Properties b))"
proof -
  have "\<not> isl (bundle_Parse (\<lambda>_. []) (Some sample_root))" by code_simp
  then obtain b where b: "bundle_Parse (\<lambda>_. []) (Some sample_root) = Inr b"
    by (cases "bundle_Parse (\<lambda>_. []) (Some sample_root)") auto
  then have "bundle_Parse (\<lambda>_. []) (Some (fst sample_root, snd sample_root)) = Inr b" by simp
  from bundle_Parse_spec [OF this] b show ?thesis by blast
qed

end
