(* ===== verification/Graph.thy ===== *)
theory Graph
  imports Semver Registry_Bundle
begin

text \<open>
  Upgrade graphs: \<^verbatim>\<open>pkg/registry/graph.go\<close>, the loader that inserts a bundle by its version
  (\<^verbatim>\<open>bundlegraphloader.go\<close>), the loader that reads a package directory (\<^verbatim>\<open>directoryGraphLoader.go\<close>), the
  graph of the channel entries of a database (\<^verbatim>\<open>pkg/sqlite/graphloader.go\<close>), and the choice of channel heads by
  version (\<open>SemverPackageManifest\<close> of \<^verbatim>\<open>populator.go\<close>). A set of bundle keys is a list without duplicates.
\<close>

record BundleKey =
  bk_BundlePath :: string
  bk_Version :: string
  bk_CsvName :: string

record GraphChannel =
  gc_Head :: BundleKey
  gc_Nodes :: "(BundleKey, BundleKey list) gomap"

record GraphPackage =
  gp_Name :: string
  gp_DefaultChannel :: string
  gp_Channels :: "(string, GraphChannel) gomap"

definition empty_key :: BundleKey where
  "empty_key = \<lparr>bk_BundlePath = [], bk_Version = [], bk_CsvName = []\<rparr>"

definition BundleKey_IsEmpty :: "BundleKey \<Rightarrow> bool" where
  "BundleKey_IsEmpty b \<longleftrightarrow> bk_BundlePath b = [] \<and> bk_Version b = [] \<and> bk_CsvName b = []"

definition HasChannel :: "GraphPackage \<Rightarrow> string \<Rightarrow> bool" where
  "HasChannel p channel \<longleftrightarrow> gm_has (gp_Channels p) channel"

definition HasCsv :: "GraphPackage \<Rightarrow> string \<Rightarrow> bool" where
  "HasCsv p csv \<longleftrightarrow> list_ex (\<lambda>(_, ch). list_ex (\<lambda>(node, _). bk_CsvName node = csv) (gc_Nodes ch)) (gp_Channels p)"

section \<open>Inserting a bundle by its version\<close>

datatype graph_error = NoBundleVersion | BundleVersionInvalid | DefaultChannelMissing | StoredVersionInvalid BundleKey
  | VersionAlreadyAdded | NoChannelHead string | ManyChannelHeads string "BundleKey list"

definition zero_version :: Version where
  "zero_version = \<lparr>v_Major = 0, v_Minor = 0, v_Patch = 0, v_Pre = [], v_Build = []\<rparr>"

text \<open>The version of a parse whose error is ignored.\<close>

definition version_or_zero :: "string \<Rightarrow> Version" where
  "version_or_zero s = (case Version_Parse s of Inl _ \<Rightarrow> zero_version | Inr v \<Rightarrow> v)"

definition isSkipPatchCandidate :: "Version \<Rightarrow> Version \<Rightarrow> bool" where
  "isSkipPatchCandidate version toCompare \<longleftrightarrow>
     v_Major version = v_Major toCompare \<and> v_Minor version = v_Minor toCompare \<and> Version_GT version toCompare"

text \<open>The nodes around the new version, the nodes to skip, and what the new node replaces.\<close>

record scan_state =
  lowestAhead :: BundleKey
  greatestBehind :: BundleKey
  skipPatchCandidates :: "BundleKey list"
  replaces_set :: "BundleKey list"

definition scan_node :: "bool \<Rightarrow> Version \<Rightarrow> scan_state \<Rightarrow> BundleKey \<Rightarrow> graph_error + scan_state" where
  "scan_node skippatch versionToAdd st node =
     (case Version_Parse (bk_Version node) of
        Inl _ \<Rightarrow> Inl (StoredVersionInvalid node)
      | Inr nodeVersion \<Rightarrow>
          let comparison = Version_Compare nodeVersion versionToAdd
          in if comparison = 0 then Inl VersionAlreadyAdded
             else
               let st1 =
                 (if comparison = 1 then
                    if BundleKey_IsEmpty (lowestAhead st)
                       \<or> Version_LT nodeVersion (version_or_zero (bk_Version (lowestAhead st)))
                    then st\<lparr>lowestAhead := node\<rparr> else st
                  else
                    if BundleKey_IsEmpty (greatestBehind st)
                       \<or> Version_GT nodeVersion (version_or_zero (bk_Version (greatestBehind st)))
                    then st\<lparr>greatestBehind := node\<rparr> else st)
               in if skippatch \<and> isSkipPatchCandidate versionToAdd nodeVersion then
                    Inr (st1\<lparr>skipPatchCandidates := skipPatchCandidates st1 @ [node],
                             replaces_set := List.insert node (replaces_set st1)\<rparr>)
                  else Inr st1)"

definition insert_node :: "bool \<Rightarrow> Version \<Rightarrow> BundleKey \<Rightarrow> GraphChannel \<Rightarrow> graph_error + GraphChannel" where
  "insert_node skippatch versionToAdd newBundleKey ch =
     bindr (foldM (scan_node skippatch versionToAdd)
              \<lparr>lowestAhead = empty_key, greatestBehind = empty_key, skipPatchCandidates = [], replaces_set = []\<rparr>
              (map fst (gc_Nodes ch))) (\<lambda>st.
     let replaces = (if BundleKey_IsEmpty (greatestBehind st) then replaces_set st
                     else List.insert (greatestBehind st) (replaces_set st));
         ch1 = (if BundleKey_IsEmpty (lowestAhead st) then ch\<lparr>gc_Head := newBundleKey\<rparr>
                else ch\<lparr>gc_Nodes := gm_put (lowestAhead st) [newBundleKey] (gc_Nodes ch)\<rparr>);
         nodes = (if skippatch then fold gm_del (skipPatchCandidates st) (gc_Nodes ch1) else gc_Nodes ch1)
     in Inr (ch1\<lparr>gc_Nodes := gm_put newBundleKey replaces nodes\<rparr>))"

definition add_to_channel :: "bool \<Rightarrow> Version \<Rightarrow> BundleKey \<Rightarrow> GraphPackage \<Rightarrow> string \<Rightarrow> graph_error + GraphPackage" where
  "add_to_channel skippatch versionToAdd newBundleKey graph channel =
     (case gm_get (gp_Channels graph) channel of
        None \<Rightarrow> Inr (graph\<lparr>gp_Channels := gm_put channel \<lparr>gc_Head = newBundleKey, gc_Nodes = [(newBundleKey, [])]\<rparr> (gp_Channels graph)\<rparr>)
      | Some ch \<Rightarrow>
          bindr (insert_node skippatch versionToAdd newBundleKey ch) (\<lambda>ch'.
          Inr (graph\<lparr>gp_Channels := gm_put channel ch' (gp_Channels graph)\<rparr>)))"

definition AddBundleToGraph :: "Bundle \<Rightarrow> GraphPackage \<Rightarrow> Annotations \<Rightarrow> bool \<Rightarrow> graph_error + GraphPackage" where
  "AddBundleToGraph bundle graph annotations skippatch =
     (case fst (Bundle_Version bundle) of
        Inl _ \<Rightarrow> Inl NoBundleVersion
      | Inr bundleVersion \<Rightarrow>
          (case Version_Parse bundleVersion of
             Inl _ \<Rightarrow> Inl BundleVersionInvalid
           | Inr versionToAdd \<Rightarrow>
               let newBundleKey = \<lparr>bk_BundlePath = bn_BundleImage bundle, bk_Version = Version_String versionToAdd,
                                   bk_CsvName = bn_Name bundle\<rparr>;
                   g1 = (if gp_Name graph = [] then graph\<lparr>gp_Name := bn_Package bundle\<rparr> else graph);
                   g2 = (if an_DefaultChannelName annotations \<noteq> []
                         then g1\<lparr>gp_DefaultChannel := an_DefaultChannelName annotations\<rparr> else g1)
               in if gp_DefaultChannel g2 = [] \<and> SelectDefaultChannel annotations = [] then Inl DefaultChannelMissing
                  else
                    let g3 = (if gp_DefaultChannel g2 = [] then g2\<lparr>gp_DefaultChannel := SelectDefaultChannel annotations\<rparr>
                              else g2)
                    in foldM (add_to_channel skippatch versionToAdd newBundleKey) g3 (bn_Channels bundle)))"

section \<open>Channel heads by version\<close>

record bundleVersion =
  bv_name :: string
  bv_version :: Version
  bv_count :: nat

definition bundleVersion_compare :: "bundleVersion \<Rightarrow> bundleVersion \<Rightarrow> semver_error + int" where
  "bundleVersion_compare b v = BuildIdCompare (bv_version b) (bv_version v)"

datatype manifest_error = MoreThanOnePackage | VersionUnavailable string bundle_error | VersionInvalid string
  | VersionCompare semver_error | MaxVersionContested | HeadContested string | DefaultUndetermined

text \<open>The loop over the channels of one bundle; \<open>current\<close> keeps its count from one channel to the next.\<close>

fun update_heads ::
  "bundleVersion \<Rightarrow> (string, bundleVersion) gomap \<Rightarrow> string list \<Rightarrow> manifest_error + bundleVersion \<times> (string, bundleVersion) gomap" where
  "update_heads current heads [] = Inr (current, heads)"
| "update_heads current heads (channel # cs) =
     (case gm_get heads channel of
        None \<Rightarrow> update_heads current (gm_put channel current heads) cs
      | Some head \<Rightarrow>
          (case bundleVersion_compare current head of
             Inl e \<Rightarrow> Inl (VersionCompare e)
           | Inr c \<Rightarrow>
               if c < 0 then update_heads current heads cs
               else
                 let current' = (if c = 0 then current\<lparr>bv_count := bv_count current + bv_count head\<rparr> else current)
                 in update_heads current' (gm_put channel current' heads) cs))"

record manifest_state =
  ms_heads :: "(string, bundleVersion) gomap"
  ms_pkgName :: string
  ms_defaultChannel :: string
  ms_maxVersion :: bundleVersion

definition manifest_step :: "manifest_state \<Rightarrow> Bundle \<Rightarrow> manifest_error + manifest_state" where
  "manifest_step st bundle =
     (if ms_pkgName st \<noteq> [] \<and> ms_pkgName st \<noteq> bn_Package bundle then Inl MoreThanOnePackage
      else case fst (Bundle_Version bundle) of
        Inl e \<Rightarrow> Inl (VersionUnavailable (bn_Name bundle) e)
      | Inr raw \<Rightarrow>
          (case Version_Parse (if raw = [] then ''0.0.0-z'' else raw) of
             Inl _ \<Rightarrow> Inl (VersionInvalid (bn_Name bundle))
           | Inr version \<Rightarrow>
               bindr (update_heads \<lparr>bv_name = bn_Name bundle, bv_version = version, bv_count = 1\<rparr> (ms_heads st) (bn_Channels bundle))
                 (\<lambda>(current, heads).
                   let st1 = st\<lparr>ms_pkgName := bn_Package bundle, ms_heads := heads\<rparr>
                   in case bundleVersion_compare current (ms_maxVersion st) of
                        Inl e \<Rightarrow> Inl (VersionCompare e)
                      | Inr c \<Rightarrow>
                          if c < 0 then Inr st1
                          else Inr (st1\<lparr>ms_maxVersion :=
                                          (if c = 0 then current\<lparr>bv_count := bv_count current + bv_count (ms_maxVersion st)\<rparr>
                                           else current),
                                        ms_defaultChannel :=
                                          (case bn_Annotations bundle of
                                             Some an \<Rightarrow> if an_DefaultChannelName an \<noteq> [] then an_DefaultChannelName an
                                                        else ms_defaultChannel st
                                           | None \<Rightarrow> ms_defaultChannel st)\<rparr>))))"

definition SemverPackageManifest :: "Bundle list \<Rightarrow> manifest_error + PackageManifest" where
  "SemverPackageManifest bundles =
     bindr (foldM manifest_step
              \<lparr>ms_heads = [], ms_pkgName = [], ms_defaultChannel = [],
               ms_maxVersion = \<lparr>bv_name = [], bv_version = zero_version, bv_count = 0\<rparr>\<rparr> bundles) (\<lambda>st.
     if bv_count (ms_maxVersion st) > 1 then Inl MaxVersionContested
     else case find (\<lambda>(_, h). bv_count h > 1) (ms_heads st) of
       Some (channel, _) \<Rightarrow> Inl (HeadContested channel)
     | None \<Rightarrow>
         if (length (ms_heads st) = 1 \<and> ms_defaultChannel st = []) \<or> list_ex (\<lambda>(channel, _). channel = ms_defaultChannel st) (ms_heads st)
         then Inr \<lparr>pm_PackageName = ms_pkgName st,
                   pm_Channels = map (\<lambda>(channel, h). \<lparr>pc_Name = channel, pc_CurrentCSVName = bv_name h\<rparr>) (ms_heads st),
                   pm_DefaultChannelName = (if length (ms_heads st) = 1 then fst (hd (ms_heads st)) else ms_defaultChannel st)\<rparr>
         else Inl DefaultUndetermined)"

section \<open>The graph of a package directory\<close>

text \<open>
  An entry of the package directory: a bundle directory with its files, or a file with the package manifest it decodes
  to. Parsing a version range is an argument; the range is only stored.
\<close>

datatype package_entry =
  BundleDir "(bool \<times> (string \<times> ClusterServiceVersion option) option) list option"
| PlainFile "PackageManifest option"

datatype dir_graph_error = PackageDirUnreadable | BundleCsv read_csv_error | NoPackageManifest

record 'r csvReplaces =
  cr_replaces :: "string list"
  cr_skipRange :: "'r option"

record 'r DirGraphLoader =
  dg_PackageDir :: "package_entry list option"
  dg_CsvNameAndReplaceMap :: "(string, 'r csvReplaces) gomap"
  dg_SortedCSVs :: "(string \<times> Version) list"

definition NewPackageGraphLoaderFromDir :: "package_entry list option \<Rightarrow> dir_graph_error + 'r DirGraphLoader" where
  "NewPackageGraphLoaderFromDir packageDir =
     (case packageDir of
        None \<Rightarrow> Inl PackageDirUnreadable
      | Some _ \<Rightarrow> Inr \<lparr>dg_PackageDir = packageDir, dg_CsvNameAndReplaceMap = [], dg_SortedCSVs = []\<rparr>)"

definition csv_replaces :: "(string \<Rightarrow> 'r option) \<Rightarrow> ClusterServiceVersion \<Rightarrow> 'r csvReplaces" where
  "csv_replaces parse_range csv =
     \<lparr>cr_replaces = (case GetSkips csv of Inr rs \<Rightarrow> rs | Inl _ \<Rightarrow> [])
                    @ (case GetReplaces csv of Inr r \<Rightarrow> if r \<noteq> [] then [r] else [] | Inl _ \<Rightarrow> []),
      cr_skipRange = parse_range (GetSkipRange csv)\<rparr>"

definition load_entry ::
  "(string \<Rightarrow> 'r option) \<Rightarrow> (string, 'r csvReplaces) gomap \<times> (string \<times> Version) list \<Rightarrow> package_entry
   \<Rightarrow> dir_graph_error + (string, 'r csvReplaces) gomap \<times> (string \<times> Version) list" where
  "load_entry parse_range acc e =
     (case e of
        PlainFile _ \<Rightarrow> Inr acc
      | BundleDir dir \<Rightarrow>
          bindr (map_sum BundleCsv id (ReadCSVFromBundleDirectory dir)) (\<lambda>csv.
          Inr (gm_put (csv_Name csv) (csv_replaces parse_range csv) (fst acc),
               (case GetVersion csv of
                  Inl _ \<Rightarrow> snd acc
                | Inr version \<Rightarrow>
                    if version = [] then snd acc
                    else (case Version_Parse version of Inl _ \<Rightarrow> snd acc | Inr v \<Rightarrow> snd acc @ [(csv_Name csv, v)])))))"

fun insert_version :: "string \<times> Version \<Rightarrow> (string \<times> Version) list \<Rightarrow> (string \<times> Version) list" where
  "insert_version x [] = [x]"
| "insert_version x (y # ys) = (if Version_LT (snd x) (snd y) then x # y # ys else y # insert_version x ys)"

definition sort_versions :: "(string \<times> Version) list \<Rightarrow> (string \<times> Version) list" where
  "sort_versions xs = fold insert_version xs []"

definition loadBundleCsvPathMap :: "(string \<Rightarrow> 'r option) \<Rightarrow> 'r DirGraphLoader \<Rightarrow> dir_graph_error + 'r DirGraphLoader" where
  "loadBundleCsvPathMap parse_range g =
     bindr (of_option PackageDirUnreadable (dg_PackageDir g)) (\<lambda>bundleDirs.
     bindr (foldM (load_entry parse_range) ([], dg_SortedCSVs g) bundleDirs) (\<lambda>(m, csvs).
     Inr (g\<lparr>dg_CsvNameAndReplaceMap := m, dg_SortedCSVs := sort_versions csvs\<rparr>)))"

definition csv_key :: "string \<Rightarrow> BundleKey" where
  "csv_key csv = \<lparr>bk_BundlePath = [], bk_Version = [], bk_CsvName = csv\<rparr>"

definition replaces_of :: "(string, 'r csvReplaces) gomap \<Rightarrow> string \<Rightarrow> string list" where
  "replaces_of m csv = (case gm_get m csv of None \<Rightarrow> [] | Some r \<Rightarrow> cr_replaces r)"

text \<open>
  The loop takes any remaining name, in an order that Go leaves open; the model takes the first. It ends because a
  name is expanded once and only a name of the map adds further names.
\<close>

function channel_nodes ::
  "(string, 'r csvReplaces) gomap \<Rightarrow> string list \<Rightarrow> (BundleKey, BundleKey list) gomap \<Rightarrow> (BundleKey, BundleKey list) gomap" where
  "channel_nodes m [] nodes = nodes"
| "channel_nodes m (csv # remaining) nodes =
     (if gm_has nodes (csv_key csv) then channel_nodes m remaining nodes
      else
        let nodes' = gm_put (csv_key csv) (remdups (map csv_key (replaces_of m csv))) nodes
        in channel_nodes m (fold List.insert (filter (\<lambda>c. \<not> gm_has nodes' (csv_key c)) (replaces_of m csv)) remaining) nodes')"
  by pat_completeness auto

termination
proof (relation "inv_image (less_than <*lex*> less_than)
    (\<lambda>(m, remaining, nodes). (card {c \<in> set (map fst m). \<not> gm_has nodes (csv_key c)}, length remaining))", goal_cases)
  case 1
  show ?case by (rule wf_inv_image) (rule wf_lex_prod [OF wf_less_than wf_less_than])
next
  case (2 m csv remaining nodes)
  then show ?case by simp
next
  case (3 m csv remaining nodes nodes')
  let ?open = "\<lambda>n. {c \<in> set (map fst m). \<not> gm_has n (csv_key c)}"
  have sub: "?open nodes' \<subseteq> ?open nodes" using 3(2) by auto
  show ?case
  proof (cases "csv \<in> set (map fst m)")
    case True
    then have "csv \<in> ?open nodes" "csv \<notin> ?open nodes'" using 3 by auto
    with sub have "?open nodes' \<subset> ?open nodes" by blast
    then have "card (?open nodes') < card (?open nodes)" by (rule psubset_card_mono [rotated]) simp
    then show ?thesis by simp
  next
    case False
    then have "gm_get m csv = None" by (simp add: map_of_eq_None_iff)
    then have "replaces_of m csv = []" by (simp add: replaces_of_def)
    moreover have "card (?open nodes') \<le> card (?open nodes)" by (rule card_mono [OF _ sub]) simp
    ultimately show ?thesis by auto
  qed
qed

definition getChannelNodes :: "(string, 'r csvReplaces) gomap \<Rightarrow> string \<Rightarrow> (BundleKey, BundleKey list) gomap" where
  "getChannelNodes m head = channel_nodes m (fold List.insert (replaces_of m head) [head]) []"

definition DecodePackageManifest :: "PackageManifest option \<Rightarrow> PackageManifest option" where
  "DecodePackageManifest decoded =
     (case decoded of None \<Rightarrow> None | Some obj \<Rightarrow> if pm_PackageName obj = [] then None else Some obj)"

definition convertFromPackageManifest :: "PackageManifest \<Rightarrow> GraphPackage" where
  "convertFromPackageManifest m =
     \<lparr>gp_Name = pm_PackageName m, gp_DefaultChannel = GetDefaultChannel m,
      gp_Channels = fold (\<lambda>c. gm_put (pc_Name c) \<lparr>gc_Head = csv_key (pc_CurrentCSVName c), gc_Nodes = []\<rparr>) (pm_Channels m) []\<rparr>"

fun first_manifest :: "package_entry list \<Rightarrow> dir_graph_error + GraphPackage" where
  "first_manifest [] = Inl NoPackageManifest"
| "first_manifest (BundleDir _ # es) = first_manifest es"
| "first_manifest (PlainFile f # es) =
     (case DecodePackageManifest f of None \<Rightarrow> first_manifest es | Some m \<Rightarrow> Inr (convertFromPackageManifest m))"

definition parsePackageYAMLFile :: "'r DirGraphLoader \<Rightarrow> dir_graph_error + GraphPackage" where
  "parsePackageYAMLFile g = bindr (of_option PackageDirUnreadable (dg_PackageDir g)) first_manifest"

definition DirGraphLoader_Generate :: "(string \<Rightarrow> 'r option) \<Rightarrow> 'r DirGraphLoader \<Rightarrow> dir_graph_error + GraphPackage" where
  "DirGraphLoader_Generate parse_range g =
     bindr (loadBundleCsvPathMap parse_range g) (\<lambda>g'.
     bindr (parsePackageYAMLFile g') (\<lambda>pkg.
     Inr (pkg\<lparr>gp_Channels :=
       map (\<lambda>(name, ch). (name, ch\<lparr>gc_Nodes := getChannelNodes (dg_CsvNameAndReplaceMap g') (bk_CsvName (gc_Head ch))\<rparr>))
         (gp_Channels pkg)\<rparr>)))"

section \<open>The graph of channel entries\<close>

record ChannelEntryAnnotated =
  ca_PackageName :: string
  ca_ChannelName :: string
  ca_BundleName :: string
  ca_BundlePath :: string
  ca_Version :: string
  ca_Replaces :: string
  ca_ReplacesVersion :: string
  ca_ReplacesBundlePath :: string

definition entry_key :: "ChannelEntryAnnotated \<Rightarrow> BundleKey" where
  "entry_key e = \<lparr>bk_BundlePath = ca_BundlePath e, bk_Version = ca_Version e, bk_CsvName = ca_BundleName e\<rparr>"

definition entry_replaces_key :: "ChannelEntryAnnotated \<Rightarrow> BundleKey" where
  "entry_replaces_key e =
     \<lparr>bk_BundlePath = ca_ReplacesBundlePath e, bk_Version = ca_ReplacesVersion e, bk_CsvName = ca_Replaces e\<rparr>"

type_synonym channel_graphs = "(string, (BundleKey, BundleKey list) gomap) gomap"
type_synonym head_candidates = "(string, BundleKey list) gomap"

definition nodes_of :: "channel_graphs \<Rightarrow> string \<Rightarrow> (BundleKey, BundleKey list) gomap" where
  "nodes_of g c = (case gm_get g c of None \<Rightarrow> [] | Some ns \<Rightarrow> ns)"

definition add_entry_node ::
  "BundleKey list \<Rightarrow> ChannelEntryAnnotated \<Rightarrow> channel_graphs \<times> head_candidates \<Rightarrow> channel_graphs \<times> head_candidates" where
  "add_entry_node existing e = (\<lambda>(g, heads).
     let c = ca_ChannelName e; key = entry_key e; g1 = (if gm_has g c then g else gm_put c [] g)
     in if key \<notin> set existing then (g1, heads)
        else (gm_put c (gm_put key [] (nodes_of g1 c)) g1,
              gm_put c (case gm_get heads c of None \<Rightarrow> [key] | Some ks \<Rightarrow> List.insert key ks) heads))"

definition add_entry_replaces ::
  "ChannelEntryAnnotated \<Rightarrow> channel_graphs \<times> head_candidates \<Rightarrow> channel_graphs \<times> head_candidates" where
  "add_entry_replaces e = (\<lambda>(g, heads).
     let c = ca_ChannelName e; key = entry_key e; r = entry_replaces_key e;
         g1 = (if BundleKey_IsEmpty r then g
               else let old = (case gm_get (nodes_of g c) key of None \<Rightarrow> [] | Some rs \<Rightarrow> rs)
                    in gm_put c (gm_put key (List.insert r old) (nodes_of g c)) g)
     in (g1, case gm_get heads c of None \<Rightarrow> heads | Some ks \<Rightarrow> gm_put c (removeAll r ks) heads))"

definition graphFromEntries ::
  "ChannelEntryAnnotated list \<Rightarrow> BundleKey list \<Rightarrow> graph_error + (string, GraphChannel) gomap" where
  "graphFromEntries channelEntries existingBundles =
     (let (g, heads) = fold add_entry_replaces channelEntries (fold (add_entry_node existingBundles) channelEntries ([], []))
      in mapM (\<lambda>(channel, candidates).
           case candidates of
             [] \<Rightarrow> Inl (NoChannelHead channel)
           | [head] \<Rightarrow> Inr (channel, \<lparr>gc_Head = head, gc_Nodes = nodes_of g channel\<rparr>)
           | _ \<Rightarrow> Inl (ManyChannelHeads channel candidates)) heads)"

section \<open>Update modes\<close>

datatype Mode = ReplacesMode | SemVerMode | SkipPatchMode

text \<open>
  Lower case as far as it can give an ASCII text: besides the ASCII letters these are the two characters U+0130 and
  U+212A, whose lower case is an ASCII letter.
\<close>

fun ToLower :: "string \<Rightarrow> string" where
  "ToLower [] = []"
| "ToLower (c # s) =
     (if c = CHR 0xC4 \<and> take 1 s = [CHR 0xB0] then CHR ''i'' # ToLower (drop 1 s)
      else if c = CHR 0xE2 \<and> take 2 s = [CHR 0x84, CHR 0xAA] then CHR ''k'' # ToLower (drop 2 s)
      else (if CHR ''A'' \<le> c \<and> c \<le> CHR ''Z'' then char_of (of_char c + 32 :: nat) else c) # ToLower s)"

definition GetModeFromString :: "string \<Rightarrow> Mode option" where
  "GetModeFromString mode =
     (let m = ToLower mode
      in if m = ''replaces'' then Some ReplacesMode
         else if m = ''semver'' then Some SemVerMode
         else if m = ''semver-skippatch'' then Some SkipPatchMode
         else None)"

end
