(* ===== verification/Graph_Props.thy ===== *)
theory Graph_Props
  imports Graph
begin

text \<open>
  Properties of upgrade graphs: the nodes of a channel read from a directory are what its head reaches, inserting a
  bundle by version keeps a channel a chain ordered by version, the graph of channel entries has exactly their edges and
  an unreplaced head, and the heads chosen by version are the largest versions of their channels.
\<close>

section \<open>The nodes of a package directory\<close>

definition replaces_edges :: "(string, 'r csvReplaces) gomap \<Rightarrow> (string \<times> string) set" where
  "replaces_edges m = {(a, b). b \<in> set (replaces_of m a)}"

definition visited :: "(BundleKey, BundleKey list) gomap \<Rightarrow> string set" where
  "visited nodes = {c. gm_has nodes (csv_key c)}"

definition node_values :: "(string, 'r csvReplaces) gomap \<Rightarrow> (BundleKey, BundleKey list) gomap \<Rightarrow> bool" where
  "node_values m nodes \<longleftrightarrow>
     (\<forall>k rs. gm_get nodes k = Some rs \<longrightarrow> (\<exists>c. k = csv_key c \<and> rs = remdups (map csv_key (replaces_of m c))))"

lemma csv_key_inj [simp]: "csv_key a = csv_key b \<longleftrightarrow> a = b"
  by (simp add: csv_key_def)

lemma visited_put: "visited (gm_put (csv_key c) rs nodes) = insert c (visited nodes)"
  by (auto simp: visited_def)

lemma set_fold_insert [simp]: "set (fold List.insert xs ys) = set xs \<union> set ys"
  by (induction xs arbitrary: ys) auto

lemma closed_reach: "E `` S \<subseteq> S \<Longrightarrow> E\<^sup>* `` S = S"
  by (simp add: Image_closed_trancl)

lemma channel_nodes_reach:
  assumes "replaces_edges m `` visited nodes \<subseteq> visited nodes \<union> set remaining"
  shows "visited (channel_nodes m remaining nodes) = (replaces_edges m)\<^sup>* `` (visited nodes \<union> set remaining)"
  using assms
proof (induction m remaining nodes rule: channel_nodes.induct)
  case (1 m nodes)
  then show ?case by (simp add: closed_reach)
next
  case (2 m csv remaining nodes)
  show ?case
  proof (cases "gm_has nodes (csv_key csv)")
    case True
    then have "csv \<in> visited nodes" by (simp add: visited_def)
    then have "visited nodes \<union> set (csv # remaining) = visited nodes \<union> set remaining" by auto
    then show ?thesis using 2 True by (auto simp: subset_iff)
  next
    case False
    define nodes' where "nodes' = gm_put (csv_key csv) (remdups (map csv_key (replaces_of m csv))) nodes"
    let ?new = "filter (\<lambda>c. \<not> gm_has nodes' (csv_key c)) (replaces_of m csv)"
    have v: "visited nodes' = insert csv (visited nodes)" by (simp add: nodes'_def visited_put)
    have new: "set ?new = replaces_edges m `` {csv} - visited nodes'" by (auto simp: replaces_edges_def visited_def)
    have setf: "set (fold List.insert ?new remaining) = (replaces_edges m `` {csv} - visited nodes') \<union> set remaining"
      by (simp only: set_fold_insert new)
    have "replaces_edges m `` visited nodes' \<subseteq> visited nodes' \<union> set (fold List.insert ?new remaining)"
      unfolding setf v using 2(3) by auto
    from 2(2) [OF False nodes'_def this]
    have "visited (channel_nodes m (csv # remaining) nodes)
        = (replaces_edges m)\<^sup>* `` (visited nodes' \<union> set (fold List.insert ?new remaining))"
      using False by (simp add: nodes'_def [symmetric] Let_def)
    also have "\<dots> = (replaces_edges m)\<^sup>* `` (visited nodes \<union> set (csv # remaining))"
      unfolding setf v by (auto intro: converse_rtrancl_into_rtrancl)
    finally show ?thesis .
  qed
qed

lemma channel_nodes_values: "node_values m nodes \<Longrightarrow> node_values m (channel_nodes m remaining nodes)"
proof (induction m remaining nodes rule: channel_nodes.induct)
  case (2 m csv remaining nodes)
  have "node_values m (gm_put (csv_key csv) (remdups (map csv_key (replaces_of m csv))) nodes)"
    using 2(3) by (auto simp: node_values_def)
  then show ?case using 2 by (auto simp: Let_def)
qed simp

text \<open>
  C19: The nodes of a channel read from a package directory are exactly the names that its head reaches by
  skips and replaces, each once and with exactly the names it skips or replaces. The loop that collects them ends, also
  when the names form a cycle.
\<close>

theorem getChannelNodes_spec:
  "gm_get (getChannelNodes m head) k = Some rs \<longleftrightarrow>
     (\<exists>c. (head, c) \<in> (replaces_edges m)\<^sup>* \<and> k = csv_key c \<and> rs = remdups (map csv_key (replaces_of m c)))"
proof -
  let ?ns = "getChannelNodes m head"
  have "visited ?ns = (replaces_edges m)\<^sup>* `` (set (replaces_of m head) \<union> {head})"
    by (simp add: getChannelNodes_def channel_nodes_reach visited_def [of "[]"])
  also have "\<dots> = (replaces_edges m)\<^sup>* `` {head}"
    by (auto simp: replaces_edges_def intro: converse_rtrancl_into_rtrancl)
  finally have reach: "visited ?ns = (replaces_edges m)\<^sup>* `` {head}" .
  have vals: "node_values m ?ns"
    unfolding getChannelNodes_def by (rule channel_nodes_values) (simp add: node_values_def)
  show ?thesis
  proof
    assume k: "gm_get ?ns k = Some rs"
    with vals obtain c where c: "k = csv_key c" "rs = remdups (map csv_key (replaces_of m c))"
      unfolding node_values_def by blast
    with k have "c \<in> visited ?ns" by (auto simp: visited_def)
    with c reach show "\<exists>c. (head, c) \<in> (replaces_edges m)\<^sup>* \<and> k = csv_key c \<and> rs = remdups (map csv_key (replaces_of m c))"
      by blast
  next
    assume "\<exists>c. (head, c) \<in> (replaces_edges m)\<^sup>* \<and> k = csv_key c \<and> rs = remdups (map csv_key (replaces_of m c))"
    then obtain c where c: "c \<in> visited ?ns" "k = csv_key c" "rs = remdups (map csv_key (replaces_of m c))"
      using reach by blast
    then obtain rs' where "gm_get ?ns k = Some rs'" by (auto simp: visited_def)
    with vals c(2,3) show "gm_get ?ns k = Some rs" unfolding node_values_def by fastforce
  qed
qed

section \<open>Inserting by version keeps a chain\<close>

definition key_version :: "BundleKey \<Rightarrow> Version" where
  "key_version k = version_or_zero (bk_Version k)"

definition versioned :: "BundleKey \<Rightarrow> bool" where
  "versioned k \<longleftrightarrow> (\<exists>v. Version_Parse (bk_Version k) = Inr v)"

definition key_less :: "BundleKey \<Rightarrow> BundleKey \<Rightarrow> bool" where
  "key_less a b \<longleftrightarrow> Version_Compare (key_version a) (key_version b) < 0"

text \<open>The nodes of a chain, in ascending order: the first replaces nothing, each other one its predecessor.\<close>

fun chain_nodes :: "BundleKey option \<Rightarrow> BundleKey list \<Rightarrow> (BundleKey, BundleKey list) gomap" where
  "chain_nodes prev [] = []"
| "chain_nodes prev (k # ks) = (k, case prev of None \<Rightarrow> [] | Some p \<Rightarrow> [p]) # chain_nodes (Some k) ks"

definition version_chain :: "BundleKey list \<Rightarrow> GraphChannel \<Rightarrow> bool" where
  "version_chain ks ch \<longleftrightarrow> ks \<noteq> [] \<and> list_all versioned ks \<and> sorted_wrt key_less ks \<and> gc_Head ch = last ks
     \<and> gm_get (gc_Nodes ch) = gm_get (chain_nodes None ks)"

lemma versioned_version: "versioned k \<Longrightarrow> Version_Parse (bk_Version k) = Inr (key_version k)"
  by (auto simp: versioned_def key_version_def version_or_zero_def)

lemma versioned_not_empty: "versioned k \<Longrightarrow> \<not> BundleKey_IsEmpty k"
  by (auto simp: versioned_def BundleKey_IsEmpty_def Version_Parse_def)

lemma empty_key_IsEmpty [simp]: "BundleKey_IsEmpty empty_key"
  by (simp add: BundleKey_IsEmpty_def empty_key_def)

lemma chain_keys [simp]: "map fst (chain_nodes prev ks) = ks"
  by (induction ks arbitrary: prev) auto

lemma key_less_irrefl [simp]: "\<not> key_less a a"
  by (simp add: key_less_def)

lemma key_less_trans: "key_less a b \<Longrightarrow> key_less b c \<Longrightarrow> key_less a c"
  using version.cmp_less_trans [of "key_version a" "key_version b" "key_version c"] by (simp add: key_less_def)

text \<open>What the scan finds: the least node above and the greatest below the new version, in any order of visits.\<close>

definition best_node :: "(Version \<Rightarrow> Version \<Rightarrow> int) \<Rightarrow> BundleKey set \<Rightarrow> BundleKey \<Rightarrow> bool" where
  "best_node c A k \<longleftrightarrow> (if A = {} then k = empty_key else k \<in> A \<and> (\<forall>n \<in> A. c (key_version k) (key_version n) \<le> 0))"

definition nodes_at :: "int \<Rightarrow> Version \<Rightarrow> BundleKey set \<Rightarrow> BundleKey set" where
  "nodes_at i v S = {n \<in> S. Version_Compare (key_version n) v = i}"

definition compare_down :: "Version \<Rightarrow> Version \<Rightarrow> int" where
  "compare_down a b = Version_Compare b a"

definition scanned :: "Version \<Rightarrow> BundleKey set \<Rightarrow> scan_state \<Rightarrow> bool" where
  "scanned v S st \<longleftrightarrow> best_node Version_Compare (nodes_at 1 v S) (lowestAhead st)
     \<and> best_node compare_down (nodes_at (- 1) v S) (greatestBehind st)
     \<and> skipPatchCandidates st = [] \<and> replaces_set st = []"

interpretation down: three_way compare_down
proof
  fix a b c :: Version
  show "compare_down a b \<in> {- 1, 0, 1}" unfolding compare_down_def by (rule version.cmp_range)
  show "compare_down b a = - compare_down a b" unfolding compare_down_def by (rule version.cmp_swap)
  show "compare_down a b \<le> 0 \<Longrightarrow> compare_down b c \<le> 0 \<Longrightarrow> compare_down a c \<le> 0"
    unfolding compare_down_def by (rule version.cmp_trans)
qed

lemma best_node_insert:
  assumes c: "three_way c" and A: "\<forall>n \<in> A. versioned n" and k: "best_node c A k"
  shows "best_node c (insert n A) (if BundleKey_IsEmpty k \<or> c (key_version n) (key_version k) = - 1 then n else k)"
proof (cases "A = {}")
  case True
  then show ?thesis using k three_way.cmp_refl [OF c] by (simp add: best_node_def)
next
  case False
  then have k: "k \<in> A" "\<And>m. m \<in> A \<Longrightarrow> c (key_version k) (key_version m) \<le> 0"
    using k by (auto simp: best_node_def)
  then have ne: "\<not> BundleKey_IsEmpty k" using A versioned_not_empty by auto
  show ?thesis
  proof (cases "c (key_version n) (key_version k) = - 1")
    case True
    then have "c (key_version n) (key_version m) < 0" if "m \<in> A" for m
      using three_way.cmp_less_trans [OF c, of "key_version n" "key_version k" "key_version m"] k(2) [OF that] by simp
    then show ?thesis using True three_way.cmp_refl [OF c] by (fastforce simp: best_node_def)
  next
    case nk: False
    then have "c (key_version k) (key_version n) \<le> 0"
      using three_way.cmp_cases [OF c, of "key_version n" "key_version k"]
        three_way.cmp_swap [OF c, where b = "key_version k" and a = "key_version n"] by auto
    then show ?thesis using nk ne k by (auto simp: best_node_def)
  qed
qed

lemma nodes_at_insert:
  "nodes_at i v (insert n S) = (if Version_Compare (key_version n) v = i then insert n (nodes_at i v S) else nodes_at i v S)"
  by (auto simp: nodes_at_def)

lemma GT_down: "Version_GT a b \<longleftrightarrow> compare_down a b = - 1"
  using version.cmp_swap [where b = b and a = a] by (simp add: Version_GT_def compare_down_def)

lemma scan_node_scanned:
  assumes S: "\<forall>m \<in> S. versioned m" and n: "versioned n" and st: "scanned v S st" and ne: "Version_Compare (key_version n) v \<noteq> 0"
  shows "\<exists>st'. scan_node False v st n = Inr st' \<and> scanned v (insert n S) st'"
proof -
  have "\<forall>m \<in> nodes_at i v S. versioned m" for i using S by (auto simp: nodes_at_def)
  note up = best_node_insert [OF version.three_way_axioms this, of 1 "lowestAhead st" n]
    and low = best_node_insert [OF down.three_way_axioms this, of "- 1" "greatestBehind st" n]
  have c: "Version_Compare (key_version n) v = 1 \<or> Version_Compare (key_version n) v = - 1"
    using ne version.cmp_cases [of "key_version n" v] by auto
  then show ?thesis
  proof
    assume c: "Version_Compare (key_version n) v = 1"
    then show ?thesis
      using st up by (auto simp: scan_node_def versioned_version [OF n] scanned_def nodes_at_insert Version_LT_def
          key_version_def [symmetric] Let_def)
  next
    assume c: "Version_Compare (key_version n) v = - 1"
    then show ?thesis
      using st low by (auto simp: scan_node_def versioned_version [OF n] scanned_def nodes_at_insert GT_down
          key_version_def [symmetric] Let_def)
  qed
qed

lemma scan_nodes_scanned:
  assumes "\<forall>m \<in> S. versioned m" and "\<forall>n \<in> set ns. versioned n \<and> Version_Compare (key_version n) v \<noteq> 0" and "scanned v S st"
  shows "\<exists>st'. foldM (scan_node False v) st ns = Inr st' \<and> scanned v (S \<union> set ns) st'"
  using assms
proof (induction ns arbitrary: S st)
  case (Cons n ns)
  then obtain st1 where st1: "scan_node False v st n = Inr st1" "scanned v (insert n S) st1"
    using scan_node_scanned [of S n v st] by auto
  have "\<forall>m \<in> insert n S. versioned m" "\<forall>n \<in> set ns. versioned n \<and> Version_Compare (key_version n) v \<noteq> 0"
    using Cons.prems by auto
  from Cons.IH [OF this st1(2)] st1(1) show ?case by simp
qed simp

lemma scan_node_same: "versioned n \<Longrightarrow> Version_Compare (key_version n) v = 0 \<Longrightarrow> scan_node b v st n = Inl VersionAlreadyAdded"
  by (simp add: scan_node_def versioned_version)

lemma chain_nodes_append:
  "chain_nodes prev (xs @ ys) = chain_nodes prev xs @ chain_nodes (if xs = [] then prev else Some (last xs)) ys"
  by (induction xs arbitrary: prev) auto

lemma chain_get_None: "k \<notin> set ks \<Longrightarrow> map_of (chain_nodes prev ks) k = None"
  by (metis chain_keys map_of_eq_None_iff list.set_map)

lemma chain_split:
  assumes "sorted_wrt key_less ks" and "\<forall>k \<in> set ks. key_less k n \<or> key_less n k"
  shows "ks = filter (\<lambda>k. key_less k n) ks @ filter (\<lambda>k. key_less n k) ks"
  using assms
proof (induction ks)
  case (Cons k ks)
  then have ih: "ks = filter (\<lambda>k. key_less k n) ks @ filter (\<lambda>k. key_less n k) ks" by simp
  show ?case
  proof (cases "key_less k n")
    case True
    then have "\<not> key_less n k" using key_less_trans key_less_irrefl by blast
    with True ih show ?thesis by simp
  next
    case False
    then have nk: "key_less n k" using Cons.prems by auto
    then have "\<forall>m \<in> set ks. key_less n m \<and> \<not> key_less m n"
      using Cons.prems(1) key_less_trans key_less_irrefl by (metis sorted_wrt.simps(2))
    then have "filter (\<lambda>k. key_less k n) ks = []" "filter (\<lambda>k. key_less n k) ks = ks" by (auto simp: filter_empty_conv filter_id_conv)
    with False nk show ?thesis by simp
  qed
qed simp

lemma best_node_extreme:
  assumes "best_node c (set ks) k" and "ks \<noteq> []" and "m \<in> set ks"
    and "\<And>j. j \<in> set ks \<Longrightarrow> j \<noteq> m \<Longrightarrow> c (key_version j) (key_version m) > 0"
  shows "k = m"
  using assms by (fastforce simp: best_node_def)

lemma key_above: "Version_Compare (key_version k) (key_version n) = 1 \<longleftrightarrow> key_less n k"
  using version.cmp_swap [where b = "key_version k" and a = "key_version n"] version.cmp_cases [of "key_version n" "key_version k"]
  by (auto simp: key_less_def)

lemma key_below: "Version_Compare (key_version k) (key_version n) = - 1 \<longleftrightarrow> key_less k n"
  using version.cmp_cases [of "key_version k" "key_version n"] by (auto simp: key_less_def)

lemma chain_put:
  assumes new: "new \<notin> set as" "new \<notin> set bs" and d: "distinct (as @ bs)"
    and g: "gm_get nodes = gm_get (chain_nodes None (as @ bs))"
  shows "gm_get (gm_put new (if as = [] then [] else [last as]) (if bs = [] then nodes else gm_put (hd bs) [new] nodes))
       = gm_get (chain_nodes None (as @ new # bs))"
proof (rule ext)
  fix k
  let ?p = "if as = [] then None else Some (last as)"
  show "gm_get (gm_put new (if as = [] then [] else [last as]) (if bs = [] then nodes else gm_put (hd bs) [new] nodes)) k
      = gm_get (chain_nodes None (as @ new # bs)) k"
  proof (cases bs)
    case Nil
    then show ?thesis
      using new g by (auto simp: chain_nodes_append map_add_def chain_get_None split: option.splits)
  next
    case (Cons b bs')
    have "b \<notin> set as" using d Cons by auto
    then show ?thesis
      using new g Cons d by (auto simp: chain_nodes_append map_add_def chain_get_None split: option.splits)
  qed
qed

definition chain_insert :: "BundleKey \<Rightarrow> BundleKey list \<Rightarrow> BundleKey list" where
  "chain_insert new ks = filter (\<lambda>k. key_less k new) ks @ new # filter (\<lambda>k. key_less new k) ks"

lemma version_chain_keys: "version_chain ks ch \<Longrightarrow> set (map fst (gc_Nodes ch)) = set ks"
proof -
  assume "version_chain ks ch"
  then have g: "gm_get (gc_Nodes ch) = gm_get (chain_nodes None ks)" by (simp add: version_chain_def)
  have "set (map fst (gc_Nodes ch)) = dom (gm_get (gc_Nodes ch))" by (simp only: dom_map_of_conv_image_fst list.set_map)
  also have "\<dots> = set (map fst (chain_nodes None ks))" unfolding g by (simp only: dom_map_of_conv_image_fst list.set_map)
  finally show ?thesis by (simp only: chain_keys)
qed

lemma sorted_distinct: "sorted_wrt key_less ks \<Longrightarrow> distinct ks"
  by (induction ks) auto

abbreviation scan_start :: scan_state where
  "scan_start \<equiv> \<lparr>lowestAhead = empty_key, greatestBehind = empty_key, skipPatchCandidates = [], replaces_set = []\<rparr>"

lemma scanned_start: "scanned v {} scan_start"
  by (simp add: scanned_def best_node_def nodes_at_def)

lemma scan_nodes_same:
  assumes "\<exists>k \<in> set ns. Version_Compare (key_version k) v = 0" "\<forall>n \<in> set ns. versioned n" "scanned v S st" "\<forall>n \<in> S. versioned n"
  shows "foldM (scan_node False v) st ns = Inl VersionAlreadyAdded"
  using assms
proof (induction ns arbitrary: st S)
  case (Cons n ns)
  show ?case
  proof (cases "Version_Compare (key_version n) v = 0")
    case True
    then show ?thesis using Cons.prems scan_node_same [of n v] by simp
  next
    case False
    then obtain st' where "scan_node False v st n = Inr st'" "scanned v (insert n S) st'"
      using Cons.prems scan_node_scanned [of S n v st] by auto
    then show ?thesis using False Cons.prems Cons.IH [of "insert n S" st'] by simp
  qed
qed simp

lemma insert_node_same:
  assumes ch: "version_chain ks ch" and same: "\<exists>k \<in> set ks. Version_Compare (key_version k) v = 0"
  shows "insert_node False v new ch = Inl VersionAlreadyAdded"
proof -
  have "\<forall>k \<in> set ks. versioned k" using ch by (simp add: version_chain_def list_all_iff)
  with scan_nodes_same [of "map fst (gc_Nodes ch)" v "{}" scan_start] same scanned_start
  have "foldM (scan_node False v) scan_start (map fst (gc_Nodes ch)) = Inl VersionAlreadyAdded"
    unfolding version_chain_keys [OF ch] by blast
  then show ?thesis by (simp only: insert_node_def bindr.simps)
qed

lemma best_node_hd:
  assumes "sorted_wrt key_less ks" and "best_node Version_Compare (set ks) k" and "ks \<noteq> []"
  shows "k = hd ks"
proof -
  obtain b bs where ks: "ks = b # bs" using assms(3) by (cases ks) auto
  show ?thesis unfolding ks
  proof (rule best_node_extreme [OF assms(2)])
    fix j assume "j \<in> set ks" "j \<noteq> hd (b # bs)"
    then have "key_less b j" using assms(1) by (simp add: ks)
    from key_above [THEN iffD2, OF this] show "Version_Compare (key_version j) (key_version (hd (b # bs))) > 0" by simp
  qed (simp_all add: ks)
qed

lemma best_node_last:
  assumes "sorted_wrt key_less ks" and "best_node compare_down (set ks) k" and "ks \<noteq> []"
  shows "k = last ks"
proof -
  obtain b bs where ks: "ks = bs @ [b]" using assms(3) by (cases ks rule: rev_cases) auto
  show ?thesis unfolding ks
  proof (rule best_node_extreme [OF assms(2)])
    fix j assume "j \<in> set ks" "j \<noteq> last (bs @ [b])"
    then have "key_less j b" using assms(1) by (auto simp: ks sorted_wrt_append)
    from key_above [THEN iffD2, OF this] show "compare_down (key_version j) (key_version (last (bs @ [b]))) > 0"
      by (simp add: compare_down_def)
  qed (simp_all add: ks)
qed

lemma version_chainI:
  "ks \<noteq> [] \<Longrightarrow> list_all versioned ks \<Longrightarrow> sorted_wrt key_less ks \<Longrightarrow> last ks = h
   \<Longrightarrow> gm_get ns = gm_get (chain_nodes None ks) \<Longrightarrow> version_chain ks (ch\<lparr>gc_Head := h, gc_Nodes := ns\<rparr>)"
  by (simp add: version_chain_def)

lemma insert_node_chain:
  assumes ch: "version_chain ks ch" and new: "versioned new" and v: "v = key_version new"
    and fresh: "\<forall>k \<in> set ks. Version_Compare (key_version k) v \<noteq> 0"
  shows "\<exists>ch'. insert_node False v new ch = Inr ch' \<and> version_chain (chain_insert new ks) ch'"
proof -
  let ?as = "filter (\<lambda>k. key_less k new) ks" and ?bs = "filter (\<lambda>k. key_less new k) ks"
  have ks: "ks \<noteq> []" "\<forall>k \<in> set ks. versioned k" "sorted_wrt key_less ks" "gc_Head ch = last ks"
    and g: "gm_get (gc_Nodes ch) = gm_get (chain_nodes None ks)"
    using ch by (auto simp: version_chain_def list_all_iff)
  have "\<forall>k \<in> set ks. key_less k new \<or> key_less new k"
    using fresh v key_above [of _ new] key_below [of _ new] version.cmp_cases by blast
  from chain_split [OF ks(3) this] have split: "ks = ?as @ ?bs" .
  then have sorted: "sorted_wrt key_less ?as" "sorted_wrt key_less ?bs" "\<forall>a \<in> set ?as. \<forall>b \<in> set ?bs. key_less a b"
    using ks(3) by (metis sorted_wrt_append)+
  have at: "nodes_at 1 v (set ks) = set ?bs" "nodes_at (- 1) v (set ks) = set ?as"
    by (auto simp: nodes_at_def v key_above key_below)
  obtain st where st: "foldM (scan_node False v) scan_start (map fst (gc_Nodes ch)) = Inr st" "scanned v (set ks) st"
    using scan_nodes_scanned [of "{}" "map fst (gc_Nodes ch)" v scan_start] scanned_start fresh ks(2)
    unfolding version_chain_keys [OF ch] by auto
  have best: "best_node Version_Compare (set ?bs) (lowestAhead st)" "best_node compare_down (set ?as) (greatestBehind st)"
    using st(2) by (simp_all only: scanned_def at)
  have low: "lowestAhead st = (if ?bs = [] then empty_key else hd ?bs)"
    using best_node_hd [OF sorted(2) best(1)] best(1) by (cases "?bs = []") (simp_all only: best_node_def list.set if_True if_False simp_thms)
  have great: "greatestBehind st = (if ?as = [] then empty_key else last ?as)"
    using best_node_last [OF sorted(1) best(2)] best(2) by (cases "?as = []") (simp_all only: best_node_def list.set if_True if_False simp_thms)
  have vs: "?bs \<noteq> [] \<Longrightarrow> \<not> BundleKey_IsEmpty (hd ?bs)" "?as \<noteq> [] \<Longrightarrow> \<not> BundleKey_IsEmpty (last ?as)"
    using ks(2) versioned_not_empty hd_in_set [of ?bs] last_in_set [of ?as] by auto
  have eq: "insert_node False v new ch = Inr (ch\<lparr>gc_Head := (if ?bs = [] then new else gc_Head ch),
      gc_Nodes := gm_put new (if ?as = [] then [] else [last ?as]) (if ?bs = [] then gc_Nodes ch else gm_put (hd ?bs) [new] (gc_Nodes ch))\<rparr>)"
    using st vs low great
    by (cases "?as = []"; cases "?bs = []") (simp_all add: insert_node_def scanned_def Let_def)
  have notin: "new \<notin> set ?as" "new \<notin> set ?bs" by auto
  have d: "distinct (?as @ ?bs)" using sorted_distinct [OF ks(3)] by (subst (asm) split)
  have "gm_get (gc_Nodes ch) = gm_get (chain_nodes None (?as @ ?bs))" using g by (subst (asm) split)
  note get = chain_put [OF notin d this]
  have last_bs: "last ks = last ?bs" if "?bs \<noteq> []" using that by (subst split) simp
  have "sorted_wrt key_less (chain_insert new ks)"
    unfolding chain_insert_def sorted_wrt_append sorted_wrt.simps
  proof (intro conjI ballI)
    fix a b assume ab: "a \<in> set ?as" "b \<in> set (new # ?bs)"
    show "key_less a b"
    proof (cases "b = new")
      case True
      then show ?thesis using ab(1) by simp
    next
      case False
      then have "b \<in> set ?bs" using ab(2) by simp
      with ab(1) sorted(3) show ?thesis by blast
    qed
  next
    fix b assume "b \<in> set ?bs"
    then show "key_less new b" by simp
  qed (fact sorted(1), fact sorted(2))
  moreover have "last (chain_insert new ks) = (if ?bs = [] then new else gc_Head ch)"
    using last_bs by (simp add: chain_insert_def ks(4))
  moreover have "list_all versioned (chain_insert new ks)" using ks(2) new by (auto simp: chain_insert_def list_all_iff)
  moreover have "chain_insert new ks \<noteq> []" by (simp add: chain_insert_def)
  ultimately have "version_chain (chain_insert new ks) (ch\<lparr>gc_Head := (if ?bs = [] then new else gc_Head ch),
      gc_Nodes := gm_put new (if ?as = [] then [] else [last ?as]) (if ?bs = [] then gc_Nodes ch else gm_put (hd ?bs) [new] (gc_Nodes ch))\<rparr>)"
    using get by (intro version_chainI) (simp_all only: chain_insert_def simp_thms)
  with eq show ?thesis by blast
qed

text \<open>Adding a key to the channels of a package: each listed channel gets it, in a new chain or inserted in its chain.\<close>

definition version_chains :: "(string \<Rightarrow> BundleKey list) \<Rightarrow> GraphPackage \<Rightarrow> bool" where
  "version_chains f g \<longleftrightarrow> (\<forall>c ch. gm_get (gp_Channels g) c = Some ch \<longrightarrow> version_chain (f c) ch)
     \<and> (\<forall>c. gm_get (gp_Channels g) c = None \<longrightarrow> f c = [])"

lemma chain_insert_Nil [simp]: "chain_insert new [] = [new]"
  by (simp add: chain_insert_def)

lemma new_chain: "versioned new \<Longrightarrow> version_chain [new] \<lparr>gc_Head = new, gc_Nodes = [(new, [])]\<rparr>"
  by (simp add: version_chain_def)

lemma add_to_channel_chain:
  assumes g: "version_chains f g" and new: "versioned new"
  shows "if \<exists>k \<in> set (f c). Version_Compare (key_version k) (key_version new) = 0
    then add_to_channel False (key_version new) new g c = Inl VersionAlreadyAdded
    else \<exists>g'. add_to_channel False (key_version new) new g c = Inr g' \<and> version_chains (f(c := chain_insert new (f c))) g'
      \<and> gp_Name g' = gp_Name g \<and> gp_DefaultChannel g' = gp_DefaultChannel g"
proof (cases "gm_get (gp_Channels g) c")
  case None
  then have "f c = []" using g by (simp add: version_chains_def)
  then show ?thesis
    using g new_chain [OF new] None by (auto simp: add_to_channel_def version_chains_def)
next
  case (Some ch)
  then have ch: "version_chain (f c) ch" using g by (simp add: version_chains_def)
  show ?thesis
  proof (cases "\<exists>k \<in> set (f c). Version_Compare (key_version k) (key_version new) = 0")
    case True
    from insert_node_same [OF ch this] show ?thesis using True Some by (simp add: add_to_channel_def)
  next
    case False
    then obtain ch' where "insert_node False (key_version new) new ch = Inr ch'" "version_chain (chain_insert new (f c)) ch'"
      using insert_node_chain [OF ch new refl] by auto
    then show ?thesis using False Some g by (auto simp: add_to_channel_def version_chains_def)
  qed
qed

lemma add_to_channels_chain:
  assumes "version_chains f g" and "versioned new" and "distinct cs"
  shows "if \<exists>c \<in> set cs. \<exists>k \<in> set (f c). Version_Compare (key_version k) (key_version new) = 0
    then foldM (add_to_channel False (key_version new) new) g cs = Inl VersionAlreadyAdded
    else \<exists>g'. foldM (add_to_channel False (key_version new) new) g cs = Inr g'
      \<and> version_chains (\<lambda>c. if c \<in> set cs then chain_insert new (f c) else f c) g'
      \<and> gp_Name g' = gp_Name g \<and> gp_DefaultChannel g' = gp_DefaultChannel g"
  using assms(1,3)
proof (induction cs arbitrary: f g)
  case (Cons c cs)
  let ?clash = "\<lambda>ks. \<exists>k \<in> set ks. Version_Compare (key_version k) (key_version new) = 0"
  note step = add_to_channel_chain [OF Cons.prems(1) assms(2), of c]
  show ?case
  proof (cases "?clash (f c)")
    case True
    then show ?thesis using step by auto
  next
    case False
    then obtain g1 where g1: "add_to_channel False (key_version new) new g c = Inr g1"
        "version_chains (f(c := chain_insert new (f c))) g1" "gp_Name g1 = gp_Name g" "gp_DefaultChannel g1 = gp_DefaultChannel g"
      using step by auto
    have f: "(\<lambda>x. if x \<in> set cs then chain_insert new ((f(c := chain_insert new (f c))) x) else (f(c := chain_insert new (f c))) x)
        = (\<lambda>x. if x \<in> set (c # cs) then chain_insert new (f x) else f x)"
      using Cons.prems(2) by (auto simp: fun_eq_iff)
    have clash: "(\<exists>x \<in> set cs. ?clash ((f(c := chain_insert new (f c))) x)) \<longleftrightarrow> (\<exists>x \<in> set (c # cs). ?clash (f x))"
      using Cons.prems(2) False by auto
    from Cons.IH [OF g1(2)] Cons.prems(2) show ?thesis unfolding f clash using g1 by auto
  qed
qed auto

lemma printed_version:
  assumes "Version_Parse s = Inr v"
  shows "Version_Parse (Version_String v) = Inr v"
  using assms Version_Parse_iff [of s v] Version_Parse_iff [of "Version_String v" v] by simp

definition key_of_bundle :: "Bundle \<Rightarrow> Version \<Rightarrow> BundleKey" where
  "key_of_bundle b v = \<lparr>bk_BundlePath = bn_BundleImage b, bk_Version = Version_String v, bk_CsvName = bn_Name b\<rparr>"

lemma key_of_bundle_version:
  "Version_Parse s = Inr v \<Longrightarrow> versioned (key_of_bundle b v) \<and> key_version (key_of_bundle b v) = v"
  using printed_version [of s v] by (simp add: key_of_bundle_def versioned_def key_version_def version_or_zero_def)

lemma AddBundleToGraph_start:
  assumes "fst (Bundle_Version bundle) = Inr s" and "Version_Parse s = Inr v"
    and "an_DefaultChannelName annotations \<noteq> [] \<or> gp_DefaultChannel graph \<noteq> [] \<or> SelectDefaultChannel annotations \<noteq> []"
  shows "\<exists>g. gp_Channels g = gp_Channels graph \<and> gp_DefaultChannel g \<noteq> []
    \<and> AddBundleToGraph bundle graph annotations skip = foldM (add_to_channel skip v (key_of_bundle bundle v)) g (bn_Channels bundle)"
proof -
  define g1 where "g1 = (if gp_Name graph = [] then graph\<lparr>gp_Name := bn_Package bundle\<rparr> else graph)"
  define g2 where "g2 = (if an_DefaultChannelName annotations \<noteq> [] then g1\<lparr>gp_DefaultChannel := an_DefaultChannelName annotations\<rparr> else g1)"
  define g3 where "g3 = (if gp_DefaultChannel g2 = [] then g2\<lparr>gp_DefaultChannel := SelectDefaultChannel annotations\<rparr> else g2)"
  have "gp_Channels g3 = gp_Channels graph" by (simp add: g3_def g2_def g1_def)
  moreover have d: "\<not> (gp_DefaultChannel g2 = [] \<and> SelectDefaultChannel annotations = [])" using assms(3) by (auto simp: g2_def g1_def)
  then have "gp_DefaultChannel g3 \<noteq> []" by (auto simp: g3_def)
  moreover have "AddBundleToGraph bundle graph annotations skip = foldM (add_to_channel skip v (key_of_bundle bundle v)) g3 (bn_Channels bundle)"
    unfolding AddBundleToGraph_def assms(1) sum.case assms(2) Let_def key_of_bundle_def [symmetric] g1_def [symmetric] g2_def [symmetric] g3_def [symmetric]
    using d by (simp only: if_False)
  ultimately show ?thesis by blast
qed

text \<open>
  C20: Where every channel of a package is a chain of versions, each node replacing the next lower one and the
  largest being the head, adding a bundle without skipping patches either reports that its version is taken in one of
  its channels, or keeps every channel a chain: each channel of the bundle has the new key at the place of its version,
  the other channels are as before.
\<close>

theorem AddBundleToGraph_chain:
  assumes "version_chains f graph" and "distinct (bn_Channels bundle)"
    and "fst (Bundle_Version bundle) = Inr s" and "Version_Parse s = Inr v"
    and "an_DefaultChannelName annotations \<noteq> [] \<or> gp_DefaultChannel graph \<noteq> [] \<or> SelectDefaultChannel annotations \<noteq> []"
  shows "if \<exists>c \<in> set (bn_Channels bundle). \<exists>k \<in> set (f c). Version_Compare (key_version k) v = 0
    then AddBundleToGraph bundle graph annotations False = Inl VersionAlreadyAdded
    else \<exists>g'. AddBundleToGraph bundle graph annotations False = Inr g'
      \<and> version_chains (\<lambda>c. if c \<in> set (bn_Channels bundle) then chain_insert (key_of_bundle bundle v) (f c) else f c) g'
      \<and> gp_DefaultChannel g' \<noteq> []"
proof -
  note key = key_of_bundle_version [OF assms(4), of "bundle"]
  let ?fold = "\<lambda>g. foldM (add_to_channel False v (key_of_bundle bundle v)) g (bn_Channels bundle)"
  obtain g where g: "gp_Channels g = gp_Channels graph" "gp_DefaultChannel g \<noteq> []"
      "AddBundleToGraph bundle graph annotations False = ?fold g"
    using AddBundleToGraph_start [OF assms(3-5)] by blast
  have "version_chains f g" using assms(1) g(1) by (simp add: version_chains_def)
  note fold = add_to_channels_chain [OF this conjunct1 [OF key] assms(2), unfolded conjunct2 [OF key]]
  show ?thesis
  proof (cases "\<exists>c \<in> set (bn_Channels bundle). \<exists>k \<in> set (f c). Version_Compare (key_version k) v = 0")
    case True
    with fold g(3) show ?thesis by (simp only: if_True)
  next
    case False
    with fold have "\<exists>g'. ?fold g = Inr g' \<and> gp_DefaultChannel g' = gp_DefaultChannel g
        \<and> version_chains (\<lambda>c. if c \<in> set (bn_Channels bundle) then chain_insert (key_of_bundle bundle v) (f c) else f c) g'"
      by (simp only: if_False) blast
    with False g(2,3) show ?thesis by (simp only: if_False) force
  qed
qed

definition versioned_bundle :: "string \<Rightarrow> string \<Rightarrow> string \<Rightarrow> string list \<Rightarrow> Bundle" where
  "versioned_bundle name pkg version cs =
     empty_bundle\<lparr>bn_Name := name, bn_Package := pkg, bn_version := version, bn_Channels := cs\<rparr>"

theorem AddBundleToGraph_chain_witness:
  "\<exists>g'. AddBundleToGraph (versioned_bundle ''a'' ''p'' ''1.0.0'' [''x'']) \<lparr>gp_Name = [], gp_DefaultChannel = ''x'', gp_Channels = []\<rparr>
       empty_annotations False = Inr g'
     \<and> version_chains (\<lambda>c. if c \<in> set (bn_Channels (versioned_bundle ''a'' ''p'' ''1.0.0'' [''x'']))
          then [key_of_bundle (versioned_bundle ''a'' ''p'' ''1.0.0'' [''x'']) (sample_version 0 [])] else []) g'"
proof -
  let ?b = "versioned_bundle ''a'' ''p'' ''1.0.0'' [''x'']" and ?g = "\<lparr>gp_Name = [], gp_DefaultChannel = ''x'', gp_Channels = []\<rparr>"
  have 1: "version_chains (\<lambda>_. []) ?g" by (simp add: version_chains_def)
  have 2: "distinct (bn_Channels ?b)" by (simp add: versioned_bundle_def)
  have 3: "fst (Bundle_Version ?b) = Inr ''1.0.0''" "Version_Parse ''1.0.0'' = Inr (sample_version 0 [])" by code_simp+
  have 4: "an_DefaultChannelName empty_annotations \<noteq> [] \<or> gp_DefaultChannel ?g \<noteq> [] \<or> SelectDefaultChannel empty_annotations \<noteq> []"
    by simp
  show ?thesis
    using AddBundleToGraph_chain [OF 1 2 3 4] by (simp only: list.set bex_empty bex_simps bex_triv simp_thms if_False chain_insert_Nil) blast
qed

section \<open>Heads are the largest versions\<close>

definition manifest_version :: "Bundle \<Rightarrow> Version" where
  "manifest_version b =
     (case fst (Bundle_Version b) of Inl _ \<Rightarrow> zero_version | Inr raw \<Rightarrow> version_or_zero (if raw = [] then ''0.0.0-z'' else raw))"

type_synonym occurrence = "string \<times> string \<times> Version"

definition occurrences :: "Bundle list \<Rightarrow> occurrence list" where
  "occurrences bs = concat (map (\<lambda>b. map (\<lambda>c. (c, bn_Name b, manifest_version b)) (bn_Channels b)) bs)"

text \<open>One occurrence of a channel is above all others.\<close>

definition top_occurrence :: "occurrence list \<Rightarrow> string \<Rightarrow> string \<Rightarrow> Version \<Rightarrow> bool" where
  "top_occurrence os c n v \<longleftrightarrow>
     (\<exists>xs ys. os = xs @ (c, n, v) # ys \<and> (\<forall>(c', _, v') \<in> set (xs @ ys). c' = c \<longrightarrow> build_id_order v' v < 0))"

definition head_ok :: "occurrence list \<Rightarrow> string \<Rightarrow> bundleVersion \<Rightarrow> bool" where
  "head_ok os c h \<longleftrightarrow> bv_count h \<ge> 1 \<and> (\<exists>n v. (c, n, v) \<in> set os)
     \<and> (\<forall>(c', _, v') \<in> set os. c' = c \<longrightarrow> build_id_order v' (bv_version h) \<le> 0)
     \<and> (bv_count h = 1 \<longrightarrow> top_occurrence os c (bv_name h) (bv_version h))"

definition heads_ok :: "occurrence list \<Rightarrow> (string, bundleVersion) gomap \<Rightarrow> bool" where
  "heads_ok os heads \<longleftrightarrow> (\<forall>c. case gm_get heads c of None \<Rightarrow> c \<notin> fst ` set os | Some h \<Rightarrow> head_ok os c h)"

lemma BuildIdCompare_order: "BuildIdCompare v w = Inr c \<Longrightarrow> c = build_id_order v w"
proof -
  assume c: "BuildIdCompare v w = Inr c"
  show ?thesis
  proof (cases "Version_Compare v w = 0")
    case True
    with c have "has_build_ids v" "has_build_ids w"
      by (auto simp: BuildIdCompare_def buildAsPrerelease_def has_build_ids_def build_pre_def)
    with c show ?thesis by (simp add: BuildIdCompare_eq)
  next
    case False
    with c show ?thesis by (simp add: BuildIdCompare_def build_id_order_def lex3_def)
  qed
qed

lemma head_ok_other: "c' \<noteq> c \<Longrightarrow> head_ok os c h \<Longrightarrow> head_ok (os @ [(c', n, v)]) c h"
proof -
  assume c: "c' \<noteq> c" and h: "head_ok os c h"
  have "top_occurrence (os @ [(c', n, v)]) c a w" if t: "top_occurrence os c a w" for a w
  proof -
    obtain xs ys where "os = xs @ (c, a, w) # ys" "\<forall>(c', _, v') \<in> set (xs @ ys). c' = c \<longrightarrow> build_id_order v' w < 0"
      using t by (auto simp: top_occurrence_def)
    then show ?thesis
      unfolding top_occurrence_def using c by (intro exI [of _ xs] exI [of _ "ys @ [(c', n, v)]"]) auto
  qed
  with c h show ?thesis by (auto simp: head_ok_def)
qed

lemma head_ok_lower:
  assumes h: "head_ok os c h" and v: "build_id_order v (bv_version h) < 0"
  shows "head_ok (os @ [(c, n, v)]) c h"
proof -
  have "top_occurrence (os @ [(c, n, v)]) c a (bv_version h)" if t: "top_occurrence os c a (bv_version h)" for a
  proof -
    obtain xs ys where "os = xs @ (c, a, bv_version h) # ys"
        "\<forall>(c', _, v') \<in> set (xs @ ys). c' = c \<longrightarrow> build_id_order v' (bv_version h) < 0"
      using t by (auto simp: top_occurrence_def)
    then show ?thesis
      unfolding top_occurrence_def using v by (intro exI [of _ xs] exI [of _ "ys @ [(c, n, v)]"]) auto
  qed
  with v h show ?thesis by (auto simp: head_ok_def)
qed

text \<open>The newest occurrence as the head: no other is above it, and none is level when it is counted once.\<close>

lemma head_ok_new:
  assumes n: "bv_count b \<ge> 1" and le: "\<forall>(c', _, v') \<in> set os. c' = c \<longrightarrow> build_id_order v' (bv_version b) \<le> 0"
    and less: "bv_count b = 1 \<Longrightarrow> \<forall>(c', _, v') \<in> set os. c' = c \<longrightarrow> build_id_order v' (bv_version b) < 0"
  shows "head_ok (os @ [(c, bv_name b, bv_version b)]) c b"
proof -
  have "top_occurrence (os @ [(c, bv_name b, bv_version b)]) c (bv_name b) (bv_version b)" if "bv_count b = 1"
    unfolding top_occurrence_def using less [OF that]
    by (rule_tac x = os in exI, rule_tac x = "[]" in exI) simp
  with n le show ?thesis by (auto simp: head_ok_def)
qed

lemma head_ok_higher:
  assumes h: "head_ok os c h" and v: "build_id_order (bv_version b) (bv_version h) > 0" and n: "bv_count b \<ge> 1"
  shows "head_ok (os @ [(c, bv_name b, bv_version b)]) c b"
proof -
  have hb: "build_id_order (bv_version h) (bv_version b) < 0"
    using v build_id.cmp_swap [where b = "bv_version h" and a = "bv_version b"] by simp
  have low: "\<forall>(c', _, v') \<in> set os. c' = c \<longrightarrow> build_id_order v' (bv_version b) < 0"
    using h hb build_id.cmp_trans_less by (fastforce simp: head_ok_def)
  then show ?thesis by (intro head_ok_new n) fastforce+
qed

lemma head_ok_equal:
  assumes h: "head_ok os c h" and v: "build_id_order (bv_version b) (bv_version h) = 0" and n: "bv_count b \<ge> 2"
  shows "head_ok (os @ [(c, bv_name b, bv_version b)]) c b"
proof -
  have "build_id_order w (bv_version b) = build_id_order w (bv_version h)" for w
    using build_id.cmp_eq_right [OF v] .
  then show ?thesis using h n by (intro head_ok_new) (auto simp: head_ok_def)
qed

lemma heads_ok_snoc:
  assumes os: "heads_ok os heads" and h: "head_ok (os @ [(c, n, v)]) c h"
    and get: "\<And>x. gm_get heads' x = (if x = c then Some h else gm_get heads x)"
  shows "heads_ok (os @ [(c, n, v)]) heads'"
  unfolding heads_ok_def
proof
  fix c'
  have old: "case gm_get heads c' of None \<Rightarrow> c' \<notin> fst ` set os | Some h \<Rightarrow> head_ok os c' h"
    using os by (simp add: heads_ok_def)
  show "case gm_get heads' c' of None \<Rightarrow> c' \<notin> fst ` set (os @ [(c, n, v)]) | Some h \<Rightarrow> head_ok (os @ [(c, n, v)]) c' h"
  proof (cases "c' = c")
    case True
    then show ?thesis using h get by simp
  next
    case False
    then show ?thesis using old get head_ok_other [of c c' os _ n v] by (cases "gm_get heads c'") simp_all
  qed
qed

lemma update_heads_ok:
  assumes "update_heads cur heads cs = Inr (cur', heads')" and "heads_ok os heads" and "bv_count cur \<ge> 1"
  shows "heads_ok (os @ map (\<lambda>c. (c, bv_name cur, bv_version cur)) cs) heads' \<and> bv_count cur' \<ge> 1
    \<and> bv_name cur' = bv_name cur \<and> bv_version cur' = bv_version cur"
  using assms
proof (induction cur heads cs arbitrary: os rule: update_heads.induct)
  case (2 cur heads c cs)
  let ?os = "os @ [(c, bv_name cur, bv_version cur)]"
  show ?case
  proof (cases "gm_get heads c")
    case None
    then have "c \<notin> fst ` set os" using "2.prems"(2) by (auto simp: heads_ok_def split: option.splits dest: spec [of _ c])
    then have "\<forall>(c', _, v') \<in> set os. c' \<noteq> c" by force
    then have "head_ok ?os c cur" using "2.prems"(3) by (intro head_ok_new) auto
    then have "heads_ok ?os (gm_put c cur heads)" by (rule heads_ok_snoc [OF "2.prems"(2)]) simp
    from "2.IH"(1) [OF None _ this] "2.prems" None show ?thesis by simp
  next
    case (Some h)
    have hok: "head_ok os c h" using "2.prems"(2) Some by (auto simp: heads_ok_def split: option.splits dest: spec [of _ c])
    obtain d where d: "bundleVersion_compare cur h = Inr d" using "2.prems"(1) Some by (cases "bundleVersion_compare cur h") auto
    then have do: "d = build_id_order (bv_version cur) (bv_version h)"
      using BuildIdCompare_order by (simp add: bundleVersion_compare_def)
    show ?thesis
    proof (cases "d < 0")
      case True
      have "heads_ok ?os heads"
        by (rule heads_ok_snoc [OF "2.prems"(2) head_ok_lower [OF hok]]) (use True do Some in simp_all)
      from "2.IH"(2) [OF Some d True _ this] "2.prems" Some d True show ?thesis by simp
    next
      case False
      define cur2 where "cur2 = (if d = 0 then cur\<lparr>bv_count := bv_count cur + bv_count h\<rparr> else cur)"
      have same: "bv_name cur2 = bv_name cur" "bv_version cur2 = bv_version cur" "bv_count cur2 \<ge> 1"
        using "2.prems"(3) by (auto simp: cur2_def)
      have "head_ok (os @ [(c, bv_name cur2, bv_version cur2)]) c cur2"
      proof (cases "d = 0")
        case True
        then have "bv_count cur2 \<ge> 2" using "2.prems"(3) hok by (auto simp: cur2_def head_ok_def)
        moreover have "build_id_order (bv_version cur2) (bv_version h) = 0" using do True same by simp
        ultimately show ?thesis using head_ok_equal [OF hok] by blast
      next
        case d0: False
        then have "build_id_order (bv_version cur2) (bv_version h) > 0" using do False same by simp
        then show ?thesis using head_ok_higher [OF hok] same(3) by blast
      qed
      then have "head_ok ?os c cur2" by (simp only: same)
      then have "heads_ok ?os (gm_put c cur2 heads)" by (rule heads_ok_snoc [OF "2.prems"(2)]) simp
      from "2.IH"(3) [OF Some d False cur2_def _ this same(3)] "2.prems" Some d False same show ?thesis
        by (simp add: cur2_def [symmetric] Let_def)
    qed
  qed
qed simp

definition manifest_ok :: "Bundle list \<Rightarrow> manifest_state \<Rightarrow> bool" where
  "manifest_ok bs st \<longleftrightarrow> heads_ok (occurrences bs) (ms_heads st) \<and> gm_wf (ms_heads st)
     \<and> (\<forall>b \<in> set bs. bn_Package b = [] \<or> bn_Package b = ms_pkgName st)"

lemma update_heads_wf: "update_heads cur heads cs = Inr (cur', heads') \<Longrightarrow> gm_wf heads \<Longrightarrow> gm_wf heads'"
  by (induction cur heads cs rule: update_heads.induct) (auto simp: Let_def split: option.splits sum.splits if_splits)

lemma manifest_step_ok:
  assumes st: "manifest_ok bs st" and step: "manifest_step st b = Inr st'"
  shows "manifest_ok (bs @ [b]) st'"
proof -
  from step have pkg: "ms_pkgName st = [] \<or> ms_pkgName st = bn_Package b" by (auto simp: manifest_step_def split: if_splits)
  from step obtain raw where raw: "fst (Bundle_Version b) = Inr raw"
    by (cases "fst (Bundle_Version b)") (auto simp: manifest_step_def split: if_splits)
  from step raw obtain v where v: "Version_Parse (if raw = [] then ''0.0.0-z'' else raw) = Inr v"
    by (cases "Version_Parse (if raw = [] then ''0.0.0-z'' else raw)") (auto simp: manifest_step_def split: if_splits)
  from step raw v obtain cur heads where up: "update_heads \<lparr>bv_name = bn_Name b, bv_version = v, bv_count = 1\<rparr> (ms_heads st) (bn_Channels b) = Inr (cur, heads)"
    by (cases "update_heads \<lparr>bv_name = bn_Name b, bv_version = v, bv_count = 1\<rparr> (ms_heads st) (bn_Channels b)")
      (auto simp: manifest_step_def split: if_splits)
  have st': "ms_heads st' = heads" "ms_pkgName st' = bn_Package b"
    using step raw v up by (auto simp: manifest_step_def Let_def split: if_splits sum.splits option.splits)
  have ver: "manifest_version b = v" using raw v by (simp add: manifest_version_def version_or_zero_def)
  have "heads_ok (occurrences bs @ map (\<lambda>c. (c, bn_Name b, v)) (bn_Channels b)) heads"
    using update_heads_ok [OF up, of "occurrences bs"] st by (simp add: manifest_ok_def)
  then have "heads_ok (occurrences (bs @ [b])) heads" by (simp add: occurrences_def ver)
  moreover have "gm_wf heads" using update_heads_wf [OF up] st by (simp add: manifest_ok_def)
  ultimately show ?thesis using st st' pkg by (auto simp: manifest_ok_def)
qed

lemma manifest_steps_ok:
  "foldM manifest_step st bs' = Inr st' \<Longrightarrow> manifest_ok bs st \<Longrightarrow> manifest_ok (bs @ bs') st'"
proof (induction bs' arbitrary: bs st)
  case (Cons b bs')
  then obtain st1 where "manifest_step st b = Inr st1" "foldM manifest_step st1 bs' = Inr st'" by auto
  with Cons manifest_step_ok [of bs st b st1] show ?case by (metis append_Cons append_Nil append_assoc)
qed simp

text \<open>
  C21: When a manifest is computed from bundles, it lists exactly the channels of the bundles, each with the name
  of the one bundle whose version is above every other version of that channel (build identifiers included), its default
  channel is one of them, and no bundle belongs to another package.
\<close>

theorem SemverPackageManifest_heads:
  assumes "SemverPackageManifest bundles = Inr pm"
  shows "pc_Name ` set (pm_Channels pm) = fst ` set (occurrences bundles)
    \<and> (\<forall>pc \<in> set (pm_Channels pm). \<exists>v. top_occurrence (occurrences bundles) (pc_Name pc) (pc_CurrentCSVName pc) v)
    \<and> pm_DefaultChannelName pm \<in> pc_Name ` set (pm_Channels pm)
    \<and> (\<forall>b \<in> set bundles. bn_Package b = [] \<or> bn_Package b = pm_PackageName pm)"
proof -
  let ?z = "\<lparr>ms_heads = [], ms_pkgName = [], ms_defaultChannel = [], ms_maxVersion = \<lparr>bv_name = [], bv_version = zero_version, bv_count = 0\<rparr>\<rparr>"
  obtain st where st: "foldM manifest_step ?z bundles = Inr st" using assms by (auto simp: SemverPackageManifest_def)
  have "manifest_ok [] ?z" by (simp add: manifest_ok_def heads_ok_def occurrences_def)
  from manifest_steps_ok [OF st this] have ok: "heads_ok (occurrences bundles) (ms_heads st)" "gm_wf (ms_heads st)"
      "\<forall>b \<in> set bundles. bn_Package b = [] \<or> bn_Package b = ms_pkgName st"
    by (simp_all add: manifest_ok_def)
  have one: "find (\<lambda>(_, h). bv_count h > 1) (ms_heads st) = None" and
    found: "(length (ms_heads st) = 1 \<and> ms_defaultChannel st = []) \<or> list_ex (\<lambda>(channel, _). channel = ms_defaultChannel st) (ms_heads st)"
    and pm: "pm = \<lparr>pm_PackageName = ms_pkgName st,
        pm_Channels = map (\<lambda>(channel, h). \<lparr>pc_Name = channel, pc_CurrentCSVName = bv_name h\<rparr>) (ms_heads st),
        pm_DefaultChannelName = (if length (ms_heads st) = 1 then fst (hd (ms_heads st)) else ms_defaultChannel st)\<rparr>"
    using assms st by (auto simp: SemverPackageManifest_def split: if_splits option.splits)
  have head: "head_ok (occurrences bundles) c h" if "(c, h) \<in> set (ms_heads st)" for c h
    using that ok(1,2) by (auto simp: heads_ok_def gm_get_Some_iff [symmetric] split: option.splits dest: spec [of _ c])
  have "fst ` set (ms_heads st) = fst ` set (occurrences bundles)"
  proof (rule set_eqI)
    fix c
    have "case gm_get (ms_heads st) c of None \<Rightarrow> c \<notin> fst ` set (occurrences bundles) | Some h \<Rightarrow> head_ok (occurrences bundles) c h"
      using ok(1) by (simp add: heads_ok_def)
    moreover have "c \<in> fst ` set (occurrences bundles)" if "head_ok (occurrences bundles) c h" for h
      using that by (force simp: head_ok_def)
    ultimately show "c \<in> fst ` set (ms_heads st) \<longleftrightarrow> c \<in> fst ` set (occurrences bundles)"
      unfolding gm_has_iff [symmetric] by (auto split: option.splits)
  qed
  moreover have chans: "pc_Name ` set (pm_Channels pm) = fst ` set (ms_heads st)" by (force simp: pm)
  moreover have "\<exists>v. top_occurrence (occurrences bundles) c (bv_name h) v" if "(c, h) \<in> set (ms_heads st)" for c h
    using head [OF that] one that by (force simp: head_ok_def find_None_iff)
  moreover have "pm_DefaultChannelName pm \<in> fst ` set (ms_heads st)"
    using found by (cases "ms_heads st") (force simp: pm list_ex_iff split: if_splits)+
  ultimately show ?thesis using ok(3) by (auto simp: pm)
qed

theorem SemverPackageManifest_heads_witness:
  "\<exists>pm. SemverPackageManifest [versioned_bundle ''a'' ''p'' ''1.0.0'' [''x''], versioned_bundle ''b'' ''p'' ''1.1.0'' [''x'']] = Inr pm
     \<and> pc_Name ` set (pm_Channels pm) = {''x''} \<and> pm_DefaultChannelName pm = ''x''"
proof -
  let ?bs = "[versioned_bundle ''a'' ''p'' ''1.0.0'' [''x''], versioned_bundle ''b'' ''p'' ''1.1.0'' [''x'']]"
  have "\<not> isl (SemverPackageManifest ?bs)" by code_simp
  then obtain pm where pm: "SemverPackageManifest ?bs = Inr pm" by (cases "SemverPackageManifest ?bs") auto
  have "fst ` set (occurrences ?bs) = {''x''}" by (simp add: occurrences_def versioned_bundle_def)
  with SemverPackageManifest_heads [OF pm] pm show ?thesis by auto
qed


section \<open>The graph of channel entries\<close>

definition entry_keys :: "BundleKey list \<Rightarrow> string \<Rightarrow> ChannelEntryAnnotated list \<Rightarrow> BundleKey set" where
  "entry_keys ex c es = {entry_key e | e. e \<in> set es \<and> ca_ChannelName e = c \<and> entry_key e \<in> set ex}"

definition replaced_keys :: "string \<Rightarrow> ChannelEntryAnnotated list \<Rightarrow> BundleKey set" where
  "replaced_keys c es = {entry_replaces_key e | e. e \<in> set es \<and> ca_ChannelName e = c}"

definition node_replaces :: "string \<Rightarrow> BundleKey \<Rightarrow> ChannelEntryAnnotated list \<Rightarrow> BundleKey set" where
  "node_replaces c k es =
     {entry_replaces_key e | e. e \<in> set es \<and> ca_ChannelName e = c \<and> entry_key e = k \<and> \<not> BundleKey_IsEmpty (entry_replaces_key e)}"

text \<open>What the two loops have built for one channel: its nodes and its candidates for the head.\<close>

definition nodes_added ::
  "BundleKey set \<Rightarrow> (BundleKey, BundleKey list) gomap \<Rightarrow> BundleKey list option \<Rightarrow> bool" where
  "nodes_added K ns cand \<longleftrightarrow> (\<forall>k. gm_get ns k = (if k \<in> K then Some [] else None))
     \<and> (case cand of None \<Rightarrow> K = {} | Some ks \<Rightarrow> distinct ks \<and> set ks = K)"

definition successors :: "(BundleKey, BundleKey list) gomap \<Rightarrow> BundleKey \<Rightarrow> BundleKey list" where
  "successors ns k = (case gm_get ns k of None \<Rightarrow> [] | Some rs \<Rightarrow> rs)"

lemma successors_put: "successors (gm_put k rs ns) k' = (if k' = k then rs else successors ns k')"
  by (simp add: successors_def)

definition edges_added ::
  "BundleKey set \<Rightarrow> (BundleKey \<Rightarrow> BundleKey set) \<Rightarrow> BundleKey set \<Rightarrow> (BundleKey, BundleKey list) gomap \<Rightarrow> BundleKey list option \<Rightarrow> bool" where
  "edges_added K R D ns cand \<longleftrightarrow>
     (\<forall>k. set (successors ns k) = R k \<and> (k \<in> K \<longrightarrow> gm_has ns k))
     \<and> (case cand of None \<Rightarrow> K = {} | Some ks \<Rightarrow> distinct ks \<and> set ks = K - D)"

lemma entry_sets_snoc:
  "entry_keys ex c (es @ [e]) = (if ca_ChannelName e = c \<and> entry_key e \<in> set ex then insert (entry_key e) (entry_keys ex c es) else entry_keys ex c es)"
  "replaced_keys c (es @ [e]) = (if ca_ChannelName e = c then insert (entry_replaces_key e) (replaced_keys c es) else replaced_keys c es)"
  "node_replaces c k (es @ [e]) =
     (if ca_ChannelName e = c \<and> entry_key e = k \<and> \<not> BundleKey_IsEmpty (entry_replaces_key e)
      then insert (entry_replaces_key e) (node_replaces c k es) else node_replaces c k es)"
  by (auto simp: entry_keys_def replaced_keys_def node_replaces_def)

lemma nodes_of_put [simp]: "nodes_of (gm_put c ns g) c' = (if c' = c then ns else nodes_of g c')"
  by (simp add: nodes_of_def)

lemma nodes_of_init: "nodes_of (if gm_has g c then g else gm_put c [] g) c' = nodes_of g c'"
  by (simp add: nodes_of_def)

lemma add_entry_node_view:
  "nodes_of (fst (add_entry_node ex e s)) c =
     (if c = ca_ChannelName e \<and> entry_key e \<in> set ex then gm_put (entry_key e) [] (nodes_of (fst s) c) else nodes_of (fst s) c)"
  "gm_get (snd (add_entry_node ex e s)) c =
     (if c = ca_ChannelName e \<and> entry_key e \<in> set ex
      then Some (case gm_get (snd s) c of None \<Rightarrow> [entry_key e] | Some ks \<Rightarrow> List.insert (entry_key e) ks) else gm_get (snd s) c)"
proof -
  obtain g heads where s: "s = (g, heads)" by (cases s)
  have step: "add_entry_node ex e s =
      (let g1 = (if gm_has g (ca_ChannelName e) then g else gm_put (ca_ChannelName e) [] g)
       in if entry_key e \<notin> set ex then (g1, heads)
          else (gm_put (ca_ChannelName e) (gm_put (entry_key e) [] (nodes_of g1 (ca_ChannelName e))) g1,
                gm_put (ca_ChannelName e) (case gm_get heads (ca_ChannelName e) of None \<Rightarrow> [entry_key e] | Some ks \<Rightarrow> List.insert (entry_key e) ks) heads))"
    by (simp only: s add_entry_node_def Let_def prod.case)
  show "nodes_of (fst (add_entry_node ex e s)) c =
     (if c = ca_ChannelName e \<and> entry_key e \<in> set ex then gm_put (entry_key e) [] (nodes_of (fst s) c) else nodes_of (fst s) c)"
    unfolding step Let_def by (cases "entry_key e \<in> set ex"; cases "c = ca_ChannelName e") (simp_all only: s fst_conv nodes_of_put nodes_of_init if_True if_False simp_thms split: if_split)
  show "gm_get (snd (add_entry_node ex e s)) c =
     (if c = ca_ChannelName e \<and> entry_key e \<in> set ex
      then Some (case gm_get (snd s) c of None \<Rightarrow> [entry_key e] | Some ks \<Rightarrow> List.insert (entry_key e) ks) else gm_get (snd s) c)"
    unfolding step Let_def by (cases "entry_key e \<in> set ex"; cases "c = ca_ChannelName e") (simp_all only: s snd_conv gm_get_put if_True if_False simp_thms split: if_split)
qed

lemma add_entry_nodes:
  "nodes_added (entry_keys ex c es) (nodes_of (fst s) c) (gm_get (snd s) c) \<Longrightarrow>
   nodes_added (entry_keys ex c (es @ es')) (nodes_of (fst (fold (add_entry_node ex) es' s)) c) (gm_get (snd (fold (add_entry_node ex) es' s)) c)"
proof (induction es' arbitrary: es s)
  case (Cons e es')
  have "nodes_added (entry_keys ex c (es @ [e])) (nodes_of (fst (add_entry_node ex e s)) c) (gm_get (snd (add_entry_node ex e s)) c)"
    using Cons.prems unfolding add_entry_node_view entry_sets_snoc by (auto simp: nodes_added_def split: option.splits)
  from Cons.IH [OF this] show ?case by simp
qed simp

lemma add_entry_replaces_view:
  "nodes_of (fst (add_entry_replaces e s)) c =
     (if c = ca_ChannelName e \<and> \<not> BundleKey_IsEmpty (entry_replaces_key e)
      then gm_put (entry_key e) (List.insert (entry_replaces_key e) (successors (nodes_of (fst s) c) (entry_key e)))
             (nodes_of (fst s) c)
      else nodes_of (fst s) c)"
  "gm_get (snd (add_entry_replaces e s)) c =
     (if c = ca_ChannelName e then map_option (removeAll (entry_replaces_key e)) (gm_get (snd s) c) else gm_get (snd s) c)"
  by (cases s; simp add: add_entry_replaces_def Let_def successors_def split: option.split)+

lemma add_entries_replaces:
  "edges_added K (\<lambda>k. node_replaces c k es) (replaced_keys c es) (nodes_of (fst s) c) (gm_get (snd s) c) \<Longrightarrow>
   edges_added K (\<lambda>k. node_replaces c k (es @ es')) (replaced_keys c (es @ es'))
     (nodes_of (fst (fold add_entry_replaces es' s)) c) (gm_get (snd (fold add_entry_replaces es' s)) c)"
proof (induction es' arbitrary: es s)
  case (Cons e es')
  have "edges_added K (\<lambda>k. node_replaces c k (es @ [e])) (replaced_keys c (es @ [e]))
      (nodes_of (fst (add_entry_replaces e s)) c) (gm_get (snd (add_entry_replaces e s)) c)"
    using Cons.prems unfolding add_entry_replaces_view entry_sets_snoc
    by (cases "gm_get (snd s) c") (auto simp: edges_added_def distinct_removeAll successors_put)
  from Cons.IH [OF this] show ?case by simp
qed simp

lemma fold_keys_wf: "gm_wf (snd s) \<Longrightarrow> gm_wf (snd (fold add_entry_replaces es' (fold (add_entry_node ex) es s)))"
proof -
  assume wf: "gm_wf (snd s)"
  have "gm_wf (snd (fold (add_entry_node ex) es s))" if "gm_wf (snd s)" for s
    using that by (induction es arbitrary: s) (auto simp: add_entry_node_def Let_def split: prod.splits)
  moreover have "gm_wf (snd (fold add_entry_replaces es' s))" if "gm_wf (snd s)" for s
    using that by (induction es' arbitrary: s) (auto simp: add_entry_replaces_def Let_def split: prod.splits option.splits)
  ultimately show ?thesis using wf by blast
qed

text \<open>
  C23: A channel in the graph of channel entries has as head the only existing bundle among its entries that no
  entry of the channel replaces, every existing bundle among its entries is a node, and the edges of a node are exactly
  the bundles that the entries of the channel say it replaces.
\<close>

theorem graphFromEntries_spec:
  assumes "graphFromEntries es ex = Inr channels" and "gm_get channels c = Some ch"
  shows "entry_keys ex c es - replaced_keys c es = {gc_Head ch}
    \<and> (\<forall>k \<in> entry_keys ex c es. gm_has (gc_Nodes ch) k)
    \<and> (\<forall>k. set (successors (gc_Nodes ch) k) = node_replaces c k es)"
proof -
  define s where "s = fold add_entry_replaces es (fold (add_entry_node ex) es ([], []))"
  have "nodes_added (entry_keys ex c []) (nodes_of (fst ([], [])) c) (gm_get (snd ([], [])) c)"
    by (simp add: nodes_added_def entry_keys_def nodes_of_def)
  from add_entry_nodes [OF this, of es] have "nodes_added (entry_keys ex c es)
      (nodes_of (fst (fold (add_entry_node ex) es ([], []))) c) (gm_get (snd (fold (add_entry_node ex) es ([], []))) c)"
    by simp
  then have "edges_added (entry_keys ex c es) (\<lambda>k. node_replaces c k []) (replaced_keys c [])
      (nodes_of (fst (fold (add_entry_node ex) es ([], []))) c) (gm_get (snd (fold (add_entry_node ex) es ([], []))) c)"
    by (simp add: nodes_added_def edges_added_def successors_def node_replaces_def replaced_keys_def split: option.splits)
  from add_entries_replaces [OF this, of es]
  have edges: "edges_added (entry_keys ex c es) (\<lambda>k. node_replaces c k es) (replaced_keys c es) (nodes_of (fst s) c) (gm_get (snd s) c)"
    by (simp add: s_def)
  obtain ks where ks: "gm_get (snd s) c = Some ks" and ch: "ks = [gc_Head ch]" "gc_Nodes ch = nodes_of (fst s) c"
  proof -
    let ?f = "\<lambda>(channel, candidates). case candidates of [] \<Rightarrow> Inl (NoChannelHead channel)
        | [head] \<Rightarrow> Inr (channel, \<lparr>gc_Head = head, gc_Nodes = nodes_of (fst s) channel\<rparr>)
        | _ \<Rightarrow> Inl (ManyChannelHeads channel candidates)"
    have m: "mapM ?f (snd s) = Inr channels"
      using assms(1) unfolding graphFromEntries_def s_def [symmetric] Let_def case_prod_unfold .
    from mapM_set [OF m, THEN iffD1, OF map_of_SomeD [OF assms(2)]]
    obtain x where "x \<in> set (snd s)" "?f x = Inr (c, ch)" by (rule bexE)
    then have mem: "(c, [gc_Head ch]) \<in> set (snd s)" and nodes: "gc_Nodes ch = nodes_of (fst s) c"
      by (auto split: list.splits prod.splits)
    have "gm_wf (snd s)" using fold_keys_wf [of "([], [])"] by (simp add: s_def)
    from that [OF gm_get_Some_iff [OF this, THEN iffD2, OF mem] refl nodes] show ?thesis .
  qed
  have "set [gc_Head ch] = entry_keys ex c es - replaced_keys c es"
    using edges by (simp only: edges_added_def ks ch(1) option.case)
  moreover have "\<forall>k. set (successors (gc_Nodes ch) k) = node_replaces c k es \<and> (k \<in> entry_keys ex c es \<longrightarrow> gm_has (gc_Nodes ch) k)"
    using edges unfolding edges_added_def ch(2) by (rule conjunct1)
  ultimately show ?thesis by simp
qed

definition sample_entry :: "string \<Rightarrow> string \<Rightarrow> ChannelEntryAnnotated" where
  "sample_entry n r =
     \<lparr>ca_PackageName = ''p'', ca_ChannelName = ''x'', ca_BundleName = n, ca_BundlePath = [], ca_Version = [],
      ca_Replaces = r, ca_ReplacesVersion = [], ca_ReplacesBundlePath = []\<rparr>"

theorem graphFromEntries_spec_witness:
  "\<exists>channels ch. graphFromEntries [sample_entry ''b'' ''a'', sample_entry ''a'' []] [csv_key ''a'', csv_key ''b''] = Inr channels
     \<and> gm_get channels ''x'' = Some ch
     \<and> entry_keys [csv_key ''a'', csv_key ''b''] ''x'' [sample_entry ''b'' ''a'', sample_entry ''a'' []]
         - replaced_keys ''x'' [sample_entry ''b'' ''a'', sample_entry ''a'' []] = {gc_Head ch}"
proof -
  let ?g = "graphFromEntries [sample_entry ''b'' ''a'', sample_entry ''a'' []] [csv_key ''a'', csv_key ''b'']"
  have "(case ?g of Inl _ \<Rightarrow> False | Inr chs \<Rightarrow> gm_get chs ''x'' \<noteq> None)" by code_simp
  then obtain chs ch where "?g = Inr chs" "gm_get chs ''x'' = Some ch" by (auto split: sum.splits)
  with graphFromEntries_spec [OF this] show ?thesis by blast
qed

end
