(* ===== verification/Db.thy ===== *)
theory Db
  imports Go_Prelude
begin

text \<open>
  The database of \<^verbatim>\<open>pkg/sqlite\<close> as the migrations leave it: one list of rows per table in rowid order, a column that
  the code can leave NULL as an option, and the statements that the loader runs. The meaning of SQL is written out:
  uniqueness and foreign keys are checked by the statement that would break them, except for the two foreign keys that are
  declared as deferred (from an entry to the entry it replaces, from the rows of the API tables to their bundle), a foreign key with a NULL column is not checked, a delete runs the \<^verbatim>\<open>ON DELETE CASCADE\<close>
  actions and the triggers row by row, and \<^verbatim>\<open>INSERT OR REPLACE\<close> deletes the row it replaces, with these actions.
  A statement that fails leaves the database as it was.

  Two choices of the engine are not fixed by SQL and are fields of the database: the order of the actions on the two
  API tables, and whether a scan of \<^verbatim>\<open>operatorbundle\<close> visits rows by rowid or by name.
\<close>

section \<open>Tables\<close>

record operatorbundle =
  ob_name :: string
  ob_csv :: "string option"
  ob_bundle :: "string option"
  ob_bundlepath :: "string option"
  ob_version :: "string option"
  ob_skiprange :: "string option"
  ob_replaces :: "string option"
  ob_skips :: "string option"
  ob_substitutesfor :: "string option"

record package_row =
  pk_name :: string
  pk_default_channel :: "string option"

record channel_row =
  ch_name :: string
  ch_package_name :: string
  ch_head_operatorbundle_name :: string

record channel_entry =
  en_entry_id :: nat
  en_channel_name :: string
  en_package_name :: string
  en_operatorbundle_name :: string
  en_replaces :: "nat option"
  en_depth :: nat

record api_row =
  api_group_name :: string
  api_version :: string
  api_kind :: string
  api_plural :: string

text \<open>The rows of \<^verbatim>\<open>api_provider\<close> and of \<^verbatim>\<open>api_requirer\<close>.\<close>

record api_ref =
  ar_group_name :: string
  ar_version :: string
  ar_kind :: string
  ar_operatorbundle_name :: string
  ar_operatorbundle_version :: "string option"
  ar_operatorbundle_path :: "string option"

record related_image =
  ri_image :: string
  ri_operatorbundle_name :: string

text \<open>The rows of \<^verbatim>\<open>dependencies\<close> and of \<^verbatim>\<open>properties\<close>.\<close>

record bundle_value =
  bl_type :: string
  bl_value :: string
  bl_operatorbundle_name :: string
  bl_operatorbundle_version :: "string option"
  bl_operatorbundle_path :: "string option"

record database =
  t_operatorbundle :: "operatorbundle list"
  t_package :: "package_row list"
  t_channel :: "channel_row list"
  t_channel_entry :: "channel_entry list"
  t_api :: "api_row list"
  t_api_provider :: "api_ref list"
  t_api_requirer :: "api_ref list"
  t_related_image :: "related_image list"
  t_dependencies :: "bundle_value list"
  t_properties :: "bundle_value list"
  t_deprecated :: "string list"
  provider_first :: bool
  scan_by_name :: bool

definition empty_database :: "bool \<Rightarrow> bool \<Rightarrow> database" where
  "empty_database pf sn =
     \<lparr>t_operatorbundle = [], t_package = [], t_channel = [], t_channel_entry = [], t_api = [], t_api_provider = [],
      t_api_requirer = [], t_related_image = [], t_dependencies = [], t_properties = [], t_deprecated = [],
      provider_first = pf, scan_by_name = sn\<rparr>"

type_synonym gvk = "string \<times> string \<times> string"

definition api_key :: "api_row \<Rightarrow> gvk" where
  "api_key a = (api_group_name a, api_version a, api_kind a)"

definition ref_key :: "api_ref \<Rightarrow> gvk" where
  "ref_key r = (ar_group_name r, ar_version r, ar_kind r)"

definition channel_key :: "channel_row \<Rightarrow> string \<times> string" where
  "channel_key c = (ch_name c, ch_package_name c)"

definition entry_channel :: "channel_entry \<Rightarrow> string \<times> string" where
  "entry_channel e = (en_channel_name e, en_package_name e)"

text \<open>The columns of a child row that refer to a bundle match it; a NULL matches nothing.\<close>

definition refers :: "string \<Rightarrow> string option \<Rightarrow> string option \<Rightarrow> operatorbundle \<Rightarrow> bool" where
  "refers n v p b \<longleftrightarrow> v \<noteq> None \<and> p \<noteq> None \<and> ob_name b = n \<and> ob_version b = v \<and> ob_bundlepath b = p"

definition bundle_fk :: "database \<Rightarrow> string \<Rightarrow> string option \<Rightarrow> string option \<Rightarrow> bool" where
  "bundle_fk db n v p \<longleftrightarrow> v = None \<or> p = None \<or> list_ex (refers n v p) (t_operatorbundle db)"

text \<open>The rows of \<^verbatim>\<open>operatorbundle\<close> in the order of a scan.\<close>

definition scan_operatorbundle :: "database \<Rightarrow> operatorbundle list \<Rightarrow> operatorbundle list" where
  "scan_operatorbundle db bs = (if scan_by_name db then sort_key ob_name bs else bs)"

section \<open>Deletes\<close>

text \<open>
  The triggers after a delete from \<^verbatim>\<open>api_provider\<close> or \<^verbatim>\<open>api_requirer\<close>: the condition joins the two tables, so it
  fails also when one of them is empty. Deleting the API row deletes the rows that refer to it; the triggers of these
  deletes can only delete the same API row again.
\<close>

definition api_in_use :: "gvk \<Rightarrow> database \<Rightarrow> bool" where
  "api_in_use k db \<longleftrightarrow> list_ex (\<lambda>p. list_ex (\<lambda>q. ref_key p = k \<or> ref_key q = k) (t_api_requirer db)) (t_api_provider db)"

definition cleanup_api :: "gvk \<Rightarrow> database \<Rightarrow> database" where
  "cleanup_api k db =
     (if api_in_use k db then db
      else db\<lparr>t_api := filter (\<lambda>a. api_key a \<noteq> k) (t_api db),
              t_api_provider := filter (\<lambda>r. ref_key r \<noteq> k) (t_api_provider db),
              t_api_requirer := filter (\<lambda>r. ref_key r \<noteq> k) (t_api_requirer db)\<rparr>)"

definition delete_provider_row :: "api_ref \<Rightarrow> database \<Rightarrow> database" where
  "delete_provider_row r db =
     (if r \<in> set (t_api_provider db)
      then cleanup_api (ref_key r) (db\<lparr>t_api_provider := remove1 r (t_api_provider db)\<rparr>) else db)"

definition delete_requirer_row :: "api_ref \<Rightarrow> database \<Rightarrow> database" where
  "delete_requirer_row r db =
     (if r \<in> set (t_api_requirer db)
      then cleanup_api (ref_key r) (db\<lparr>t_api_requirer := remove1 r (t_api_requirer db)\<rparr>) else db)"

definition delete_api_provider :: "(api_ref \<Rightarrow> bool) \<Rightarrow> database \<Rightarrow> database" where
  "delete_api_provider P db = fold delete_provider_row (filter P (t_api_provider db)) db"

definition delete_api_requirer :: "(api_ref \<Rightarrow> bool) \<Rightarrow> database \<Rightarrow> database" where
  "delete_api_requirer P db = fold delete_requirer_row (filter P (t_api_requirer db)) db"

definition delete_channel_entry :: "(channel_entry \<Rightarrow> bool) \<Rightarrow> database \<Rightarrow> database" where
  "delete_channel_entry P db = db\<lparr>t_channel_entry := filter (\<lambda>e. \<not> P e) (t_channel_entry db)\<rparr>"

definition delete_package :: "(package_row \<Rightarrow> bool) \<Rightarrow> database \<Rightarrow> database" where
  "delete_package P db = db\<lparr>t_package := filter (\<lambda>p. \<not> P p) (t_package db)\<rparr>"

text \<open>Whether the default channel of a package is one of the given channels.\<close>

definition default_in :: "(string \<times> string) list \<Rightarrow> package_row \<Rightarrow> bool" where
  "default_in ks p \<longleftrightarrow> (case pk_default_channel p of None \<Rightarrow> False | Some c \<Rightarrow> (c, pk_name p) \<in> set ks)"

definition delete_channel :: "(channel_row \<Rightarrow> bool) \<Rightarrow> database \<Rightarrow> database" where
  "delete_channel P db =
     (let ks = map channel_key (filter P (t_channel db))
      in delete_package (default_in ks) (delete_channel_entry (\<lambda>e. entry_channel e \<in> set ks)
           (db\<lparr>t_channel := filter (\<lambda>c. \<not> P c) (t_channel db)\<rparr>)))"

definition cascade_refs :: "operatorbundle \<Rightarrow> database \<Rightarrow> database" where
  "cascade_refs b db =
     (let P = (\<lambda>r. refers (ar_operatorbundle_name r) (ar_operatorbundle_version r) (ar_operatorbundle_path r) b)
      in if provider_first db then delete_api_requirer P (delete_api_provider P db)
         else delete_api_provider P (delete_api_requirer P db))"

definition keep_values :: "operatorbundle \<Rightarrow> bundle_value list \<Rightarrow> bundle_value list" where
  "keep_values b = filter (\<lambda>v. \<not> refers (bl_operatorbundle_name v) (bl_operatorbundle_version v) (bl_operatorbundle_path v) b)"

definition delete_bundle_row :: "operatorbundle \<Rightarrow> database \<Rightarrow> database" where
  "delete_bundle_row b db =
     (let db1 = cascade_refs b (delete_channel (\<lambda>c. ch_head_operatorbundle_name c = ob_name b)
                  (db\<lparr>t_operatorbundle := remove1 b (t_operatorbundle db)\<rparr>))
      in db1\<lparr>t_related_image := filter (\<lambda>i. ri_operatorbundle_name i \<noteq> ob_name b) (t_related_image db1),
             t_dependencies := keep_values b (t_dependencies db1),
             t_properties := keep_values b (t_properties db1)\<rparr>)"

definition delete_operatorbundle :: "(operatorbundle \<Rightarrow> bool) \<Rightarrow> database \<Rightarrow> database" where
  "delete_operatorbundle P db = fold delete_bundle_row (scan_operatorbundle db (filter P (t_operatorbundle db))) db"

section \<open>Inserts and updates\<close>

datatype sql_error = UniqueFailed | ForeignKeyFailed

definition insert_operatorbundle :: "operatorbundle \<Rightarrow> database \<Rightarrow> sql_error + database" where
  "insert_operatorbundle b db =
     (if ob_name b \<in> set (map ob_name (t_operatorbundle db)) then Inl UniqueFailed
      else Inr (db\<lparr>t_operatorbundle := t_operatorbundle db @ [b]\<rparr>))"

definition update_operatorbundle :: "(operatorbundle \<Rightarrow> bool) \<Rightarrow> (operatorbundle \<Rightarrow> operatorbundle) \<Rightarrow> database \<Rightarrow> database" where
  "update_operatorbundle P f db = db\<lparr>t_operatorbundle := map (\<lambda>b. if P b then f b else b) (t_operatorbundle db)\<rparr>"

definition insert_related_image :: "string \<Rightarrow> string \<Rightarrow> database \<Rightarrow> sql_error + database" where
  "insert_related_image img name db =
     (if name \<notin> set (map ob_name (t_operatorbundle db)) then Inl ForeignKeyFailed
      else Inr (db\<lparr>t_related_image := t_related_image db @ [\<lparr>ri_image = img, ri_operatorbundle_name = name\<rparr>]\<rparr>))"

definition value_fk :: "database \<Rightarrow> bundle_value \<Rightarrow> bool" where
  "value_fk db v \<longleftrightarrow> bundle_fk db (bl_operatorbundle_name v) (bl_operatorbundle_version v) (bl_operatorbundle_path v)"

definition ref_fk :: "database \<Rightarrow> api_ref \<Rightarrow> bool" where
  "ref_fk db r \<longleftrightarrow> ref_key r \<in> set (map api_key (t_api db))"

definition insert_dependencies :: "bundle_value \<Rightarrow> database \<Rightarrow> sql_error + database" where
  "insert_dependencies v db =
     (if value_fk db v then Inr (db\<lparr>t_dependencies := t_dependencies db @ [v]\<rparr>) else Inl ForeignKeyFailed)"

definition insert_properties :: "bundle_value \<Rightarrow> database \<Rightarrow> sql_error + database" where
  "insert_properties v db =
     (if value_fk db v then Inr (db\<lparr>t_properties := t_properties db @ [v]\<rparr>) else Inl ForeignKeyFailed)"

definition insert_or_ignore_api :: "api_row \<Rightarrow> database \<Rightarrow> database" where
  "insert_or_ignore_api a db =
     (if api_key a \<in> set (map api_key (t_api db)) then db else db\<lparr>t_api := t_api db @ [a]\<rparr>)"

definition insert_api_provider :: "api_ref \<Rightarrow> database \<Rightarrow> sql_error + database" where
  "insert_api_provider r db =
     (if ref_fk db r then Inr (db\<lparr>t_api_provider := t_api_provider db @ [r]\<rparr>) else Inl ForeignKeyFailed)"

definition insert_api_requirer :: "api_ref \<Rightarrow> database \<Rightarrow> sql_error + database" where
  "insert_api_requirer r db =
     (if ref_fk db r then Inr (db\<lparr>t_api_requirer := t_api_requirer db @ [r]\<rparr>) else Inl ForeignKeyFailed)"

definition insert_package :: "string \<Rightarrow> database \<Rightarrow> sql_error + database" where
  "insert_package name db =
     (if name \<in> set (map pk_name (t_package db)) then Inl UniqueFailed
      else Inr (db\<lparr>t_package := t_package db @ [\<lparr>pk_name = name, pk_default_channel = None\<rparr>]\<rparr>))"

definition insert_or_replace_package :: "string \<Rightarrow> database \<Rightarrow> database" where
  "insert_or_replace_package name db =
     (let db1 = delete_package (\<lambda>p. pk_name p = name) db
      in db1\<lparr>t_package := t_package db1 @ [\<lparr>pk_name = name, pk_default_channel = None\<rparr>]\<rparr>)"

definition has_channel :: "database \<Rightarrow> string \<Rightarrow> string \<Rightarrow> bool" where
  "has_channel db name pkg \<longleftrightarrow> (name, pkg) \<in> set (map channel_key (t_channel db))"

definition update_default_channel :: "string \<Rightarrow> string \<Rightarrow> database \<Rightarrow> sql_error + database" where
  "update_default_channel channel pkg db =
     (if pkg \<in> set (map pk_name (t_package db)) \<and> \<not> has_channel db channel pkg then Inl ForeignKeyFailed
      else Inr (db\<lparr>t_package := map (\<lambda>p. if pk_name p = pkg then p\<lparr>pk_default_channel := Some channel\<rparr> else p) (t_package db)\<rparr>))"

definition insert_channel :: "channel_row \<Rightarrow> database \<Rightarrow> sql_error + database" where
  "insert_channel c db =
     (if has_channel db (ch_name c) (ch_package_name c) then Inl UniqueFailed
      else if ch_head_operatorbundle_name c \<notin> set (map ob_name (t_operatorbundle db)) then Inl ForeignKeyFailed
      else Inr (db\<lparr>t_channel := t_channel db @ [c]\<rparr>))"

definition insert_or_replace_channel :: "channel_row \<Rightarrow> database \<Rightarrow> sql_error + database" where
  "insert_or_replace_channel c db =
     (if ch_head_operatorbundle_name c \<notin> set (map ob_name (t_operatorbundle db)) then Inl ForeignKeyFailed
      else let db1 = delete_channel (\<lambda>d. channel_key d = channel_key c) db in Inr (db1\<lparr>t_channel := t_channel db1 @ [c]\<rparr>))"

definition update_channel_head :: "(channel_row \<Rightarrow> bool) \<Rightarrow> string \<Rightarrow> database \<Rightarrow> sql_error + database" where
  "update_channel_head P head db =
     (if list_ex P (t_channel db) \<and> head \<notin> set (map ob_name (t_operatorbundle db)) then Inl ForeignKeyFailed
      else Inr (db\<lparr>t_channel := map (\<lambda>c. if P c then c\<lparr>ch_head_operatorbundle_name := head\<rparr> else c) (t_channel db)\<rparr>))"

definition next_entry_id :: "database \<Rightarrow> nat" where
  "next_entry_id db = Suc (Max (insert 0 (set (map en_entry_id (t_channel_entry db)))))"

definition insert_channel_entry :: "string \<Rightarrow> string \<Rightarrow> string \<Rightarrow> nat \<Rightarrow> database \<Rightarrow> sql_error + nat \<times> database" where
  "insert_channel_entry channel pkg name depth db =
     (if \<not> has_channel db channel pkg then Inl ForeignKeyFailed
      else let i = next_entry_id db
           in Inr (i, db\<lparr>t_channel_entry := t_channel_entry db
                @ [\<lparr>en_entry_id = i, en_channel_name = channel, en_package_name = pkg, en_operatorbundle_name = name,
                    en_replaces = None, en_depth = depth\<rparr>]\<rparr>))"

definition update_channel_entry :: "(channel_entry \<Rightarrow> bool) \<Rightarrow> nat option \<Rightarrow> database \<Rightarrow> database" where
  "update_channel_entry P replaces db =
     db\<lparr>t_channel_entry := map (\<lambda>e. if P e then e\<lparr>en_replaces := replaces\<rparr> else e) (t_channel_entry db)\<rparr>"

definition insert_or_replace_deprecated :: "string \<Rightarrow> database \<Rightarrow> database" where
  "insert_or_replace_deprecated name db = db\<lparr>t_deprecated := removeAll name (t_deprecated db) @ [name]\<rparr>"

text \<open>The deferred foreign keys, which a commit checks.\<close>

definition entries_linked :: "database \<Rightarrow> bool" where
  "entries_linked db \<longleftrightarrow>
     list_all (\<lambda>e. case en_replaces e of None \<Rightarrow> True | Some i \<Rightarrow> i \<in> set (map en_entry_id (t_channel_entry db))) (t_channel_entry db)"

definition refs_linked :: "database \<Rightarrow> bool" where
  "refs_linked db \<longleftrightarrow>
     list_all (\<lambda>r. bundle_fk db (ar_operatorbundle_name r) (ar_operatorbundle_version r) (ar_operatorbundle_path r))
       (t_api_provider db @ t_api_requirer db)"

end
