(* ===== verification/Db_Inv.thy ===== *)
theory Db_Inv
  imports Db
begin

text \<open>
  The invariant of the database: primary keys are unique and every foreign key that a statement checks holds. Every
  statement keeps it. A delete with its cascades is described by what it leaves of each table.
\<close>

definition unique_keys :: "database \<Rightarrow> bool" where
  "unique_keys db \<longleftrightarrow> distinct (map ob_name (t_operatorbundle db)) \<and> distinct (map pk_name (t_package db))
     \<and> distinct (map channel_key (t_channel db)) \<and> distinct (map en_entry_id (t_channel_entry db))
     \<and> distinct (map api_key (t_api db)) \<and> distinct (t_deprecated db)"

definition default_fk :: "database \<Rightarrow> package_row \<Rightarrow> bool" where
  "default_fk db p \<longleftrightarrow> (case pk_default_channel p of None \<Rightarrow> True | Some c \<Rightarrow> has_channel db c (pk_name p))"

definition foreign_keys :: "database \<Rightarrow> bool" where
  "foreign_keys db \<longleftrightarrow> list_all (default_fk db) (t_package db)
     \<and> list_all (\<lambda>c. ch_head_operatorbundle_name c \<in> set (map ob_name (t_operatorbundle db))) (t_channel db)
     \<and> list_all (\<lambda>e. has_channel db (en_channel_name e) (en_package_name e)) (t_channel_entry db)
     \<and> list_all (ref_fk db) (t_api_provider db) \<and> list_all (ref_fk db) (t_api_requirer db)
     \<and> list_all (\<lambda>i. ri_operatorbundle_name i \<in> set (map ob_name (t_operatorbundle db))) (t_related_image db)
     \<and> list_all (value_fk db) (t_dependencies db) \<and> list_all (value_fk db) (t_properties db)"

definition db_ok :: "database \<Rightarrow> bool" where
  "db_ok db \<longleftrightarrow> unique_keys db \<and> foreign_keys db"

lemma empty_database_ok: "db_ok (empty_database pf sn)"
  by (simp add: db_ok_def unique_keys_def foreign_keys_def empty_database_def)

section \<open>Deletes from the API tables\<close>

definition refs_have_api :: "database \<Rightarrow> bool" where
  "refs_have_api db \<longleftrightarrow> ref_key ` (set (t_api_provider db) \<union> set (t_api_requirer db)) \<subseteq> api_key ` set (t_api db)"

text \<open>Only the three API tables change: they lose rows, and keep the foreign key between them.\<close>

definition api_shrinks :: "database \<Rightarrow> database \<Rightarrow> bool" where
  "api_shrinks db db' \<longleftrightarrow>
     (\<exists>Q ps rs. db' = db\<lparr>t_api := filter Q (t_api db), t_api_provider := ps, t_api_requirer := rs\<rparr>
        \<and> set ps \<subseteq> set (t_api_provider db) \<and> set rs \<subseteq> set (t_api_requirer db))
     \<and> (refs_have_api db \<longrightarrow> refs_have_api db')"

lemma api_shrinksI:
  assumes "db' = db\<lparr>t_api := filter Q (t_api db), t_api_provider := ps, t_api_requirer := rs\<rparr>"
    and "set ps \<subseteq> set (t_api_provider db)" and "set rs \<subseteq> set (t_api_requirer db)"
    and "refs_have_api db \<Longrightarrow> refs_have_api db'"
  shows "api_shrinks db db'"
  using assms unfolding api_shrinks_def by blast

lemma api_shrinks_refl [simp]: "api_shrinks db db"
  by (rule api_shrinksI [where Q = "\<lambda>_. True" and ps = "t_api_provider db" and rs = "t_api_requirer db"]) simp_all

lemma api_shrinks_trans: "api_shrinks a b \<Longrightarrow> api_shrinks b c \<Longrightarrow> api_shrinks a c"
proof -
  assume ab: "api_shrinks a b" and bc: "api_shrinks b c"
  obtain Q ps rs where b: "b = a\<lparr>t_api := filter Q (t_api a), t_api_provider := ps, t_api_requirer := rs\<rparr>"
      "set ps \<subseteq> set (t_api_provider a)" "set rs \<subseteq> set (t_api_requirer a)"
    using ab unfolding api_shrinks_def by blast
  obtain Q' ps' rs' where c: "c = b\<lparr>t_api := filter Q' (t_api b), t_api_provider := ps', t_api_requirer := rs'\<rparr>"
      "set ps' \<subseteq> set (t_api_provider b)" "set rs' \<subseteq> set (t_api_requirer b)"
    using bc unfolding api_shrinks_def by blast
  show ?thesis
  proof (rule api_shrinksI)
    show "c = a\<lparr>t_api := filter (\<lambda>x. Q x \<and> Q' x) (t_api a), t_api_provider := ps', t_api_requirer := rs'\<rparr>"
      using b(1) c(1) by (simp add: conj_commute)
    show "set ps' \<subseteq> set (t_api_provider a)" "set rs' \<subseteq> set (t_api_requirer a)" using b c by auto
    show "refs_have_api a \<Longrightarrow> refs_have_api c" using ab bc by (simp add: api_shrinks_def)
  qed
qed

lemma cleanup_api_shrinks: "api_shrinks db (cleanup_api k db)"
proof (cases "api_in_use k db")
  case False
  then have eq: "cleanup_api k db = db\<lparr>t_api := filter (\<lambda>a. api_key a \<noteq> k) (t_api db),
      t_api_provider := filter (\<lambda>r. ref_key r \<noteq> k) (t_api_provider db), t_api_requirer := filter (\<lambda>r. ref_key r \<noteq> k) (t_api_requirer db)\<rparr>"
    by (simp add: cleanup_api_def)
  show ?thesis by (rule api_shrinksI [OF eq]) (auto simp: eq refs_have_api_def)
qed (simp add: cleanup_api_def)

lemma remove_provider_shrinks: "api_shrinks db (db\<lparr>t_api_provider := remove1 r (t_api_provider db)\<rparr>)"
  by (rule api_shrinksI [where Q = "\<lambda>_. True" and ps = "remove1 r (t_api_provider db)" and rs = "t_api_requirer db"])
    (auto simp: refs_have_api_def dest: set_remove1_subset [THEN subsetD])

lemma remove_requirer_shrinks: "api_shrinks db (db\<lparr>t_api_requirer := remove1 r (t_api_requirer db)\<rparr>)"
  by (rule api_shrinksI [where Q = "\<lambda>_. True" and ps = "t_api_provider db" and rs = "remove1 r (t_api_requirer db)"])
    (auto simp: refs_have_api_def dest: set_remove1_subset [THEN subsetD])

lemma delete_row_shrinks:
  "api_shrinks db (delete_provider_row r db)" "api_shrinks db (delete_requirer_row r db)"
  using api_shrinks_trans [OF remove_provider_shrinks cleanup_api_shrinks]
    api_shrinks_trans [OF remove_requirer_shrinks cleanup_api_shrinks]
  by (simp_all add: delete_provider_row_def delete_requirer_row_def)

lemma fold_shrinks: "(\<And>x db. api_shrinks db (f x db)) \<Longrightarrow> api_shrinks db (fold f xs db)"
  by (induction xs arbitrary: db) (auto intro: api_shrinks_trans)

lemma delete_api_shrinks:
  "api_shrinks db (delete_api_provider P db)" "api_shrinks db (delete_api_requirer P db)"
  unfolding delete_api_provider_def delete_api_requirer_def
  by (rule fold_shrinks, rule delete_row_shrinks)+

lemma cascade_refs_shrinks: "api_shrinks db (cascade_refs b db)"
  by (simp add: cascade_refs_def Let_def api_shrinks_trans [OF delete_api_shrinks(1) delete_api_shrinks(2)]
    api_shrinks_trans [OF delete_api_shrinks(2) delete_api_shrinks(1)])

text \<open>After a delete no row of its table satisfies the condition.\<close>

lemma count_remove:
  "count_list (remove1 x xs) y = (if y = x then count_list xs y - 1 else count_list xs y)"
  by (induction xs) auto

lemma count_filter_le: "count_list (filter P xs) y \<le> count_list xs y"
  by (induction xs) auto

lemma count_filter_sat: "P y \<Longrightarrow> count_list (filter P xs) y = count_list xs y"
  by (induction xs) auto

lemma cleanup_api_count:
  "count_list (t_api_provider (cleanup_api k db)) y \<le> count_list (t_api_provider db) y"
  "count_list (t_api_requirer (cleanup_api k db)) y \<le> count_list (t_api_requirer db) y"
  by (simp_all add: cleanup_api_def count_filter_le)

lemma delete_row_count:
  "count_list (t_api_provider (delete_provider_row r db)) y \<le> count_list (t_api_provider db) y - count_list [r] y"
  "count_list (t_api_requirer (delete_requirer_row r db)) y \<le> count_list (t_api_requirer db) y - count_list [r] y"
  using cleanup_api_count(1) [of "ref_key r" "db\<lparr>t_api_provider := remove1 r (t_api_provider db)\<rparr>" y]
    cleanup_api_count(2) [of "ref_key r" "db\<lparr>t_api_requirer := remove1 r (t_api_requirer db)\<rparr>" y]
  by (auto simp: delete_provider_row_def delete_requirer_row_def count_remove count_list_0_iff)

lemma fold_count:
  assumes "\<And>x s. count_list (t (f x s)) y \<le> count_list (t s) y - count_list [x] y"
  shows "count_list (t (fold f xs s)) y \<le> count_list (t s) y - count_list xs y"
proof (induction xs arbitrary: s)
  case (Cons x xs)
  from Cons [of "f x s"] assms [of x s] show ?case by (cases "x = y") simp_all
qed simp

lemma delete_api_none:
  "r \<in> set (t_api_provider (delete_api_provider P db)) \<Longrightarrow> \<not> P r"
  "r \<in> set (t_api_requirer (delete_api_requirer P db)) \<Longrightarrow> \<not> P r"
  using fold_count [of t_api_provider delete_provider_row r "filter P (t_api_provider db)" db, OF delete_row_count(1)]
    fold_count [of t_api_requirer delete_requirer_row r "filter P (t_api_requirer db)" db, OF delete_row_count(2)]
  by (auto simp: delete_api_provider_def delete_api_requirer_def count_filter_sat count_list_0_iff)

lemma shrinks_tables:
  assumes "api_shrinks db db'"
  shows "t_operatorbundle db' = t_operatorbundle db" "t_package db' = t_package db" "t_channel db' = t_channel db"
    "t_channel_entry db' = t_channel_entry db" "t_related_image db' = t_related_image db"
    "t_dependencies db' = t_dependencies db" "t_properties db' = t_properties db" "t_deprecated db' = t_deprecated db"
    "provider_first db' = provider_first db" "scan_by_name db' = scan_by_name db"
  using assms unfolding api_shrinks_def by auto

lemma shrinks_refs:
  assumes "api_shrinks db db'"
  shows "set (t_api_provider db') \<subseteq> set (t_api_provider db)" "set (t_api_requirer db') \<subseteq> set (t_api_requirer db)"
    "set (t_api db') \<subseteq> set (t_api db)" "refs_have_api db \<Longrightarrow> refs_have_api db'"
    "distinct (map api_key (t_api db)) \<Longrightarrow> distinct (map api_key (t_api db'))"
  using assms unfolding api_shrinks_def by (auto intro: distinct_map_filter)

definition refers_ref :: "operatorbundle \<Rightarrow> api_ref \<Rightarrow> bool" where
  "refers_ref b r \<longleftrightarrow> refers (ar_operatorbundle_name r) (ar_operatorbundle_version r) (ar_operatorbundle_path r) b"

lemma cascade_refs_none:
  assumes "r \<in> set (t_api_provider (cascade_refs b db)) \<union> set (t_api_requirer (cascade_refs b db))"
  shows "\<not> refers_ref b r"
proof -
  let ?P = "refers_ref b"
  have eq: "cascade_refs b db = (if provider_first db then delete_api_requirer ?P (delete_api_provider ?P db)
      else delete_api_provider ?P (delete_api_requirer ?P db))"
    unfolding cascade_refs_def refers_ref_def Let_def ..
  show ?thesis
    using assms delete_api_none [where P = ?P]
      shrinks_refs(1) [OF delete_api_shrinks(2) [of "delete_api_provider ?P db" ?P]]
      shrinks_refs(2) [OF delete_api_shrinks(1) [of "delete_api_requirer ?P db" ?P]]
    unfolding eq by (auto split: if_splits)
qed

section \<open>Deletes keep the invariant\<close>

lemma bundle_fk_cong: "t_operatorbundle db' = t_operatorbundle db \<Longrightarrow> bundle_fk db' n v p = bundle_fk db n v p"
  by (simp add: bundle_fk_def)

lemma value_fk_cong: "t_operatorbundle db' = t_operatorbundle db \<Longrightarrow> value_fk db' = value_fk db"
  by (simp add: fun_eq_iff value_fk_def bundle_fk_def)

lemma has_channel_cong: "t_channel db' = t_channel db \<Longrightarrow> has_channel db' = has_channel db"
  by (simp add: fun_eq_iff has_channel_def)

lemma default_fk_cong: "t_channel db' = t_channel db \<Longrightarrow> default_fk db' = default_fk db"
  by (simp add: fun_eq_iff default_fk_def has_channel_def cong: option.case_cong)

lemma ref_fk_cong: "t_api db' = t_api db \<Longrightarrow> ref_fk db' = ref_fk db"
  by (simp add: fun_eq_iff ref_fk_def)

lemma api_shrinks_ok:
  assumes "api_shrinks db db'" and "db_ok db"
  shows "db_ok db'"
proof -
  note t = shrinks_tables [OF assms(1)] and s = shrinks_refs [OF assms(1)]
  have "refs_have_api db" using assms(2) by (auto simp: db_ok_def foreign_keys_def refs_have_api_def ref_fk_def list_all_iff)
  with s(4) have "refs_have_api db'" .
  then have "list_all (ref_fk db') (t_api_provider db') \<and> list_all (ref_fk db') (t_api_requirer db')"
    using assms(2) s(1,2)
    by (auto simp: db_ok_def foreign_keys_def refs_have_api_def ref_fk_def list_all_iff)
  moreover have "default_fk db' = default_fk db" "value_fk db' = value_fk db" "has_channel db' = has_channel db"
    by (rule default_fk_cong [OF t(3)] value_fk_cong [OF t(1)] has_channel_cong [OF t(3)])+
  ultimately show ?thesis
    using assms(2) s(5) by (simp add: db_ok_def unique_keys_def foreign_keys_def t)
qed

lemma delete_channel_tables:
  "t_operatorbundle (delete_channel P db) = t_operatorbundle db"
  "t_channel (delete_channel P db) = filter (\<lambda>c. \<not> P c) (t_channel db)"
  "t_package (delete_channel P db) = filter (\<lambda>p. \<not> default_in (map channel_key (filter P (t_channel db))) p) (t_package db)"
  "t_channel_entry (delete_channel P db)
     = filter (\<lambda>e. entry_channel e \<notin> channel_key ` set (filter P (t_channel db))) (t_channel_entry db)"
  "t_api (delete_channel P db) = t_api db" "t_api_provider (delete_channel P db) = t_api_provider db"
  "t_api_requirer (delete_channel P db) = t_api_requirer db" "t_related_image (delete_channel P db) = t_related_image db"
  "t_dependencies (delete_channel P db) = t_dependencies db" "t_properties (delete_channel P db) = t_properties db"
  "t_deprecated (delete_channel P db) = t_deprecated db" "provider_first (delete_channel P db) = provider_first db"
  "scan_by_name (delete_channel P db) = scan_by_name db"
  by (simp_all add: delete_channel_def delete_package_def delete_channel_entry_def Let_def)

lemma key_kept:
  assumes "distinct (map key xs)" and "k \<in> key ` set xs" and "k \<notin> key ` set (filter P xs)"
  shows "k \<in> key ` set (filter (\<lambda>x. \<not> P x) xs)"
  using assms by auto

lemma delete_channel_ok:
  assumes "db_ok db"
  shows "db_ok (delete_channel P db)"
proof -
  let ?db = "delete_channel P db"
  note t = delete_channel_tables [of P db]
  have keep: "has_channel ?db c p" if "has_channel db c p" "(c, p) \<notin> channel_key ` set (filter P (t_channel db))" for c p
    using that key_kept [of channel_key "t_channel db" "(c, p)" P] assms
    by (auto simp: has_channel_def t db_ok_def unique_keys_def)
  have "list_all (default_fk ?db) (t_package ?db)"
    using assms keep
    by (auto simp: t default_fk_def default_in_def db_ok_def foreign_keys_def list_all_iff split: option.splits)
  moreover have "list_all (\<lambda>e. has_channel ?db (en_channel_name e) (en_package_name e)) (t_channel_entry ?db)"
    using assms keep by (auto simp: t entry_channel_def db_ok_def foreign_keys_def list_all_iff)
  moreover have "ref_fk ?db = ref_fk db" "value_fk ?db = value_fk db"
    by (rule ref_fk_cong [OF t(5)] value_fk_cong [OF t(1)])+
  ultimately show ?thesis
    using assms by (auto simp: db_ok_def unique_keys_def foreign_keys_def t list_all_iff distinct_map_filter)
qed

lemma delete_channel_entry_ok: "db_ok db \<Longrightarrow> db_ok (delete_channel_entry P db)"
proof -
  assume "db_ok db"
  moreover have "default_fk (delete_channel_entry P db) = default_fk db" "ref_fk (delete_channel_entry P db) = ref_fk db"
    "value_fk (delete_channel_entry P db) = value_fk db" "has_channel (delete_channel_entry P db) = has_channel db"
    by (rule default_fk_cong ref_fk_cong value_fk_cong has_channel_cong; simp add: delete_channel_entry_def)+
  ultimately show ?thesis
    by (auto simp: db_ok_def unique_keys_def foreign_keys_def list_all_iff distinct_map_filter delete_channel_entry_def)
qed

lemma delete_package_ok: "db_ok db \<Longrightarrow> db_ok (delete_package P db)"
proof -
  assume "db_ok db"
  moreover have "default_fk (delete_package P db) = default_fk db" "ref_fk (delete_package P db) = ref_fk db"
    "value_fk (delete_package P db) = value_fk db" "has_channel (delete_package P db) = has_channel db"
    by (rule default_fk_cong ref_fk_cong value_fk_cong has_channel_cong; simp add: delete_package_def)+
  ultimately show ?thesis
    by (auto simp: db_ok_def unique_keys_def foreign_keys_def list_all_iff distinct_map_filter delete_package_def)
qed

lemma delete_bundle_row_tables:
  "t_operatorbundle (delete_bundle_row b db) = remove1 b (t_operatorbundle db)"
  "t_package (delete_bundle_row b db) = t_package (delete_channel (\<lambda>c. ch_head_operatorbundle_name c = ob_name b) db)"
  "t_channel (delete_bundle_row b db) = t_channel (delete_channel (\<lambda>c. ch_head_operatorbundle_name c = ob_name b) db)"
  "t_channel_entry (delete_bundle_row b db) = t_channel_entry (delete_channel (\<lambda>c. ch_head_operatorbundle_name c = ob_name b) db)"
  "t_related_image (delete_bundle_row b db) = filter (\<lambda>i. ri_operatorbundle_name i \<noteq> ob_name b) (t_related_image db)"
  "t_dependencies (delete_bundle_row b db) = keep_values b (t_dependencies db)"
  "t_properties (delete_bundle_row b db) = keep_values b (t_properties db)"
  "t_deprecated (delete_bundle_row b db) = t_deprecated db"
  "provider_first (delete_bundle_row b db) = provider_first db" "scan_by_name (delete_bundle_row b db) = scan_by_name db"
  by (simp_all add: delete_bundle_row_def Let_def shrinks_tables [OF cascade_refs_shrinks] delete_channel_tables)

text \<open>The API tables after a bundle is deleted: nothing refers to the bundle.\<close>

lemma delete_bundle_row_refs:
  "set (t_api_provider (delete_bundle_row b db)) \<subseteq> {r \<in> set (t_api_provider db). \<not> refers_ref b r}"
  "set (t_api_requirer (delete_bundle_row b db)) \<subseteq> {r \<in> set (t_api_requirer db). \<not> refers_ref b r}"
  "refs_have_api db \<Longrightarrow> refs_have_api (delete_bundle_row b db)"
  "distinct (map api_key (t_api db)) \<Longrightarrow> distinct (map api_key (t_api (delete_bundle_row b db)))"
proof -
  let ?d = "delete_channel (\<lambda>c. ch_head_operatorbundle_name c = ob_name b) (db\<lparr>t_operatorbundle := remove1 b (t_operatorbundle db)\<rparr>)"
  have eq: "t_api_provider (delete_bundle_row b db) = t_api_provider (cascade_refs b ?d)"
    "t_api_requirer (delete_bundle_row b db) = t_api_requirer (cascade_refs b ?d)"
    "t_api (delete_bundle_row b db) = t_api (cascade_refs b ?d)"
    by (simp_all add: delete_bundle_row_def Let_def)
  note s = shrinks_refs [OF cascade_refs_shrinks [of ?d b]]
  show "set (t_api_provider (delete_bundle_row b db)) \<subseteq> {r \<in> set (t_api_provider db). \<not> refers_ref b r}"
    "set (t_api_requirer (delete_bundle_row b db)) \<subseteq> {r \<in> set (t_api_requirer db). \<not> refers_ref b r}"
    using s(1,2) cascade_refs_none [of _ b ?d] by (auto simp: eq delete_channel_tables)
  show "refs_have_api (delete_bundle_row b db)" if "refs_have_api db"
    using s(4) that by (simp add: refs_have_api_def eq delete_channel_tables)
  show "distinct (map api_key (t_api (delete_bundle_row b db)))" if "distinct (map api_key (t_api db))"
    using s(5) that by (simp add: eq delete_channel_tables)
qed

lemma bundle_fk_remove:
  assumes "distinct (map ob_name (t_operatorbundle db))" "bundle_fk db n v p" "\<not> refers n v p b"
    and "t_operatorbundle db' = remove1 b (t_operatorbundle db)"
  shows "bundle_fk db' n v p"
  using assms by (auto simp: bundle_fk_def list_ex_iff distinct_map)

lemma remove_other_name:
  assumes "n \<in> ob_name ` set bs" "n \<noteq> ob_name b"
  shows "n \<in> ob_name ` set (remove1 b bs)"
  using assms by (metis (no_types, lifting) image_iff in_set_remove1)

lemma delete_bundle_row_ok:
  assumes "db_ok db"
  shows "db_ok (delete_bundle_row b db)"
proof -
  let ?db = "delete_bundle_row b db" and ?c = "delete_channel (\<lambda>c. ch_head_operatorbundle_name c = ob_name b) db"
  note t = delete_bundle_row_tables [of b db] and r = delete_bundle_row_refs [where b = b and db = db]
  note c = delete_channel_ok [OF assms, of "\<lambda>c. ch_head_operatorbundle_name c = ob_name b"]
  have names: "distinct (map ob_name (t_operatorbundle db))" using assms by (simp add: db_ok_def unique_keys_def)
  note keep = bundle_fk_remove [OF names _ _ t(1)]
  have eq: "default_fk ?db = default_fk ?c" "has_channel ?db = has_channel ?c"
    by (rule default_fk_cong [OF t(3)] has_channel_cong [OF t(3)])+
  have "refs_have_api db" using assms by (auto simp: db_ok_def foreign_keys_def refs_have_api_def ref_fk_def list_all_iff)
  note api = r(3) [OF this]
  have "list_all (ref_fk ?db) (t_api_provider ?db) \<and> list_all (ref_fk ?db) (t_api_requirer ?db)"
    using api assms r(1,2) keep
    by (fastforce simp: list_all_iff ref_fk_def refs_have_api_def db_ok_def foreign_keys_def refers_ref_def)
  moreover have "list_all (value_fk ?db) (t_dependencies ?db) \<and> list_all (value_fk ?db) (t_properties ?db)"
    using assms keep by (auto simp: list_all_iff value_fk_def t keep_values_def db_ok_def foreign_keys_def)
  moreover have "list_all (\<lambda>i. ri_operatorbundle_name i \<in> set (map ob_name (t_operatorbundle ?db))) (t_related_image ?db)"
    "list_all (\<lambda>c. ch_head_operatorbundle_name c \<in> set (map ob_name (t_operatorbundle ?db))) (t_channel ?db)"
    using assms by (auto simp: list_all_iff t delete_channel_tables db_ok_def foreign_keys_def intro: remove_other_name)
  moreover have "distinct (map ob_name (t_operatorbundle ?db))"
    using names by (auto simp: t distinct_map intro: inj_on_subset)
  ultimately show ?thesis
    using c r(4) assms by (simp add: db_ok_def unique_keys_def foreign_keys_def eq t)
qed

lemma delete_operatorbundle_ok: "db_ok db \<Longrightarrow> db_ok (delete_operatorbundle P db)"
proof -
  have "db_ok db \<Longrightarrow> db_ok (fold delete_bundle_row bs db)" for bs db
    by (induction bs arbitrary: db) (simp_all add: delete_bundle_row_ok)
  then show "db_ok db \<Longrightarrow> db_ok (delete_operatorbundle P db)" by (simp add: delete_operatorbundle_def Let_def)
qed

lemma delete_api_ok: "db_ok db \<Longrightarrow> db_ok (delete_api_provider P db)" "db_ok db \<Longrightarrow> db_ok (delete_api_requirer P db)"
  by (rule api_shrinks_ok [OF delete_api_shrinks(1)] api_shrinks_ok [OF delete_api_shrinks(2)]; assumption)+

section \<open>Inserts and updates keep the invariant\<close>

lemma bundle_fk_mono: "set (t_operatorbundle db) \<subseteq> set (t_operatorbundle db') \<Longrightarrow> bundle_fk db n v p \<Longrightarrow> bundle_fk db' n v p"
  by (auto simp: bundle_fk_def list_ex_iff)

lemma insert_operatorbundle_ok:
  assumes "db_ok db" and "insert_operatorbundle b db = Inr db'"
  shows "db_ok db'"
proof -
  have db': "db' = db\<lparr>t_operatorbundle := t_operatorbundle db @ [b]\<rparr>" and new: "ob_name b \<notin> set (map ob_name (t_operatorbundle db))"
    using assms(2) by (auto simp: insert_operatorbundle_def split: if_splits)
  have eq: "default_fk db' = default_fk db" "has_channel db' = has_channel db"
    by (rule default_fk_cong has_channel_cong; simp add: db')+
  have mono: "bundle_fk db n v p \<Longrightarrow> bundle_fk db' n v p" for n v p by (rule bundle_fk_mono) (auto simp: db')
  have "ref_fk db r \<Longrightarrow> ref_fk db' r" "value_fk db x \<Longrightarrow> value_fk db' x" for r x
    using mono by (simp_all add: ref_fk_def value_fk_def db')
  then show ?thesis
    using assms(1) new eq by (simp add: db_ok_def unique_keys_def foreign_keys_def list_all_iff db')
qed

definition same_key :: "(operatorbundle \<Rightarrow> operatorbundle) \<Rightarrow> bool" where
  "same_key f \<longleftrightarrow> (\<forall>b. ob_name (f b) = ob_name b \<and> ob_version (f b) = ob_version b \<and> ob_bundlepath (f b) = ob_bundlepath b)"

lemma update_operatorbundle_ok:
  assumes "db_ok db" and "same_key f"
  shows "db_ok (update_operatorbundle P f db)"
proof -
  let ?db = "update_operatorbundle P f db" and ?g = "\<lambda>b. if P b then f b else b"
  have g: "ob_name (?g b) = ob_name b" "refers n v p (?g b) = refers n v p b" for b n v p
    using assms(2) by (simp_all add: same_key_def refers_def)
  have names: "map ob_name (t_operatorbundle ?db) = map ob_name (t_operatorbundle db)"
    using g(1) by (simp add: update_operatorbundle_def)
  have "list_ex (refers n v p) (map ?g bs) = list_ex (refers n v p) bs" for n v p bs
    by (induction bs) (simp_all add: g(2))
  then have "bundle_fk ?db n v p = bundle_fk db n v p" for n v p
    by (simp add: bundle_fk_def update_operatorbundle_def)
  then have "ref_fk ?db = ref_fk db" "value_fk ?db = value_fk db"
    by (simp_all add: fun_eq_iff ref_fk_def value_fk_def) (simp_all add: update_operatorbundle_def)
  moreover have "default_fk ?db = default_fk db" "has_channel ?db = has_channel db"
    by (rule default_fk_cong has_channel_cong; simp add: update_operatorbundle_def)+
  moreover have "t_package ?db = t_package db" "t_channel ?db = t_channel db" "t_channel_entry ?db = t_channel_entry db"
    "t_api ?db = t_api db" "t_api_provider ?db = t_api_provider db" "t_api_requirer ?db = t_api_requirer db"
    "t_related_image ?db = t_related_image db" "t_dependencies ?db = t_dependencies db" "t_properties ?db = t_properties db"
    "t_deprecated ?db = t_deprecated db"
    by (simp_all add: update_operatorbundle_def)
  ultimately show ?thesis using assms(1) by (simp only: db_ok_def unique_keys_def foreign_keys_def names)
qed

text \<open>A statement that adds rows to the tables no foreign key refers to.\<close>

lemma add_children_ok:
  assumes "db_ok db" and "list_all (ref_fk db) ps" "list_all (ref_fk db) rs" "list_all (value_fk db) ds" "list_all (value_fk db) vs"
    and "list_all (\<lambda>i. ri_operatorbundle_name i \<in> set (map ob_name (t_operatorbundle db))) is"
  shows "db_ok (db\<lparr>t_api_provider := t_api_provider db @ ps, t_api_requirer := t_api_requirer db @ rs,
    t_related_image := t_related_image db @ is, t_dependencies := t_dependencies db @ ds, t_properties := t_properties db @ vs\<rparr>)"
    (is "db_ok ?db")
proof -
  have "default_fk ?db = default_fk db" "ref_fk ?db = ref_fk db" "value_fk ?db = value_fk db" "has_channel ?db = has_channel db"
    by (rule default_fk_cong ref_fk_cong value_fk_cong has_channel_cong; simp)+
  then show ?thesis using assms by (simp add: db_ok_def unique_keys_def foreign_keys_def)
qed

lemma insert_related_image_ok: "db_ok db \<Longrightarrow> insert_related_image i n db = Inr db' \<Longrightarrow> db_ok db'"
  using add_children_ok [of db "[]" "[]" "[]" "[]" "[\<lparr>ri_image = i, ri_operatorbundle_name = n\<rparr>]"]
  by (auto simp: insert_related_image_def split: if_splits)

lemma insert_dependencies_ok: "db_ok db \<Longrightarrow> insert_dependencies v db = Inr db' \<Longrightarrow> db_ok db'"
  using add_children_ok [of db "[]" "[]" "[v]" "[]" "[]"] by (auto simp: insert_dependencies_def split: if_splits)

lemma insert_properties_ok: "db_ok db \<Longrightarrow> insert_properties v db = Inr db' \<Longrightarrow> db_ok db'"
  using add_children_ok [of db "[]" "[]" "[]" "[v]" "[]"] by (auto simp: insert_properties_def split: if_splits)

lemma insert_api_provider_ok: "db_ok db \<Longrightarrow> insert_api_provider r db = Inr db' \<Longrightarrow> db_ok db'"
  using add_children_ok [of db "[r]" "[]" "[]" "[]" "[]"] by (auto simp: insert_api_provider_def split: if_splits)

lemma insert_api_requirer_ok: "db_ok db \<Longrightarrow> insert_api_requirer r db = Inr db' \<Longrightarrow> db_ok db'"
  using add_children_ok [of db "[]" "[r]" "[]" "[]" "[]"] by (auto simp: insert_api_requirer_def split: if_splits)

lemma insert_or_ignore_api_ok: "db_ok db \<Longrightarrow> db_ok (insert_or_ignore_api a db)"
proof -
  assume ok: "db_ok db"
  show ?thesis
  proof (cases "api_key a \<in> set (map api_key (t_api db))")
    case False
    then have db': "insert_or_ignore_api a db = db\<lparr>t_api := t_api db @ [a]\<rparr>" by (simp add: insert_or_ignore_api_def)
    have "default_fk (db\<lparr>t_api := t_api db @ [a]\<rparr>) = default_fk db" "value_fk (db\<lparr>t_api := t_api db @ [a]\<rparr>) = value_fk db"
      "has_channel (db\<lparr>t_api := t_api db @ [a]\<rparr>) = has_channel db"
      by (rule default_fk_cong value_fk_cong has_channel_cong; simp)+
    moreover have "ref_fk db r \<Longrightarrow> ref_fk (db\<lparr>t_api := t_api db @ [a]\<rparr>) r" for r by (simp add: ref_fk_def bundle_fk_def)
    ultimately show ?thesis using ok False by (simp add: db' db_ok_def unique_keys_def foreign_keys_def list_all_iff)
  qed (simp add: ok insert_or_ignore_api_def)
qed

lemma set_packages_ok:
  assumes "db_ok db" and "list_all (default_fk db) ps" and "distinct (map pk_name ps)"
  shows "db_ok (db\<lparr>t_package := ps\<rparr>)" (is "db_ok ?db")
proof -
  have "default_fk ?db = default_fk db" "ref_fk ?db = ref_fk db" "value_fk ?db = value_fk db" "has_channel ?db = has_channel db"
    by (rule default_fk_cong ref_fk_cong value_fk_cong has_channel_cong; simp)+
  then show ?thesis using assms by (simp add: db_ok_def unique_keys_def foreign_keys_def)
qed

lemma packages_ok: "db_ok db \<Longrightarrow> list_all (default_fk db) (t_package db) \<and> distinct (map pk_name (t_package db))"
  by (simp add: db_ok_def unique_keys_def foreign_keys_def)

lemma insert_package_ok: "db_ok db \<Longrightarrow> insert_package n db = Inr db' \<Longrightarrow> db_ok db'"
  using packages_ok [of db] by (auto simp: insert_package_def default_fk_def intro!: set_packages_ok split: if_splits)

lemma insert_or_replace_package_ok:
  assumes "db_ok db"
  shows "db_ok (insert_or_replace_package n db)"
proof -
  have ok: "db_ok (delete_package (\<lambda>p. pk_name p = n) db)" by (rule delete_package_ok [OF assms])
  moreover have "n \<notin> pk_name ` set (t_package (delete_package (\<lambda>p. pk_name p = n) db))" by (auto simp: delete_package_def)
  ultimately show ?thesis
    using packages_ok [OF ok] unfolding insert_or_replace_package_def Let_def
    by (intro set_packages_ok) (simp_all add: default_fk_def)
qed

lemma update_default_channel_ok:
  assumes "db_ok db" and "update_default_channel c n db = Inr db'"
  shows "db_ok db'"
proof -
  let ?ps = "map (\<lambda>p. if pk_name p = n then p\<lparr>pk_default_channel := Some c\<rparr> else p) (t_package db)"
  have "map pk_name ?ps = map pk_name (t_package db)" by simp
  moreover have "list_all (default_fk db) ?ps" and "db' = db\<lparr>t_package := ?ps\<rparr>"
    using assms packages_ok [OF assms(1)]
    by (auto simp: update_default_channel_def list_all_iff default_fk_def split: if_splits)
  ultimately show ?thesis using packages_ok [OF assms(1)] set_packages_ok [OF assms(1), of ?ps] by metis
qed

lemma insert_channel_ok:
  assumes "db_ok db" and "insert_channel c db = Inr db'"
  shows "db_ok db'"
proof -
  have db': "db' = db\<lparr>t_channel := t_channel db @ [c]\<rparr>" and new: "channel_key c \<notin> set (map channel_key (t_channel db))"
    and head: "ch_head_operatorbundle_name c \<in> set (map ob_name (t_operatorbundle db))"
    using assms(2) by (auto simp: insert_channel_def has_channel_def channel_key_def split: if_splits)
  have "ref_fk db' = ref_fk db" "value_fk db' = value_fk db" by (rule ref_fk_cong value_fk_cong; simp add: db')+
  moreover have "has_channel db a b \<Longrightarrow> has_channel db' a b" for a b by (simp add: has_channel_def db')
  then have "default_fk db p \<Longrightarrow> default_fk db' p" "has_channel db a b \<Longrightarrow> has_channel db' a b" for p a b
    by (auto simp: default_fk_def split: option.splits)
  ultimately show ?thesis
    using assms(1) new head by (simp add: db_ok_def unique_keys_def foreign_keys_def list_all_iff db')
qed

lemma insert_or_replace_channel_ok:
  assumes "db_ok db" and "insert_or_replace_channel c db = Inr db'"
  shows "db_ok db'"
proof -
  let ?d = "delete_channel (\<lambda>d. channel_key d = channel_key c) db"
  have "insert_channel c ?d = Inr db'"
    using assms(2)
    by (auto simp: insert_or_replace_channel_def insert_channel_def has_channel_def delete_channel_tables channel_key_def Let_def split: if_splits)
  then show ?thesis by (rule insert_channel_ok [OF delete_channel_ok [OF assms(1)]])
qed

lemma update_channel_head_ok:
  assumes "db_ok db" and "update_channel_head P h db = Inr db'"
  shows "db_ok db'"
proof -
  let ?cs = "map (\<lambda>c. if P c then c\<lparr>ch_head_operatorbundle_name := h\<rparr> else c) (t_channel db)"
  have keys: "map channel_key ?cs = map channel_key (t_channel db)" by (simp add: channel_key_def)
  have db': "db' = db\<lparr>t_channel := ?cs\<rparr>" and h: "list_ex P (t_channel db) \<Longrightarrow> h \<in> set (map ob_name (t_operatorbundle db))"
    using assms(2) by (auto simp: update_channel_head_def split: if_splits)
  have "ref_fk db' = ref_fk db" "value_fk db' = value_fk db" by (rule ref_fk_cong value_fk_cong; simp add: db')+
  moreover have hc: "has_channel db' = has_channel db" unfolding has_channel_def db' by (simp add: keys del: map_map)
  moreover have "default_fk db' = default_fk db" by (simp add: fun_eq_iff default_fk_def hc cong: option.case_cong)
  moreover have "list_all (\<lambda>c. ch_head_operatorbundle_name c \<in> set (map ob_name (t_operatorbundle db))) ?cs"
  proof -
    have "h \<in> set (map ob_name (t_operatorbundle db))" if "c \<in> set (t_channel db)" "P c" for c
      using h that by (metis list_ex_iff)
    then show ?thesis using assms(1) by (auto simp: list_all_iff db_ok_def foreign_keys_def)
  qed
  moreover have "distinct (map channel_key ?cs)" unfolding keys using assms(1) by (simp add: db_ok_def unique_keys_def)
  ultimately show ?thesis using assms(1) by (simp add: db_ok_def unique_keys_def foreign_keys_def db' del: map_map)
qed

lemma set_entries_ok:
  assumes "db_ok db" and "list_all (\<lambda>e. has_channel db (en_channel_name e) (en_package_name e)) es" and "distinct (map en_entry_id es)"
  shows "db_ok (db\<lparr>t_channel_entry := es\<rparr>)" (is "db_ok ?db")
proof -
  have "default_fk ?db = default_fk db" "ref_fk ?db = ref_fk db" "value_fk ?db = value_fk db" "has_channel ?db = has_channel db"
    by (rule default_fk_cong ref_fk_cong value_fk_cong has_channel_cong; simp)+
  then show ?thesis using assms by (simp add: db_ok_def unique_keys_def foreign_keys_def)
qed

lemma entries_ok:
  "db_ok db \<Longrightarrow> list_all (\<lambda>e. has_channel db (en_channel_name e) (en_package_name e)) (t_channel_entry db)
     \<and> distinct (map en_entry_id (t_channel_entry db))"
  by (simp add: db_ok_def unique_keys_def foreign_keys_def)

lemma next_entry_id_new: "e \<in> set (t_channel_entry db) \<Longrightarrow> en_entry_id e < next_entry_id db"
  by (simp add: next_entry_id_def less_Suc_eq_le)

lemma next_entry_id_fresh: "next_entry_id db \<notin> set (map en_entry_id (t_channel_entry db))"
proof
  assume "next_entry_id db \<in> set (map en_entry_id (t_channel_entry db))"
  then obtain e where "e \<in> set (t_channel_entry db)" "en_entry_id e = next_entry_id db" by auto
  with next_entry_id_new [of e db] show False by simp
qed

lemma insert_channel_entry_ok: "db_ok db \<Longrightarrow> insert_channel_entry c p n d db = Inr (i, db') \<Longrightarrow> db_ok db'"
  using entries_ok [of db] next_entry_id_fresh [of db]
  by (auto simp: insert_channel_entry_def Let_def simp del: set_map intro!: set_entries_ok split: if_splits)

lemma update_channel_entry_ok:
  assumes "db_ok db"
  shows "db_ok (update_channel_entry P r db)"
proof -
  let ?es = "map (\<lambda>e. if P e then e\<lparr>en_replaces := r\<rparr> else e) (t_channel_entry db)"
  have "map en_entry_id ?es = map en_entry_id (t_channel_entry db)" by simp
  moreover have "list_all (\<lambda>e. has_channel db (en_channel_name e) (en_package_name e)) ?es"
    using entries_ok [OF assms] by (auto simp: list_all_iff)
  ultimately show ?thesis
    using entries_ok [OF assms] set_entries_ok [OF assms, of ?es] unfolding update_channel_entry_def by metis
qed

lemma insert_or_replace_deprecated_ok: "db_ok db \<Longrightarrow> db_ok (insert_or_replace_deprecated n db)"
proof -
  assume "db_ok db"
  moreover have "default_fk (insert_or_replace_deprecated n db) = default_fk db" "ref_fk (insert_or_replace_deprecated n db) = ref_fk db"
    "value_fk (insert_or_replace_deprecated n db) = value_fk db" "has_channel (insert_or_replace_deprecated n db) = has_channel db"
    by (rule default_fk_cong ref_fk_cong value_fk_cong has_channel_cong; simp add: insert_or_replace_deprecated_def)+
  ultimately show ?thesis
    by (simp add: db_ok_def unique_keys_def foreign_keys_def insert_or_replace_deprecated_def distinct_removeAll)
qed

lemmas statements_ok = delete_channel_ok delete_channel_entry_ok delete_package_ok delete_operatorbundle_ok delete_api_ok
  insert_or_ignore_api_ok insert_or_replace_package_ok update_channel_entry_ok insert_or_replace_deprecated_ok

lemmas inserts_ok = insert_operatorbundle_ok insert_related_image_ok insert_dependencies_ok insert_properties_ok
  insert_api_provider_ok insert_api_requirer_ok insert_package_ok update_default_channel_ok insert_channel_ok
  insert_or_replace_channel_ok insert_channel_entry_ok update_channel_head_ok

section \<open>What a delete of bundles leaves\<close>

definition has_bundle :: "database \<Rightarrow> string \<Rightarrow> bool" where
  "has_bundle db n \<longleftrightarrow> n \<in> ob_name ` set (t_operatorbundle db)"

lemma fold_delete_bundle_row:
  assumes "distinct (map ob_name (t_operatorbundle db))" and "set bs \<subseteq> set (t_operatorbundle db)" and "distinct bs"
  shows "t_operatorbundle (fold delete_bundle_row bs db) = filter (\<lambda>b. b \<notin> set bs) (t_operatorbundle db)
    \<and> t_channel (fold delete_bundle_row bs db) = filter (\<lambda>c. ch_head_operatorbundle_name c \<notin> ob_name ` set bs) (t_channel db)"
  using assms
proof (induction bs arbitrary: db)
  case (Cons b bs)
  let ?d = "delete_bundle_row b db"
  have d: "t_operatorbundle ?d = filter (\<lambda>x. x \<noteq> b) (t_operatorbundle db)"
    using Cons.prems by (simp add: delete_bundle_row_tables distinct_map distinct_remove1_removeAll removeAll_filter_not_eq) (metis (mono_tags))
  have "distinct (map ob_name (t_operatorbundle ?d))" "set bs \<subseteq> set (t_operatorbundle ?d)" "distinct bs"
    using Cons.prems by (auto simp: d distinct_map_filter)
  from Cons.IH [OF this] show ?case
    by (simp add: d delete_bundle_row_tables(3) delete_channel_tables(2) conj_commute)
qed simp

lemma delete_operatorbundle_tables:
  assumes "db_ok db"
  shows "t_operatorbundle (delete_operatorbundle P db) = filter (\<lambda>b. \<not> P b) (t_operatorbundle db)"
    and "t_channel (delete_operatorbundle P db)
      = filter (\<lambda>c. ch_head_operatorbundle_name c \<notin> ob_name ` set (filter P (t_operatorbundle db))) (t_channel db)"
proof -
  let ?bs = "scan_operatorbundle db (filter P (t_operatorbundle db))"
  have d: "distinct (map ob_name (t_operatorbundle db))" using assms by (simp add: db_ok_def unique_keys_def)
  then have "set ?bs = set (filter P (t_operatorbundle db))" "distinct ?bs" by (auto simp: distinct_map scan_operatorbundle_def)
  with fold_delete_bundle_row [OF d, of ?bs]
  show "t_operatorbundle (delete_operatorbundle P db) = filter (\<lambda>b. \<not> P b) (t_operatorbundle db)"
    "t_channel (delete_operatorbundle P db)
      = filter (\<lambda>c. ch_head_operatorbundle_name c \<notin> ob_name ` set (filter P (t_operatorbundle db))) (t_channel db)"
    by (auto simp: delete_operatorbundle_def Let_def intro!: filter_cong)
qed

end
