(* ===== verification/Sqlite_Load.thy ===== *)
theory Sqlite_Load
  imports Db_Inv Graph Declcfg
begin

text \<open>
  The loader of \<^verbatim>\<open>pkg/sqlite\<close> (\<^verbatim>\<open>load.go\<close>, \<^verbatim>\<open>loadprocs.go\<close>) over the tables of \<open>Db\<close>. The body of a transaction is
  a function from the database to an error or the new database; the caller rolls back on an error, and a commit fails
  where a deferred foreign key is broken. Preparing a statement and reading rows does not fail.
  A set that Go keeps as a map is a list in order of insertion. The loops of \<open>addSubstitutesFor\<close> and of
  \<open>AddPackageChannelsFromGraph\<close> follow links of the data with no test for a cycle, so they are partial functions, and
  \<open>None\<close> means that the operation never returns.
\<close>

section \<open>Errors and transactions\<close>

datatype load_error = Sql sql_error | OfBundle bundle_error | CsvNameNotFound | AlphaOnly
  | AddBundleFailed string sql_error | AddImagesFailed string string sql_error | NoBundleFound string | NoBundleName
  | OfSemver semver_error | DuplicateVersions | ManySubstitutions string | JsonFailed
  | AddPackageFailed string sql_error | AddChannelFailed string string sql_error | NoDefaultChannel string
  | AddDefaultFailed string string sql_error | CycleDetected string string | ReplacesNonexistent string string
  | InvalidGraph | CommitFailed | Aggregate "load_error list" | BundleImageNotInDatabase | RemovingDefaultChannel

definition lift_sql :: "(sql_error \<Rightarrow> load_error) \<Rightarrow> sql_error + 'a \<Rightarrow> load_error + 'a" where
  "lift_sql f r = map_sum f (\<lambda>x. x) r"

definition run_op :: "'a bundle_op \<Rightarrow> Bundle \<Rightarrow> load_error + 'a \<times> Bundle" where
  "run_op f b = (case f b of (Inl e, _) \<Rightarrow> Inl (OfBundle e) | (Inr x, b') \<Rightarrow> Inr (x, b'))"

definition commit :: "database \<Rightarrow> load_error + database" where
  "commit db = (if entries_linked db \<and> refs_linked db then Inr db else Inl CommitFailed)"

definition transaction :: "(database \<Rightarrow> load_error + database) \<Rightarrow> database \<Rightarrow> load_error option \<times> database" where
  "transaction body db = (case bindr (body db) commit of Inl e \<Rightarrow> (Some e, db) | Inr db' \<Rightarrow> (None, db'))"

definition NewAggregate :: "load_error list \<Rightarrow> load_error option" where
  "NewAggregate errs = (if errs = [] then None else Some (Aggregate errs))"

section \<open>Reading\<close>

definition sqlString :: "string \<Rightarrow> string option" where
  "sqlString s = (if s = [] then None else Some s)"

definition null_string :: "string option \<Rightarrow> string" where
  "null_string s = (case s of None \<Rightarrow> [] | Some x \<Rightarrow> x)"

definition bundle_row :: "database \<Rightarrow> string \<Rightarrow> operatorbundle option" where
  "bundle_row db name = find (\<lambda>b. ob_name b = name) (t_operatorbundle db)"

definition getBundleSkipsReplacesVersion :: "database \<Rightarrow> string \<Rightarrow> load_error + string \<times> string list \<times> string" where
  "getBundleSkipsReplacesVersion db bundleName =
     (case bundle_row db bundleName of
        None \<Rightarrow> Inl (NoBundleFound bundleName)
      | Some b \<Rightarrow>
          Inr (null_string (ob_replaces b),
               if null_string (ob_skips b) \<noteq> [] then strings_Split CHR '','' (null_string (ob_skips b)) else [],
               null_string (ob_version b)))"

definition getBundlePathIfExists :: "database \<Rightarrow> string \<Rightarrow> string" where
  "getBundlePathIfExists db bundleName =
     (case bundle_row db bundleName of None \<Rightarrow> [] | Some b \<Rightarrow> null_string (ob_bundlepath b))"

definition first_occurrences :: "'a list \<Rightarrow> 'a list" where
  "first_occurrences xs = rev (remdups (rev xs))"

definition getCSVNames :: "database \<Rightarrow> string \<Rightarrow> string list" where
  "getCSVNames db packageName =
     first_occurrences (map en_operatorbundle_name (filter (\<lambda>e. en_package_name e = packageName) (t_channel_entry db)))"

definition getBundlesThatSubstitutesFor :: "database \<Rightarrow> string \<Rightarrow> string list" where
  "getBundlesThatSubstitutesFor db replaces =
     filter (\<lambda>n. n \<noteq> []) (map ob_name (filter (\<lambda>b. ob_substitutesfor b = Some replaces) (t_operatorbundle db)))"

definition getBundleSubstitution :: "database \<Rightarrow> string \<Rightarrow> string" where
  "getBundleSubstitution db name = (case bundle_row db name of None \<Rightarrow> [] | Some b \<Rightarrow> null_string (ob_substitutesfor b))"

definition deprecated :: "database \<Rightarrow> string \<Rightarrow> bool" where
  "deprecated db name \<longleftrightarrow> name \<in> set (t_deprecated db)"

definition getBundleNameAndVersionForImage :: "database \<Rightarrow> string \<Rightarrow> load_error + string \<times> string" where
  "getBundleNameAndVersionForImage db path =
     (case find (\<lambda>b. ob_bundlepath b = Some path) (scan_operatorbundle db (t_operatorbundle db)) of
        None \<Rightarrow> Inl BundleImageNotInDatabase
      | Some b \<Rightarrow> (case ob_version b of None \<Rightarrow> Inl BundleImageNotInDatabase | Some v \<Rightarrow> Inr (ob_name b, v)))"

section \<open>Procedures\<close>

definition addChannelEntry :: "string \<Rightarrow> string \<Rightarrow> string \<Rightarrow> nat \<Rightarrow> database \<Rightarrow> load_error + nat \<times> database" where
  "addChannelEntry channelName packageName csvName depth db = lift_sql Sql (insert_channel_entry channelName packageName csvName depth db)"

definition addReplaces :: "nat \<Rightarrow> nat \<Rightarrow> database \<Rightarrow> database" where
  "addReplaces replacesID entryID db = update_channel_entry (\<lambda>e. en_entry_id e = entryID) (Some replacesID) db"

definition addPackage :: "string \<Rightarrow> database \<Rightarrow> load_error + database" where
  "addPackage packageName db = lift_sql Sql (insert_package packageName db)"

definition addPackageIfNotExists :: "string \<Rightarrow> database \<Rightarrow> database" where
  "addPackageIfNotExists packageName db = insert_or_replace_package packageName db"

definition addChannel :: "string \<Rightarrow> string \<Rightarrow> string \<Rightarrow> database \<Rightarrow> load_error + database" where
  "addChannel channelName packageName headCsvName db =
     lift_sql Sql (insert_channel \<lparr>ch_name = channelName, ch_package_name = packageName, ch_head_operatorbundle_name = headCsvName\<rparr> db)"

definition updateChannel :: "string \<Rightarrow> string \<Rightarrow> string \<Rightarrow> database \<Rightarrow> load_error + database" where
  "updateChannel channelName packageName headCsvName db =
     lift_sql Sql (update_channel_head (\<lambda>c. ch_name c = packageName \<and> ch_package_name c = headCsvName) channelName db)"

definition addOrUpdateChannel :: "string \<Rightarrow> string \<Rightarrow> string \<Rightarrow> database \<Rightarrow> load_error + database" where
  "addOrUpdateChannel channelName packageName headCsvName db =
     lift_sql Sql (insert_or_replace_channel
       \<lparr>ch_name = channelName, ch_package_name = packageName, ch_head_operatorbundle_name = headCsvName\<rparr> db)"

definition updateDefaultChannel :: "string \<Rightarrow> string \<Rightarrow> database \<Rightarrow> load_error + database" where
  "updateDefaultChannel channelName packageName db = lift_sql Sql (update_default_channel channelName packageName db)"

definition truncChannelGraph :: "string \<Rightarrow> string \<Rightarrow> database \<Rightarrow> database" where
  "truncChannelGraph channelName packageName db =
     delete_channel_entry (\<lambda>e. en_channel_name e = channelName \<and> en_package_name e = packageName) db"

section \<open>Dependencies, properties and APIs of a bundle\<close>

text \<open>What \<^verbatim>\<open>json.Marshal\<close> writes for a raw message: its compact text, with the characters of HTML escaped.\<close>

fun html_escape :: "string \<Rightarrow> string" where
  "html_escape [] = []"
| "html_escape (c # s) =
     (if c = CHR ''<'' \<or> c = CHR ''>'' \<or> c = CHR ''&'' then quote_byte True c @ html_escape s
      else if byte c = 226 \<and> map byte (take 2 s) \<in> {[128, 168], [128, 169]}
      then CHR 0x5C # ''u202'' @ [hex_digit (byte (s ! 1) mod 16)] @ html_escape (drop 2 s)
      else c # html_escape s)"

definition raw_marshal :: "raw_message \<Rightarrow> load_error + string" where
  "raw_marshal r = of_option JsonFailed (map_option html_escape (json_compact (case r of None \<Rightarrow> ''null'' | Some d \<Rightarrow> d)))"

definition bundle_value :: "string \<Rightarrow> string \<Rightarrow> string \<Rightarrow> string \<Rightarrow> string \<Rightarrow> bundle_value" where
  "bundle_value type value name version path =
     \<lparr>bl_type = type, bl_value = value, bl_operatorbundle_name = name, bl_operatorbundle_version = sqlString version,
      bl_operatorbundle_path = sqlString path\<rparr>"

definition gvk_text :: "APIKey \<Rightarrow> string" where
  "gvk_text k = raw_bytes (p_Value (gvk_property k))"

definition addDep :: "Bundle \<Rightarrow> string \<Rightarrow> database \<Rightarrow> string \<times> string \<Rightarrow> load_error + database" where
  "addDep b bundleVersion db dep =
     lift_sql Sql (insert_dependencies (bundle_value (fst dep) (snd dep) (bn_Name b) bundleVersion (bn_BundleImage b)) db)"

definition addDependencies :: "Bundle \<Rightarrow> database \<Rightarrow> load_error + Bundle \<times> database" where
  "addDependencies b db =
     bindr (run_op Bundle_Version b) (\<lambda>(bundleVersion, b1).
     bindr (foldM (addDep b1 bundleVersion) db (map (\<lambda>d. (dep_Type d, raw_bytes (dep_Value d))) (bn_Dependencies b1))) (\<lambda>db1.
     bindr (run_op RequiredAPIs b1) (\<lambda>(requiredApis, b2).
     bindr (foldM (addDep b2 bundleVersion) db1 (map (\<lambda>api. (GVKType, gvk_text api)) requiredApis)) (\<lambda>db2. Inr (b2, db2)))))"

definition addProperty :: "string \<Rightarrow> string \<Rightarrow> string \<Rightarrow> string \<Rightarrow> string \<Rightarrow> database \<Rightarrow> load_error + database" where
  "addProperty propType value bundleName version path db =
     lift_sql Sql (insert_properties (bundle_value propType value bundleName version path) db)"

definition addPackageProperty :: "string \<Rightarrow> string \<Rightarrow> string \<Rightarrow> string \<Rightarrow> database \<Rightarrow> load_error + database" where
  "addPackageProperty bundleName pkg version bundlePath db =
     addProperty PackageType (raw_bytes (p_Value (package_property pkg version))) bundleName version bundlePath db"

text \<open>The check of a property of the annotations by its type.\<close>

definition known_type_ok :: "Property \<Rightarrow> bool" where
  "known_type_ok p \<longleftrightarrow>
     (if p_Type p = LabelType then unmarshal dec_LabelDependency (p_Value p) \<noteq> None
      else if p_Type p = PackageType then unmarshal dec_PackageDependency (p_Value p) \<noteq> None
      else if p_Type p = GVKType then unmarshal dec_GVKDependency (p_Value p) \<noteq> None
      else True)"

definition annotation_property :: "Property \<Rightarrow> load_error + string \<times> string" where
  "annotation_property p =
     bindr (raw_marshal (p_Value p)) (\<lambda>value. if known_type_ok p then Inr (p_Type p, value) else Inl JsonFailed)"

definition annotation_properties :: "ClusterServiceVersion \<Rightarrow> load_error + (string \<times> string) list" where
  "annotation_properties csv =
     (case gm_get (csv_Annotations csv) PropertyKey of
        None \<Rightarrow> Inr []
      | Some v \<Rightarrow> bindr (of_option JsonFailed (decode_properties v [])) (mapM annotation_property))"

text \<open>The rows for the properties found so far, those of the annotations and the mark of a deprecated bundle.\<close>

definition write_properties :: "string \<Rightarrow> (string \<times> string) list \<Rightarrow> Bundle \<Rightarrow> database \<Rightarrow> load_error + Bundle \<times> database" where
  "write_properties bundleVersion properties b db =
     (case Bundle_ClusterServiceVersion b of
        (Inl _, b1) \<Rightarrow> Inr (b1, db)
      | (Inr None, b1) \<Rightarrow> Inr (b1, db)
      | (Inr (Some csv), b1) \<Rightarrow>
          bindr (annotation_properties csv) (\<lambda>annotated.
          let all_properties = first_occurrences (properties @ annotated
                @ (if deprecated db (bn_Name b1) then [(DeprecatedType, ''{}'')] else []))
          in bindr (foldM (\<lambda>db p. addProperty (fst p) (snd p) (bn_Name b1) bundleVersion (bn_BundleImage b1) db) db all_properties) (\<lambda>db1.
             Inr (b1, db1))))"

definition addBundleProperties :: "Bundle \<Rightarrow> database \<Rightarrow> load_error + Bundle \<times> database" where
  "addBundleProperties b db =
     bindr (run_op Bundle_Version b) (\<lambda>(bundleVersion, b1).
     bindr (mapM (\<lambda>p. bindr (raw_marshal (p_Value p)) (\<lambda>v. Inr (p_Type p, v))) (bn_Properties b1)) (\<lambda>declared.
     bindr (run_op ProvidedAPIs b1) (\<lambda>(providedApis, b2).
     write_properties bundleVersion (declared @ map (\<lambda>api. (GVKType, gvk_text api)) providedApis) b2 db)))"

definition api_of :: "APIKey \<Rightarrow> api_row" where
  "api_of k = \<lparr>api_group_name = ak_Group k, api_version = ak_Version k, api_kind = ak_Kind k, api_plural = ak_Plural k\<rparr>"

definition api_ref_of :: "string \<Rightarrow> string \<Rightarrow> string \<Rightarrow> APIKey \<Rightarrow> api_ref" where
  "api_ref_of name version path k =
     \<lparr>ar_group_name = ak_Group k, ar_version = ak_Version k, ar_kind = ak_Kind k, ar_operatorbundle_name = name,
      ar_operatorbundle_version = sqlString version, ar_operatorbundle_path = sqlString path\<rparr>"

definition addAPIProvider :: "(APIKey \<Rightarrow> api_ref) \<Rightarrow> database \<Rightarrow> APIKey \<Rightarrow> load_error + database" where
  "addAPIProvider row db k = lift_sql Sql (insert_api_provider (row k) (insert_or_ignore_api (api_of k) db))"

definition addAPIRequirer :: "(APIKey \<Rightarrow> api_ref) \<Rightarrow> database \<Rightarrow> APIKey \<Rightarrow> load_error + database" where
  "addAPIRequirer row db k = lift_sql Sql (insert_api_requirer (row k) (insert_or_ignore_api (api_of k) db))"

definition addAPIs :: "Bundle \<Rightarrow> database \<Rightarrow> load_error + Bundle \<times> database" where
  "addAPIs b db =
     (if bn_Name b = [] then Inl NoBundleName
      else bindr (run_op ProvidedAPIs b) (\<lambda>(providedApis, b1).
           bindr (run_op RequiredAPIs b1) (\<lambda>(requiredApis, b2).
           bindr (run_op Bundle_Version b2) (\<lambda>(bundleVersion, b3).
           let row = api_ref_of (bn_Name b3) bundleVersion (bn_BundleImage b3)
           in bindr (foldM (addAPIProvider row) db providedApis) (\<lambda>db1.
              bindr (foldM (addAPIRequirer row) db1 requiredApis) (\<lambda>db2.
              Inr (b3, db2)))))))"

section \<open>Substitutions\<close>

definition set_substitutesfor :: "string \<Rightarrow> string \<Rightarrow> database \<Rightarrow> database" where
  "set_substitutesfor s name = update_operatorbundle (\<lambda>b. ob_name b = name) (\<lambda>b. b\<lparr>ob_substitutesfor := Some s\<rparr>)"

definition appendSkips :: "string list \<Rightarrow> string \<Rightarrow> database \<Rightarrow> load_error + database" where
  "appendSkips skips csvName db =
     bindr (getBundleSkipsReplacesVersion db csvName) (\<lambda>(_, currentSkips, _).
     let all_skips = currentSkips @ filter (\<lambda>skip. skip \<notin> set currentSkips) skips
     in Inr (update_operatorbundle (\<lambda>b. ob_name b = csvName) (\<lambda>b. b\<lparr>ob_skips := Some (strings_Join '','' all_skips)\<rparr>) db))"

text \<open>The loop over the other bundles that substitute for the same bundle.\<close>

partial_function (option) other_substitutions ::
  "string \<Rightarrow> string \<Rightarrow> string list \<Rightarrow> string list \<Rightarrow> database \<Rightarrow> (load_error + database) option" where
  "other_substitutions csvName version skips otherSubstitutions db =
     (case otherSubstitutions of
        [] \<Rightarrow> Some (Inr db)
      | other # rest \<Rightarrow>
          if other = csvName then other_substitutions csvName version skips rest db
          else (case getBundleSkipsReplacesVersion db other of
            Inl e \<Rightarrow> Some (Inl e)
          | Inr (_, _, rawVersion) \<Rightarrow>
              (case bindr (Version_Parse rawVersion) (\<lambda>v. bindr (Version_Parse version) (BuildIdCompare v)) of
                 Inl e \<Rightarrow> Some (Inl (OfSemver e))
               | Inr c \<Rightarrow>
                   if c < 0 then
                     (let db1 = set_substitutesfor other csvName db
                      in other_substitutions csvName version skips (rest @ getBundlesThatSubstitutesFor db1 other) db1)
                   else if c > 0 then
                     (case appendSkips (skips @ [csvName]) other (set_substitutesfor csvName other db) of
                        Inl e \<Rightarrow> Some (Inl e)
                      | Inr db1 \<Rightarrow>
                          if length (getBundlesThatSubstitutesFor db1 csvName) > 1 then Some (Inl (ManySubstitutions csvName))
                          else other_substitutions csvName version skips rest db1)
                   else Some (Inl DuplicateVersions))))"

text \<open>The loop that adds what the bundle substitutes for, directly or not, to its skips.\<close>

partial_function (option) follow_substitutions :: "database \<Rightarrow> string list \<Rightarrow> string \<Rightarrow> string list option" where
  "follow_substitutions db skips substitutesFor =
     (if substitutesFor = [] then Some skips
      else follow_substitutions db (skips @ [substitutesFor]) (getBundleSubstitution db substitutesFor))"

text \<open>The loop that passes the skips on to the substitutions of the bundle; \<open>False\<close> where it returns early.\<close>

partial_function (option) push_skips ::
  "string list \<Rightarrow> string list \<Rightarrow> database \<Rightarrow> (load_error + bool \<times> database) option" where
  "push_skips skips substitutesFors db =
     (case substitutesFors of
        [] \<Rightarrow> Some (Inr (True, db))
      | s # _ \<Rightarrow>
          (case appendSkips skips s db of
             Inl e \<Rightarrow> Some (Inl e)
           | Inr db1 \<Rightarrow>
               let next = getBundlesThatSubstitutesFor db1 s
               in if length next > 1 then Some (Inr (False, db1)) else push_skips skips next db1))"

text \<open>The loop over the substitutions of a skipped bundle; \<open>Some None\<close> where the operation returns early.\<close>

partial_function (option) skip_substitutions ::
  "database \<Rightarrow> string \<Rightarrow> string list \<Rightarrow> string list \<Rightarrow> string list option option" where
  "skip_substitutions db csvName substitutesFors acc =
     (case substitutesFors of
        [] \<Rightarrow> Some (Some acc)
      | s # rest \<Rightarrow>
          if s = csvName then skip_substitutions db csvName rest acc
          else let next = getBundlesThatSubstitutesFor db s
               in if length next > 1 then Some None else skip_substitutions db csvName next (List.insert s acc))"

fun collect_skips :: "database \<Rightarrow> string \<Rightarrow> string list \<Rightarrow> string list \<Rightarrow> string list option option" where
  "collect_skips db csvName [] acc = Some (Some acc)"
| "collect_skips db csvName (skip # skips) acc =
     (let next = getBundlesThatSubstitutesFor db skip
      in if length next > 1 then Some None
         else case skip_substitutions db csvName next (List.insert skip acc) of
                None \<Rightarrow> None
              | Some None \<Rightarrow> Some None
              | Some (Some acc1) \<Rightarrow> collect_skips db csvName skips acc1)"

text \<open>The loop to the latest substitution of the replaced bundle.\<close>

partial_function (option) latest_substitution :: "database \<Rightarrow> string \<Rightarrow> string list \<Rightarrow> string option option" where
  "latest_substitution db replaces substitutesFors =
     (case substitutesFors of
        [] \<Rightarrow> Some (Some replaces)
      | s # _ \<Rightarrow>
          let next = getBundlesThatSubstitutesFor db s
          in if length next > 1 then Some None else latest_substitution db s next)"

definition obind :: "('e + 'a) option \<Rightarrow> ('a \<Rightarrow> ('e + 'b) option) \<Rightarrow> ('e + 'b) option" where
  "obind r f = (case r of None \<Rightarrow> None | Some (Inl e) \<Rightarrow> Some (Inl e) | Some (Inr x) \<Rightarrow> f x)"

text \<open>The last part: the columns of the bundle, unless a loop returned early.\<close>

definition set_replaces_skips :: "string \<Rightarrow> string \<Rightarrow> string list \<Rightarrow> database \<Rightarrow> (load_error + database) option" where
  "set_replaces_skips csvName replaces skips db =
     (case collect_skips db csvName skips [] of
        None \<Rightarrow> None
      | Some None \<Rightarrow> Some (Inr db)
      | Some (Some skips1) \<Rightarrow>
          (case (if replaces = [] then Some (Some []) else latest_substitution db replaces (getBundlesThatSubstitutesFor db replaces)) of
             None \<Rightarrow> None
           | Some None \<Rightarrow> Some (Inr db)
           | Some (Some replaces1) \<Rightarrow>
               Some (Inr (update_operatorbundle (\<lambda>r. ob_name r = csvName)
                 (\<lambda>r. r\<lparr>ob_replaces := Some replaces1, ob_skips := Some (strings_Join '','' skips1)\<rparr>) db))))"

definition pass_skips :: "string \<Rightarrow> string \<Rightarrow> string list \<Rightarrow> database \<Rightarrow> (load_error + database) option" where
  "pass_skips csvName replaces skips db =
     (if length (getBundlesThatSubstitutesFor db csvName) > 1 then Some (Inr db)
      else obind (push_skips (skips @ [csvName]) (getBundlesThatSubstitutesFor db csvName) db) (\<lambda>(done, db1).
           if \<not> done then Some (Inr db1) else set_replaces_skips csvName replaces skips db1))"

definition compare_substitutions :: "string \<Rightarrow> string \<Rightarrow> string list \<Rightarrow> string \<Rightarrow> database \<Rightarrow> (load_error + database) option" where
  "compare_substitutions csvName version skips substitutesFor db =
     (if substitutesFor = [] then Some (Inr db)
      else let db1 = update_operatorbundle (\<lambda>r. ob_replaces r = Some substitutesFor) (\<lambda>r. r\<lparr>ob_replaces := Some csvName\<rparr>) db
           in other_substitutions csvName version skips (getBundlesThatSubstitutesFor db1 substitutesFor) db1)"

text \<open>The whole update for a bundle whose columns have been read.\<close>

definition link_substitution ::
  "string \<Rightarrow> string \<Rightarrow> string list \<Rightarrow> string \<Rightarrow> string \<Rightarrow> database \<Rightarrow> (load_error + database) option" where
  "link_substitution csvName replaces skips version substitutesFor db =
     obind (compare_substitutions csvName version skips substitutesFor db) (\<lambda>db1.
     obind (map_option Inr (follow_substitutions db1 skips (getBundleSubstitution db1 csvName))) (\<lambda>skips1.
     pass_skips csvName replaces skips1 db1))"

definition addSubstitutesFor :: "Bundle \<Rightarrow> database \<Rightarrow> (load_error + Bundle \<times> database) option" where
  "addSubstitutesFor b db =
     obind (Some (run_op Bundle_Replaces b)) (\<lambda>(replaces, b1).
     obind (Some (run_op Bundle_Skips b1)) (\<lambda>(skips, b2).
     obind (Some (run_op Bundle_Version b2)) (\<lambda>(version, b3).
     obind (Some (run_op Bundle_SubstitutesFor b3)) (\<lambda>(substitutesFor, b4).
     obind (link_substitution (bn_Name b) replaces skips version substitutesFor db) (\<lambda>db1. Some (Inr (b4, db1)))))))"

section \<open>Adding a bundle\<close>

text \<open>The columns of the row of a bundle.\<close>

definition operatorbundle_of :: "Bundle \<Rightarrow> load_error + operatorbundle \<times> Bundle" where
  "operatorbundle_of b =
     bindr (map_sum OfBundle (\<lambda>x. x) (Serialize b)) (\<lambda>(csvName, bundleImage, csvBytes, bundleBytes).
     if csvName = [] then Inl CsvNameNotFound
     else bindr (run_op Bundle_Version b) (\<lambda>(version, b1).
          bindr (run_op Bundle_SkipRange b1) (\<lambda>(skiprange, b2).
          bindr (run_op Bundle_Replaces b2) (\<lambda>(replaces, b3).
          bindr (run_op Bundle_Skips b3) (\<lambda>(skips, b4).
          bindr (run_op Bundle_SubstitutesFor b4) (\<lambda>(substitutesFor, b5).
          Inr (\<lparr>ob_name = csvName, ob_csv = csvBytes, ob_bundle = Some bundleBytes, ob_bundlepath = Some bundleImage,
                ob_version = Some version, ob_skiprange = Some skiprange, ob_replaces = Some replaces,
                ob_skips = Some (strings_Join '','' skips), ob_substitutesfor = Some substitutesFor\<rparr>, b5)))))))"

definition addImage :: "string \<Rightarrow> database \<Rightarrow> string \<Rightarrow> load_error + database" where
  "addImage csvName db img = lift_sql (AddImagesFailed img csvName) (insert_related_image img csvName db)"

text \<open>The part of \<open>addOperatorBundle\<close> before the substitutions.\<close>

definition add_bundle_rows ::
  "bool \<Rightarrow> (deployment \<Rightarrow> json \<Rightarrow> deployment option) \<Rightarrow> Bundle \<Rightarrow> database \<Rightarrow> load_error + Bundle \<times> database" where
  "add_bundle_rows enableAlpha dec_spec b db =
     bindr (operatorbundle_of b) (\<lambda>(row, b1).
     if null_string (ob_substitutesfor row) \<noteq> [] \<and> \<not> enableAlpha then Inl AlphaOnly
     else bindr (lift_sql (AddBundleFailed (ob_name row)) (insert_operatorbundle row db)) (\<lambda>db1.
          bindr (run_op (Bundle_Images dec_spec) b1) (\<lambda>(imgs, b2).
          bindr (foldM (addImage (ob_name row)) db1 imgs) (\<lambda>db2.
          bindr (addDependencies b2 db2) (\<lambda>(b3, db3).
          addBundleProperties b3 db3)))))"

definition addOperatorBundle ::
  "bool \<Rightarrow> (deployment \<Rightarrow> json \<Rightarrow> deployment option) \<Rightarrow> Bundle \<Rightarrow> database \<Rightarrow> (load_error + Bundle \<times> database) option" where
  "addOperatorBundle enableAlpha dec_spec b db =
     obind (Some (add_bundle_rows enableAlpha dec_spec b db)) (\<lambda>(b4, db4).
     obind (if enableAlpha then addSubstitutesFor b4 db4 else Some (Inr (b4, db4))) (\<lambda>(b5, db5).
     Some (addAPIs b5 db5)))"

definition transaction_opt ::
  "(database \<Rightarrow> (load_error + database) option) \<Rightarrow> database \<Rightarrow> (load_error option \<times> database) option" where
  "transaction_opt body db = map_option (\<lambda>r. transaction (\<lambda>_. r) db) (body db)"

definition AddOperatorBundle ::
  "bool \<Rightarrow> (deployment \<Rightarrow> json \<Rightarrow> deployment option) \<Rightarrow> Bundle \<Rightarrow> database \<Rightarrow> (load_error option \<times> database) option" where
  "AddOperatorBundle enableAlpha dec_spec b =
     transaction_opt (\<lambda>db. map_option (map_sum (\<lambda>e. e) snd) (addOperatorBundle enableAlpha dec_spec b db))"

section \<open>Removing\<close>

definition rmPackage :: "string \<Rightarrow> database \<Rightarrow> database" where
  "rmPackage pkg db =
     delete_channel_entry (\<lambda>e. en_package_name e = pkg)
       (delete_channel (\<lambda>c. ch_package_name c = pkg) (delete_package (\<lambda>p. pk_name p = pkg) db))"

definition rmBundle :: "string \<Rightarrow> database \<Rightarrow> database" where
  "rmBundle csvName db =
     delete_channel_entry (\<lambda>e. en_operatorbundle_name e = csvName)
       (delete_api_requirer (\<lambda>r. ar_operatorbundle_name r = csvName)
         (delete_api_provider (\<lambda>r. ar_operatorbundle_name r = csvName)
           (delete_operatorbundle (\<lambda>b. ob_name b = csvName) db)))"

definition rmStrandedBundles :: "database \<Rightarrow> database" where
  "rmStrandedBundles db = delete_operatorbundle (\<lambda>b. ob_name b \<notin> en_operatorbundle_name ` set (t_channel_entry db)) db"

definition RemoveStrandedBundles :: "database \<Rightarrow> load_error option \<times> database" where
  "RemoveStrandedBundles = transaction (\<lambda>db. Inr (rmStrandedBundles db))"

definition RemovePackage :: "string \<Rightarrow> database \<Rightarrow> load_error option \<times> database" where
  "RemovePackage packageName db =
     (case transaction (\<lambda>db. Inr (delete_channel (\<lambda>c. ch_package_name c = packageName)
              (delete_package (\<lambda>p. pk_name p = packageName) (fold rmBundle (getCSVNames db packageName) db)))) db of
        (Some e, db1) \<Rightarrow> (Some e, db1)
      | (None, db1) \<Rightarrow> RemoveStrandedBundles db1)"

definition ClearNonHeadBundles :: "database \<Rightarrow> load_error option \<times> database" where
  "ClearNonHeadBundles =
     transaction (\<lambda>db. Inr (update_operatorbundle
       (\<lambda>b. null_string (ob_bundlepath b) \<noteq> [] \<and> ob_name b \<notin> ch_head_operatorbundle_name ` set (t_channel db))
       (\<lambda>b. b\<lparr>ob_bundle := None, ob_csv := None\<rparr>) db))"

definition rmChannelEntry :: "string \<Rightarrow> database \<Rightarrow> database" where
  "rmChannelEntry csvName db =
     (let entryIDs = map en_entry_id (filter (\<lambda>e. en_operatorbundle_name e = csvName) (t_channel_entry db))
      in delete_channel (\<lambda>c. ch_head_operatorbundle_name c = csvName)
           (fold (\<lambda>i. update_channel_entry (\<lambda>e. en_replaces e = Some i) None) entryIDs db))"

section \<open>Deprecating\<close>

text \<open>A channel has the bundle as head and the name of the default channel of some package.\<close>

definition isDefaultChannelHead :: "database \<Rightarrow> string \<Rightarrow> bool" where
  "isDefaultChannelHead db b \<longleftrightarrow>
     list_ex (\<lambda>c. ch_head_operatorbundle_name c = b \<and> list_ex (\<lambda>p. pk_default_channel p = Some (ch_name c)) (t_package db)) (t_channel db)"

definition tail_links :: "database \<Rightarrow> string \<Rightarrow> string list" where
  "tail_links db b =
     (case bundle_row db b of
        None \<Rightarrow> []
      | Some r \<Rightarrow>
          (if null_string (ob_skips r) \<noteq> [] then strings_Split CHR '','' (null_string (ob_skips r)) else [])
          @ (if null_string (ob_replaces r) \<noteq> [] then [null_string (ob_replaces r)] else []))"

definition visit_link :: "string \<Rightarrow> string list \<times> string list \<Rightarrow> string list \<times> string list" where
  "visit_link r s = (let (next, visited) = s in if r \<in> set visited then (next, visited) else (next @ [r], visited @ [r]))"

text \<open>All names that the rows link to; the loop can visit no other.\<close>

definition link_names :: "database \<Rightarrow> string set" where
  "link_names db = (\<Union>r \<in> set (t_operatorbundle db). set (tail_links db (ob_name r)))"

lemma tail_links_names: "set (tail_links db b) \<subseteq> link_names db"
proof (cases "bundle_row db b")
  case (Some r)
  then have "r \<in> set (t_operatorbundle db)" "ob_name r = b" by (auto simp: bundle_row_def find_Some_iff)
  then show ?thesis by (auto simp: link_names_def)
qed (simp add: tail_links_def)

lemma visit_link_eq: "visit_link r (next, visited) = (if r \<in> set visited then (next, visited) else (next @ [r], visited @ [r]))"
  by (simp add: visit_link_def)

lemma visit_links:
  assumes "fold visit_link rs (next, visited) = (next', visited')"
  shows "\<exists>new. next' = next @ new \<and> visited' = visited @ new \<and> set new = set rs - set visited \<and> distinct new"
  using assms
proof (induction rs arbitrary: "next" visited)
  case (Cons r rs)
  show ?case
  proof (cases "r \<in> set visited")
    case True
    with Cons show ?thesis by (force simp: visit_link_eq)
  next
    case False
    with Cons.prems have "fold visit_link rs (next @ [r], visited @ [r]) = (next', visited')" by (simp add: visit_link_eq)
    from Cons.IH [OF this] obtain new where "next' = (next @ [r]) @ new" "visited' = (visited @ [r]) @ new"
        "set new = set rs - set (visited @ [r])" "distinct new" by blast
    with False show ?thesis by (intro exI [of _ "r # new"]) auto
  qed
qed simp

function tail_loop :: "database \<Rightarrow> string list \<Rightarrow> string list \<Rightarrow> load_error + string list" where
  "tail_loop db [] visited = Inr visited"
| "tail_loop db (b # next) visited =
     (if isDefaultChannelHead db b then Inl RemovingDefaultChannel
      else case fold visit_link (tail_links db b) (next, visited) of (next', visited') \<Rightarrow> tail_loop db next' visited')"
  by pat_completeness auto

termination
proof (relation "measure (\<lambda>(db, next, visited). card (link_names db - set visited) + length next)")
  fix db b "next" visited next' visited'
  assume "\<not> isDefaultChannelHead db b" and "(next', visited') = fold visit_link (tail_links db b) (next, visited)"
  then obtain new where new: "next' = next @ new" "visited' = visited @ new" "set new = set (tail_links db b) - set visited" "distinct new"
    using visit_links [of "tail_links db b" "next" visited next' visited'] by metis
  have fin: "finite (link_names db)" by (simp add: link_names_def)
  have sub: "set new \<subseteq> link_names db - set visited" using new(3) tail_links_names [of db b] by blast
  have "link_names db - set visited' = (link_names db - set visited) - set new" using new(2) by auto
  then have "card (link_names db - set visited') = card (link_names db - set visited) - length new"
    using sub fin new(4) by (simp add: card_Diff_subset distinct_card)
  moreover have "length new \<le> card (link_names db - set visited)"
    using card_mono [OF _ sub] fin new(4) by (simp add: distinct_card)
  ultimately show "((db, next', visited'), (db, b # next, visited)) \<in> measure (\<lambda>(db, next, visited). card (link_names db - set visited) + length next)"
    using new(1) by simp
qed simp

definition getTailFromBundle :: "database \<Rightarrow> string \<Rightarrow> load_error + string list" where
  "getTailFromBundle db head = tail_loop db [head] []"

definition deprecate_bundle :: "string \<Rightarrow> database \<Rightarrow> load_error + database" where
  "deprecate_bundle path db =
     bindr (getBundleNameAndVersionForImage db path) (\<lambda>(name, version).
     bindr (getTailFromBundle db name) (\<lambda>tailBundles.
     let db1 = fold (\<lambda>b db. rmBundle b (rmChannelEntry b db)) tailBundles db;
         db2 = delete_channel (\<lambda>c. ch_head_operatorbundle_name c = name) db1
     in bindr (addProperty DeprecatedType ''{}'' name version path db2) (\<lambda>db3.
        Inr (insert_or_replace_deprecated name db3))))"

definition DeprecateBundle :: "string \<Rightarrow> database \<Rightarrow> load_error option \<times> database" where
  "DeprecateBundle path = transaction (deprecate_bundle path)"

section \<open>Channels of a package from its manifest\<close>

text \<open>A channel of the manifest: skipped when its head is deprecated, otherwise inserted, with the errors so far.\<close>

definition add_manifest_channel ::
  "PackageManifest \<Rightarrow> PackageChannel \<Rightarrow> load_error list \<times> PackageChannel list \<times> bool \<times> database
     \<Rightarrow> load_error list \<times> PackageChannel list \<times> bool \<times> database" where
  "add_manifest_channel manifest c s =
     (let (errs, channels, hasDefault, db) = s; pkg = pm_PackageName manifest
      in if deprecated db (pc_CurrentCSVName c) then s
         else case insert_channel \<lparr>ch_name = pc_Name c, ch_package_name = pkg, ch_head_operatorbundle_name = pc_CurrentCSVName c\<rparr> db of
                Inl e \<Rightarrow> (errs @ [AddChannelFailed (pc_Name c) pkg e], channels, hasDefault, db)
              | Inr db1 \<Rightarrow>
                  if IsDefaultChannel c manifest then
                    (case update_default_channel (pc_Name c) pkg db1 of
                       Inl e \<Rightarrow> (errs @ [AddDefaultFailed (pc_Name c) pkg e], channels, True, db1)
                     | Inr db2 \<Rightarrow> (errs, channels @ [c], True, db2))
                  else (errs, channels @ [c], hasDefault, db1))"

text \<open>The entries for a skipped bundle: one for it, one for the bundle that skips it.\<close>

definition add_skip_entry ::
  "string \<Rightarrow> string \<Rightarrow> string \<Rightarrow> string \<Rightarrow> nat \<times> load_error list \<times> database \<Rightarrow> nat \<times> load_error list \<times> database" where
  "add_skip_entry channel pkg current skip s =
     (let (depth, errs, db) = s
      in case insert_channel_entry channel pkg skip depth db of
           Inl e \<Rightarrow> (depth, errs @ [AddChannelFailed channel pkg e], db)
         | Inr (skippedID, db1) \<Rightarrow>
             (case insert_channel_entry channel pkg current depth db1 of
                Inl e \<Rightarrow> (depth, errs @ [AddChannelFailed channel pkg e], db1)
              | Inr (synthesizedID, db2) \<Rightarrow> (Suc depth, errs, addReplaces skippedID synthesizedID db2)))"

lemma add_skip_entries_bundles:
  "fold (add_skip_entry channel pkg current) skips (depth, errs, db) = (depth', errs', db') \<Longrightarrow> t_operatorbundle db' = t_operatorbundle db"
proof (induction skips arbitrary: depth errs db)
  case (Cons skip skips)
  obtain d e db1 where step: "add_skip_entry channel pkg current skip (depth, errs, db) = (d, e, db1)" by (metis prod_cases3)
  then have "t_operatorbundle db1 = t_operatorbundle db"
    by (auto simp: add_skip_entry_def insert_channel_entry_def addReplaces_def update_channel_entry_def Let_def split: sum.splits if_splits)
  with Cons step show ?case by simp
qed simp

lemma getBundleSkipsReplacesVersion_ok:
  "\<not> isl (getBundleSkipsReplacesVersion db n) \<longleftrightarrow> n \<in> ob_name ` set (t_operatorbundle db)"
  by (auto simp: getBundleSkipsReplacesVersion_def bundle_row_def find_None_iff find_Some_iff split: option.splits)

lemma addPackageProperty_bundles: "addPackageProperty n pkg v p db = Inr db' \<Longrightarrow> t_operatorbundle db' = t_operatorbundle db"
  by (auto simp: addPackageProperty_def addProperty_def lift_sql_def insert_properties_def split: if_splits)

lemma insert_channel_entry_bundles: "insert_channel_entry c p n d db = Inr (i, db') \<Longrightarrow> t_operatorbundle db' = t_operatorbundle db"
  by (auto simp: insert_channel_entry_def Let_def split: if_splits)

lemma addReplaces_bundles: "t_operatorbundle (addReplaces r i db) = t_operatorbundle db"
  by (simp add: addReplaces_def update_channel_entry_def)

lemma walk_decreases:
  assumes "addPackageProperty current pkg version path db = Inr db1"
    and "fold (add_skip_entry channel pkg current) skips (depth, errs, db1) = (depth', errs', db2)"
    and "insert_channel_entry channel pkg replaces depth' db2 = Inr (i, db3)"
    and "replaces \<notin> set cycle" and "\<not> isl (getBundleSkipsReplacesVersion (addReplaces i j db3) replaces)"
  shows "card (ob_name ` set (t_operatorbundle (addReplaces i j db3)) - insert replaces (set cycle))
    < card (ob_name ` set (t_operatorbundle db) - set cycle)"
proof -
  let ?N = "ob_name ` set (t_operatorbundle db)"
  have eq: "t_operatorbundle (addReplaces i j db3) = t_operatorbundle db"
    using addPackageProperty_bundles [OF assms(1)] add_skip_entries_bundles [OF assms(2)] insert_channel_entry_bundles [OF assms(3)]
    by (simp add: addReplaces_bundles)
  with assms(4,5) have "replaces \<in> ?N - set cycle" by (simp add: getBundleSkipsReplacesVersion_ok)
  then have "card (?N - set cycle - {replaces}) < card (?N - set cycle)" by (intro card_Diff1_less) simp_all
  moreover have "?N - set cycle - {replaces} = ?N - insert replaces (set cycle)" by blast
  ultimately show ?thesis by (simp only: eq)
qed

text \<open>
  The loop down the replaces of a channel. \<open>replaceCycle\<close> are the bundles seen; the loop goes on only to a bundle of the
  table that it has not seen.
\<close>

function walk_replaces ::
  "string \<Rightarrow> PackageChannel \<Rightarrow> string \<Rightarrow> nat \<Rightarrow> nat \<Rightarrow> string list \<Rightarrow> load_error list \<times> database \<Rightarrow> load_error list \<times> database" where
  "walk_replaces pkg c channelEntryCSVName currentID depth replaceCycle (errs, db) =
     (case getBundleSkipsReplacesVersion db channelEntryCSVName of
        Inl e \<Rightarrow> (errs @ [e], db)
      | Inr (replaces, skips, version) \<Rightarrow>
          (case addPackageProperty channelEntryCSVName pkg version (getBundlePathIfExists db channelEntryCSVName) db of
             Inl e \<Rightarrow> (errs @ [e], db)
           | Inr db1 \<Rightarrow>
               (case fold (add_skip_entry (pc_Name c) pkg channelEntryCSVName) skips (depth, errs, db1) of
                  (depth', errs', db2) \<Rightarrow>
                    if replaces = [] then (errs', db2)
                    else (case insert_channel_entry (pc_Name c) pkg replaces depth' db2 of
                            Inl e \<Rightarrow> (errs' @ [AddChannelFailed (pc_Name c) pkg e], db2)
                          | Inr (replacedID, db3) \<Rightarrow>
                              if replaces \<in> set replaceCycle then (errs' @ [CycleDetected channelEntryCSVName replaces], db3)
                              else if deprecated db3 channelEntryCSVName then (errs', addReplaces replacedID currentID db3)
                              else if isl (getBundleSkipsReplacesVersion (addReplaces replacedID currentID db3) replaces)
                              then (errs' @ [ReplacesNonexistent (pc_CurrentCSVName c) replaces], addReplaces replacedID currentID db3)
                              else walk_replaces pkg c replaces replacedID (Suc depth') (replaces # replaceCycle)
                                     (errs', addReplaces replacedID currentID db3)))))"
  by pat_completeness auto

termination
proof (relation "measure (\<lambda>(_, _, _, _, _, cycle, _, db). card (ob_name ` set (t_operatorbundle db) - set cycle))", goal_cases)
  case 2
  from walk_decreases [OF 2(4) 2(5) [folded 2(6), symmetric] 2(8) [folded 2(9)] 2(10) 2(12)]
  show ?case by (simp only: in_measure case_prod_conv list.set)
qed simp

definition add_channel_chain :: "string \<Rightarrow> PackageChannel \<Rightarrow> load_error list \<times> database \<Rightarrow> load_error list \<times> database" where
  "add_channel_chain pkg c s =
     (case insert_channel_entry (pc_Name c) pkg (pc_CurrentCSVName c) 0 (snd s) of
        Inl e \<Rightarrow> (fst s @ [AddChannelFailed (pc_Name c) pkg e], snd s)
      | Inr (currentID, db) \<Rightarrow> walk_replaces pkg c (pc_CurrentCSVName c) currentID 1 [pc_CurrentCSVName c] (fst s, db))"

definition addPackageChannels :: "PackageManifest \<Rightarrow> database \<Rightarrow> load_error + database" where
  "addPackageChannels manifest db =
     bindr (lift_sql (AddPackageFailed (pm_PackageName manifest)) (insert_package (pm_PackageName manifest) db)) (\<lambda>db1.
     case fold (add_manifest_channel manifest) (pm_Channels manifest) ([], [], False, db1) of
       (errs, channels, hasDefault, db2) \<Rightarrow>
         (case fold (add_channel_chain (pm_PackageName manifest)) channels
                 (if hasDefault then errs else errs @ [NoDefaultChannel (pm_PackageName manifest)], db2) of
            (errs', db3) \<Rightarrow> (case NewAggregate errs' of Some e \<Rightarrow> Inl e | None \<Rightarrow> Inr db3)))"

definition AddPackageChannels :: "PackageManifest \<Rightarrow> database \<Rightarrow> load_error option \<times> database" where
  "AddPackageChannels manifest =
     transaction (\<lambda>db. addPackageChannels manifest (rmPackage (pm_PackageName manifest) db))"

definition AddBundlePackageChannels ::
  "bool \<Rightarrow> (deployment \<Rightarrow> json \<Rightarrow> deployment option) \<Rightarrow> PackageManifest \<Rightarrow> Bundle \<Rightarrow> database \<Rightarrow> (load_error option \<times> database) option" where
  "AddBundlePackageChannels enableAlpha dec_spec manifest b =
     transaction_opt (\<lambda>db. obind (addOperatorBundle enableAlpha dec_spec b db) (\<lambda>(_, db1).
       Some (addPackageChannels manifest (rmPackage (pm_PackageName manifest) db1))))"

section \<open>Channels of a package from its graph\<close>

text \<open>The entries for a replaced bundle that is not a node; the first error ends the loop over them.\<close>

fun add_synthetic ::
  "string \<Rightarrow> string \<Rightarrow> string \<Rightarrow> nat \<Rightarrow> BundleKey list \<Rightarrow> load_error list \<times> database \<Rightarrow> load_error list \<times> database" where
  "add_synthetic channelName pkg current syntheticDepth [] (errs, db) = (errs, db)"
| "add_synthetic channelName pkg current syntheticDepth (synthetic # rest) (errs, db) =
     (case addChannelEntry channelName pkg (bk_CsvName synthetic) syntheticDepth db of
        Inl e \<Rightarrow> (errs @ [e], db)
      | Inr (syntheticReplacesID, db1) \<Rightarrow>
          (case addChannelEntry channelName pkg current syntheticDepth db1 of
             Inl e \<Rightarrow> (errs @ [e], db1)
           | Inr (syntheticNodeID, db2) \<Rightarrow>
               add_synthetic channelName pkg current (Suc syntheticDepth) rest (errs, addReplaces syntheticReplacesID syntheticNodeID db2)))"

partial_function (option) walk_graph ::
  "string \<Rightarrow> string \<Rightarrow> GraphChannel \<Rightarrow> BundleKey \<Rightarrow> nat \<Rightarrow> nat \<Rightarrow> load_error list \<Rightarrow> database \<Rightarrow> (load_error list \<times> database) option" where
  "walk_graph channelName pkg channel currentNode depth previousNodeID errs db =
     (case addChannelEntry channelName pkg (bk_CsvName currentNode) depth db of
        Inl e \<Rightarrow> Some (errs @ [e], db)
      | Inr (i, db1) \<Rightarrow>
          (let db2 = (if previousNodeID \<noteq> 0 then addReplaces i previousNodeID db1 else db1);
               currentNodeReplaces = (case gm_get (gc_Nodes channel) currentNode of None \<Rightarrow> [] | Some rs \<Rightarrow> rs);
               syntheticReplaces = filter (\<lambda>r. \<not> gm_has (gc_Nodes channel) r) currentNodeReplaces;
               nextNode = fold (\<lambda>r n. if gm_has (gc_Nodes channel) r then r else n) currentNodeReplaces empty_key
           in case add_synthetic channelName pkg (bk_CsvName currentNode) (Suc depth) syntheticReplaces (errs, db2) of
                (errs', db3) \<Rightarrow>
                  if BundleKey_IsEmpty nextNode
                  then Some (errs' @ (if length (gc_Nodes channel) \<noteq> depth then [InvalidGraph] else []), db3)
                  else walk_graph channelName pkg channel nextNode (Suc depth) i errs' db3))"

fun add_graph_channels ::
  "string \<Rightarrow> (string \<times> GraphChannel) list \<Rightarrow> load_error list \<times> database \<Rightarrow> (load_error list \<times> database) option" where
  "add_graph_channels pkg [] s = Some s"
| "add_graph_channels pkg ((channelName, channel) # chs) (errs, db) =
     Option.bind (walk_graph channelName pkg channel (gc_Head channel) 1 0 errs (truncChannelGraph channelName pkg db))
       (add_graph_channels pkg chs)"

definition add_graph_head :: "string \<Rightarrow> string \<times> GraphChannel \<Rightarrow> load_error list \<times> database \<Rightarrow> load_error list \<times> database" where
  "add_graph_head pkg c s =
     (case addOrUpdateChannel (fst c) pkg (bk_CsvName (gc_Head (snd c))) (snd s) of
        Inl e \<Rightarrow> (fst s @ [e], snd s)
      | Inr db \<Rightarrow> (fst s, db))"

definition AddPackageChannelsFromGraph :: "GraphPackage \<Rightarrow> database \<Rightarrow> (load_error option \<times> database) option" where
  "AddPackageChannelsFromGraph graph db =
     (let pkg = gp_Name graph;
          (errs1, db1) = fold (add_graph_head pkg) (gp_Channels graph) ([], addPackageIfNotExists pkg db);
          (errs2, db2) = (case updateDefaultChannel (gp_DefaultChannel graph) pkg db1 of
                            Inl e \<Rightarrow> (errs1 @ [e], db1) | Inr d \<Rightarrow> (errs1, d))
      in map_option (\<lambda>(errs, db3).
           case commit db3 of
             Inl e \<Rightarrow> (NewAggregate (errs @ [e]), db)
           | Inr db4 \<Rightarrow> (NewAggregate errs, db4)) (add_graph_channels pkg (gp_Channels graph) (errs2, db2)))"

definition AddBundleSemver ::
  "bool \<Rightarrow> (deployment \<Rightarrow> json \<Rightarrow> deployment option) \<Rightarrow> GraphPackage \<Rightarrow> Bundle \<Rightarrow> database \<Rightarrow> (load_error option \<times> database) option" where
  "AddBundleSemver enableAlpha dec_spec graph b db =
     (case AddOperatorBundle enableAlpha dec_spec b db of
        None \<Rightarrow> None
      | Some (Some e, db1) \<Rightarrow> Some (Some e, db1)
      | Some (None, db1) \<Rightarrow> AddPackageChannelsFromGraph graph db1)"

section \<open>Removing packages, deprecating bundles\<close>

definition sanitizePackageList :: "string list \<Rightarrow> string list" where
  "sanitizePackageList xs = fold (\<lambda>item out. if item \<in> set out \<or> item = [] then out else out @ [item]) xs []"

definition remove_package :: "string \<Rightarrow> (string \<times> load_error) list \<times> database \<Rightarrow> (string \<times> load_error) list \<times> database" where
  "remove_package pkg s =
     (case RemovePackage pkg (snd s) of
        (None, db) \<Rightarrow> (fst s, db)
      | (Some e, db) \<Rightarrow> (fst s @ [(pkg, e)], db))"

definition PackageRemover_Remove :: "string \<Rightarrow> database \<Rightarrow> (string \<times> load_error) list \<times> database" where
  "PackageRemover_Remove packages db = fold remove_package (sanitizePackageList (strings_Split CHR '','' packages)) ([], db)"

fun BundleDeprecator_Deprecate ::
  "string list \<Rightarrow> (string \<times> load_error) list \<Rightarrow> database \<Rightarrow> (string \<times> load_error) list \<times> database" where
  "BundleDeprecator_Deprecate [] errs db = (errs, db)"
| "BundleDeprecator_Deprecate (path # paths) errs db =
     (case DeprecateBundle path db of
        (None, db1) \<Rightarrow> BundleDeprecator_Deprecate paths errs db1
      | (Some e, db1) \<Rightarrow>
          if e = BundleImageNotInDatabase then BundleDeprecator_Deprecate paths errs db1
          else if e = RemovingDefaultChannel then BundleDeprecator_Deprecate paths (errs @ [(path, e)]) db1
          else (errs @ [(path, e)], db1))"

end
