(* ===== verification/Sqlite_Inv.thy ===== *)
theory Sqlite_Inv
  imports Sqlite_Load
begin

text \<open>
  Every operation of the loader, successful or not, leaves a database with unique keys in which every foreign key holds.
  The lemmas follow the calls of \<open>Sqlite_Load\<close>; they rest on the statements of \<open>Db_Inv\<close>.
\<close>

definition store_ok :: "database \<Rightarrow> bool" where
  "store_ok db \<longleftrightarrow> db_ok db \<and> entries_linked db \<and> refs_linked db"

section \<open>Adding a bundle\<close>

lemma lift_sql_Inr [simp]: "lift_sql f r = Inr x \<longleftrightarrow> r = Inr x"
  by (cases r) (auto simp: lift_sql_def)

lemma foldM_ok:
  assumes "foldM f db xs = Inr db'" and "db_ok db" and "\<And>db x db'. db_ok db \<Longrightarrow> f db x = Inr db' \<Longrightarrow> db_ok db'"
  shows "db_ok db'"
  using foldM_invariant [OF assms(1), of db_ok] assms(2,3) by blast

lemmas insert_ok = inserts_ok [rotated]

lemma addProperty_ok: "addProperty t v n ver p db = Inr db' \<Longrightarrow> db_ok db \<Longrightarrow> db_ok db'"
  by (auto simp: addProperty_def intro: insert_ok)

lemma addPackageProperty_ok: "addPackageProperty n pkg v p db = Inr db' \<Longrightarrow> db_ok db \<Longrightarrow> db_ok db'"
  by (auto simp: addPackageProperty_def intro: addProperty_ok)

lemma addDep_ok: "addDep b v db d = Inr db' \<Longrightarrow> db_ok db \<Longrightarrow> db_ok db'"
  by (auto simp: addDep_def intro: insert_ok)

lemma addDependencies_ok: "addDependencies b db = Inr (b', db') \<Longrightarrow> db_ok db \<Longrightarrow> db_ok db'"
  by (auto simp: addDependencies_def intro: addDep_ok elim!: foldM_ok)

lemma write_properties_ok: "write_properties v ps b db = Inr (b', db') \<Longrightarrow> db_ok db \<Longrightarrow> db_ok db'"
  by (cases "Bundle_ClusterServiceVersion b" rule: prod.exhaust)
    (auto simp: write_properties_def Let_def intro: addProperty_ok elim!: foldM_ok split: sum.splits option.splits)

lemma addBundleProperties_ok: "addBundleProperties b db = Inr (b', db') \<Longrightarrow> db_ok db \<Longrightarrow> db_ok db'"
  by (auto simp: addBundleProperties_def dest: write_properties_ok)

lemma addAPI_ok:
  "addAPIProvider row db k = Inr db' \<Longrightarrow> db_ok db \<Longrightarrow> db_ok db'" "addAPIRequirer row db k = Inr db' \<Longrightarrow> db_ok db \<Longrightarrow> db_ok db'"
  by (auto simp: addAPIProvider_def addAPIRequirer_def intro: insert_ok insert_or_ignore_api_ok)

lemma addAPIs_ok: "addAPIs b db = Inr (b', db') \<Longrightarrow> db_ok db \<Longrightarrow> db_ok db'"
  by (auto simp: addAPIs_def Let_def intro: addAPI_ok elim!: foldM_ok split: if_splits)

lemma addImage_ok: "addImage n db i = Inr db' \<Longrightarrow> db_ok db \<Longrightarrow> db_ok db'"
  by (auto simp: addImage_def intro: insert_ok)

lemma add_bundle_rows_ok: "add_bundle_rows a ds b db = Inr (b', db') \<Longrightarrow> db_ok db \<Longrightarrow> db_ok db'"
  by (auto simp: add_bundle_rows_def intro: addImage_ok insert_ok dest!: addDependencies_ok addBundleProperties_ok elim!: foldM_ok split: if_splits)

section \<open>Substitutions\<close>

lemma set_substitutesfor_ok: "db_ok db \<Longrightarrow> db_ok (set_substitutesfor s n db)"
  unfolding set_substitutesfor_def by (rule update_operatorbundle_ok) (simp_all add: same_key_def)

lemma appendSkips_ok: "appendSkips skips n db = Inr db' \<Longrightarrow> db_ok db \<Longrightarrow> db_ok db'"
  by (auto simp: appendSkips_def Let_def same_key_def intro!: update_operatorbundle_ok)

lemma other_substitutions_ok:
  assumes "other_substitutions csvName version skips others db = Some r" and "db_ok db" and "r = Inr db'"
  shows "db_ok db'"
  using assms
proof (induction arbitrary: db' rule: other_substitutions.raw_induct [rotated, consumes 1])
  case step: (1 rec csvName version skips others db r)
  show ?case
  proof (cases others)
    case (Cons other rest)
    show ?thesis
    proof (cases "other = csvName")
      case True
      with step Cons show ?thesis by simp
    next
      case False
      obtain replaces sk raw where row: "getBundleSkipsReplacesVersion db other = Inr (replaces, sk, raw)"
        using step(2-4) Cons False by (auto split: sum.splits)
      obtain c where c: "bindr (Version_Parse raw) (\<lambda>v. bindr (Version_Parse version) (BuildIdCompare v)) = Inr c"
        using step(2-4) Cons False row by (auto split: sum.split_asm)
      note body = step(2) [unfolded Cons list.case if_not_P [OF False] row sum.case prod.case c]
      consider "c < 0" | "c > 0" | "c = 0" by linarith
      then show ?thesis
      proof cases
        case 1
        with body have "rec csvName version skips (rest @ getBundlesThatSubstitutesFor (set_substitutesfor other csvName db) other)
            (set_substitutesfor other csvName db) = Some r" by (simp add: Let_def)
        from step(1) [OF this set_substitutesfor_ok] step(3,4) show ?thesis by blast
      next
        case 2
        with body step(3,4) obtain db1 where "appendSkips (skips @ [csvName]) other (set_substitutesfor csvName other db) = Inr db1"
            "rec csvName version skips rest db1 = Some r"
          by (auto split: sum.splits if_splits)
        with step(1) step(3,4) show ?thesis by (blast intro: appendSkips_ok set_substitutesfor_ok)
      qed (use body step(3,4) in simp)
    qed
  qed (use step in simp)
qed

lemma push_skips_ok:
  assumes "push_skips skips sfs db = Some r" and "db_ok db" and "r = Inr (go, db')"
  shows "db_ok db'"
  using assms
proof (induction arbitrary: go db' rule: push_skips.raw_induct [rotated, consumes 1])
  case (1 rec skips sfs db r)
  show ?case
  proof (cases sfs)
    case (Cons s rest)
    with 1 obtain db1 where "appendSkips skips s db = Inr db1" by (auto split: sum.splits)
    with 1 Cons show ?thesis by (auto simp: Let_def split: if_splits dest: appendSkips_ok)
  qed (use 1 in simp)
qed

lemma obind_Some: "obind r f = Some (Inr y) \<longleftrightarrow> (\<exists>x. r = Some (Inr x) \<and> f x = Some (Inr y))"
  by (auto simp: obind_def split: option.splits sum.splits)

lemma set_replaces_skips_ok: "set_replaces_skips n r sk db = Some (Inr db') \<Longrightarrow> db_ok db \<Longrightarrow> db_ok db'"
  by (auto simp: set_replaces_skips_def same_key_def intro!: update_operatorbundle_ok split: if_splits option.splits)

lemma pass_skips_ok: "pass_skips n r sk db = Some (Inr db') \<Longrightarrow> db_ok db \<Longrightarrow> db_ok db'"
  by (auto simp: pass_skips_def obind_Some split: if_splits dest: push_skips_ok set_replaces_skips_ok)

lemma compare_substitutions_ok: "compare_substitutions n v sk s db = Some (Inr db') \<Longrightarrow> db_ok db \<Longrightarrow> db_ok db'"
  by (auto simp: compare_substitutions_def Let_def same_key_def split: if_splits elim!: other_substitutions_ok intro!: update_operatorbundle_ok)

lemma addSubstitutesFor_ok: "addSubstitutesFor b db = Some (Inr (b', db')) \<Longrightarrow> db_ok db \<Longrightarrow> db_ok db'"
  by (auto simp: addSubstitutesFor_def link_substitution_def obind_Some dest: compare_substitutions_ok pass_skips_ok)

lemma addOperatorBundle_ok: "addOperatorBundle a ds b db = Some (Inr (b', db')) \<Longrightarrow> db_ok db \<Longrightarrow> db_ok db'"
  by (auto simp: addOperatorBundle_def obind_Some dest: add_bundle_rows_ok addSubstitutesFor_ok addAPIs_ok split: if_splits)

section \<open>Removing and deprecating\<close>

lemma rmPackage_ok: "db_ok db \<Longrightarrow> db_ok (rmPackage p db)"
  by (simp add: rmPackage_def statements_ok)

lemma rmBundle_ok: "db_ok db \<Longrightarrow> db_ok (rmBundle n db)"
  by (simp add: rmBundle_def statements_ok)

lemma fold_ok: "(\<And>x db. db_ok db \<Longrightarrow> db_ok (f x db)) \<Longrightarrow> db_ok db \<Longrightarrow> db_ok (fold f xs db)"
  by (induction xs arbitrary: db) simp_all

lemma rmChannelEntry_ok: "db_ok db \<Longrightarrow> db_ok (rmChannelEntry n db)"
  by (simp add: rmChannelEntry_def statements_ok fold_ok)

lemma deprecate_bundle_ok: "deprecate_bundle path db = Inr db' \<Longrightarrow> db_ok db \<Longrightarrow> db_ok db'"
  by (auto simp: deprecate_bundle_def Let_def intro!: insert_or_replace_deprecated_ok elim!: addProperty_ok
      intro: fold_ok rmBundle_ok rmChannelEntry_ok delete_channel_ok)

section \<open>Channels\<close>

definition errs_ok :: "load_error list \<times> database \<Rightarrow> bool" where
  "errs_ok s \<longleftrightarrow> db_ok (snd s)"

lemma addReplaces_ok: "db_ok db \<Longrightarrow> db_ok (addReplaces r i db)"
  by (simp add: addReplaces_def statements_ok)

lemma add_manifest_channel_ok: "db_ok (snd (snd (snd s))) \<Longrightarrow> db_ok (snd (snd (snd (add_manifest_channel m c s))))"
  by (cases s) (auto simp: add_manifest_channel_def Let_def split: sum.splits intro: insert_ok)

lemma add_manifest_channels_ok: "db_ok (snd (snd (snd s))) \<Longrightarrow> db_ok (snd (snd (snd (fold (add_manifest_channel m) cs s))))"
  by (induction cs arbitrary: s) (simp_all add: add_manifest_channel_ok)

lemma add_skip_entry_ok: "db_ok (snd (snd s)) \<Longrightarrow> db_ok (snd (snd (add_skip_entry c p cur skip s)))"
  by (cases s) (auto simp: add_skip_entry_def Let_def split: sum.splits prod.splits intro: insert_ok addReplaces_ok)

lemma add_skip_entries_ok: "db_ok (snd (snd s)) \<Longrightarrow> db_ok (snd (snd (fold (add_skip_entry c p cur) skips s)))"
  by (induction skips arbitrary: s) (simp_all add: add_skip_entry_ok)

lemma walk_replaces_ok: "db_ok (snd s) \<Longrightarrow> db_ok (snd (walk_replaces pkg c cur i depth cycle s))"
proof (induction pkg c cur i depth cycle s rule: walk_replaces.induct)
  case (1 pkg c cur i depth cycle errs db)
  show ?case
  proof (cases "getBundleSkipsReplacesVersion db cur")
    case (Inr row)
    obtain replaces skips version where row: "row = (replaces, skips, version)" by (cases row)
    show ?thesis
    proof (cases "addPackageProperty cur pkg version (getBundlePathIfExists db cur) db")
      case added: (Inr db1)
      obtain depth' errs' db2 where skips: "fold (add_skip_entry (pc_Name c) pkg cur) skips (depth, errs, db1) = (depth', errs', db2)"
        by (metis prod_cases3)
      have db2: "db_ok db2"
        using add_skip_entries_ok [of "(depth, errs, db1)" "pc_Name c" pkg cur skips] addPackageProperty_ok [OF added] 1(2) skips by simp
      show ?thesis
      proof (cases "insert_channel_entry (pc_Name c) pkg replaces depth' db2")
        case entry: (Inr e)
        obtain j db3 where e: "e = (j, db3)" by (cases e)
        have db3: "db_ok db3" using insert_channel_entry_ok [OF db2] entry e by simp
        have "db_ok (snd (walk_replaces pkg c replaces j (Suc depth') (replaces # cycle) (errs', addReplaces j i db3)))"
          if "replaces \<noteq> []" "replaces \<notin> set cycle" "\<not> deprecated db3 cur" "\<not> isl (getBundleSkipsReplacesVersion (addReplaces j i db3) replaces)"
          using 1(1) [OF Inr row [symmetric] refl added skips [symmetric] refl that(1) entry e [symmetric] that(2-4)] addReplaces_ok [OF db3] by simp
        then show ?thesis
          using db2 db3 addReplaces_ok [OF db3] by (simp add: Inr row added skips entry e)
      qed (use Inr row added skips db2 in simp)
    qed (use Inr row 1(2) in simp)
  qed (use 1(2) in simp)
qed

lemma add_channel_chain_ok: "db_ok (snd s) \<Longrightarrow> db_ok (snd (add_channel_chain pkg c s))"
  by (auto simp: add_channel_chain_def split: sum.splits prod.splits intro!: walk_replaces_ok intro: insert_ok simp del: walk_replaces.simps)

lemma add_channel_chains_ok: "db_ok (snd s) \<Longrightarrow> db_ok (snd (fold (add_channel_chain pkg) cs s))"
  by (induction cs arbitrary: s) (simp_all add: add_channel_chain_ok)

lemma addPackageChannels_ok:
  assumes "addPackageChannels m db = Inr db'" and "db_ok db"
  shows "db_ok db'"
proof -
  obtain db1 where db1: "insert_package (pm_PackageName m) db = Inr db1" using assms(1) by (auto simp: addPackageChannels_def)
  obtain errs channels has db2 where
    channels: "fold (add_manifest_channel m) (pm_Channels m) ([], [], False, db1) = (errs, channels, has, db2)"
    by (metis prod_cases4)
  let ?s = "(if has then errs else errs @ [NoDefaultChannel (pm_PackageName m)], db2)"
  have "db' = snd (fold (add_channel_chain (pm_PackageName m)) channels ?s)"
    using assms(1) by (auto simp: addPackageChannels_def lift_sql_def db1 channels split: prod.split_asm option.split_asm)
  with add_manifest_channels_ok [of "([], [], False, db1)" m "pm_Channels m"] insert_package_ok [OF assms(2) db1]
    add_channel_chains_ok [of ?s] channels
  show ?thesis by simp
qed

lemma addChannelEntry_ok: "addChannelEntry c p n d db = Inr (i, db') \<Longrightarrow> db_ok db \<Longrightarrow> db_ok db'"
  by (auto simp: addChannelEntry_def intro: insert_ok)

lemma add_synthetic_ok: "db_ok (snd s) \<Longrightarrow> db_ok (snd (add_synthetic c p cur d ss s))"
proof (induction ss arbitrary: d s)
  case (Cons k ss)
  obtain errs db where s: "s = (errs, db)" by (cases s)
  show ?case
    using Cons.prems by (auto simp: s split: sum.splits intro!: Cons.IH addReplaces_ok dest!: addChannelEntry_ok)
qed (metis add_synthetic.simps(1) surj_pair)

lemma walk_graph_ok:
  assumes "walk_graph c pkg channel node depth prev errs db = Some s" and "db_ok db"
  shows "db_ok (snd s)"
  using assms
proof (induction rule: walk_graph.raw_induct [rotated, consumes 1])
  case step: (1 rec c pkg channel node depth prev errs db s)
  show ?case
  proof (cases "addChannelEntry c pkg (bk_CsvName node) depth db")
    case (Inr e)
    obtain i db1 where e: "e = (i, db1)" by (cases e)
    define db2 where "db2 = (if prev \<noteq> 0 then addReplaces i prev db1 else db1)"
    define rs where "rs = (case gm_get (gc_Nodes channel) node of None \<Rightarrow> [] | Some rs \<Rightarrow> rs)"
    obtain errs' db3 where synth: "add_synthetic c pkg (bk_CsvName node) (Suc depth) (filter (\<lambda>r. \<not> gm_has (gc_Nodes channel) r) rs) (errs, db2) = (errs', db3)"
      by fastforce
    have "db_ok db2" using addChannelEntry_ok Inr e step(3) by (auto simp: db2_def intro: addReplaces_ok)
    with synth add_synthetic_ok [of "(errs, db2)" c pkg "bk_CsvName node" "Suc depth" "filter (\<lambda>r. \<not> gm_has (gc_Nodes channel) r) rs"]
    have db3: "db_ok db3" by simp
    note body = step(2) [unfolded Inr e sum.case prod.case Let_def, folded db2_def rs_def, unfolded synth prod.case]
    show ?thesis using body db3 step(1) by (fastforce split: if_splits)
  qed (use step in auto)
qed

lemma add_graph_channels_ok: "add_graph_channels pkg chs s = Some s' \<Longrightarrow> db_ok (snd s) \<Longrightarrow> db_ok (snd s')"
proof (induction pkg chs s rule: add_graph_channels.induct)
  case (2 pkg name ch chs errs db)
  from 2(2) obtain t where "walk_graph name pkg ch (gc_Head ch) 1 0 errs (truncChannelGraph name pkg db) = Some t"
      "add_graph_channels pkg chs t = Some s'"
    by (auto simp: bind_eq_Some_conv)
  with 2 walk_graph_ok show ?case by (auto simp: truncChannelGraph_def statements_ok)
qed simp

lemma add_graph_head_ok: "db_ok (snd s) \<Longrightarrow> db_ok (snd (add_graph_head pkg c s))"
  by (auto simp: add_graph_head_def addOrUpdateChannel_def split: sum.splits intro: insert_ok)

lemma add_graph_heads_ok: "db_ok (snd s) \<Longrightarrow> db_ok (snd (fold (add_graph_head pkg) cs s))"
  by (induction cs arbitrary: s) (simp_all add: add_graph_head_ok)

lemma AddPackageChannelsFromGraph_ok:
  assumes "AddPackageChannelsFromGraph graph db = Some (e, db')" and "store_ok db"
  shows "store_ok db'"
proof -
  obtain errs1 db1 where heads: "fold (add_graph_head (gp_Name graph)) (gp_Channels graph) ([], addPackageIfNotExists (gp_Name graph) db) = (errs1, db1)"
    by fastforce
  have "db_ok (addPackageIfNotExists (gp_Name graph) db)"
    using assms(2) by (simp add: store_ok_def addPackageIfNotExists_def statements_ok)
  with add_graph_heads_ok [of "([], addPackageIfNotExists (gp_Name graph) db)"] heads have db1: "db_ok db1" by (metis snd_conv)
  obtain errs2 db2 where def: "(case updateDefaultChannel (gp_DefaultChannel graph) (gp_Name graph) db1 of
      Inl e \<Rightarrow> (errs1 @ [e], db1) | Inr d \<Rightarrow> (errs1, d)) = (errs2, db2)" by fastforce
  have db2: "db_ok db2" using def db1 by (auto simp: updateDefaultChannel_def split: sum.splits intro: insert_ok)
  from assms(1) obtain errs3 db3 where walk: "add_graph_channels (gp_Name graph) (gp_Channels graph) (errs2, db2) = Some (errs3, db3)"
      and res: "(case commit db3 of Inl e \<Rightarrow> (NewAggregate (errs3 @ [e]), db) | Inr db4 \<Rightarrow> (NewAggregate errs3, db4)) = (e, db')"
    by (auto simp: AddPackageChannelsFromGraph_def Let_def heads def)
  from add_graph_channels_ok [OF walk] db2 have "db_ok db3" by simp
  with res assms(2) show ?thesis by (auto simp: commit_def store_ok_def split: if_splits)
qed

section \<open>Transactions\<close>

lemma transaction_ok:
  assumes "store_ok db" and "\<And>db'. body db = Inr db' \<Longrightarrow> db_ok db'"
  shows "store_ok (snd (transaction body db))"
  using assms by (auto simp: transaction_def commit_def store_ok_def split: sum.splits if_splits)

lemma transaction_opt_ok:
  assumes "transaction_opt body db = Some (e, db')" and "store_ok db" and "\<And>db'. body db = Some (Inr db') \<Longrightarrow> db_ok db'"
  shows "store_ok db'"
proof -
  from assms(1) obtain r where r: "body db = Some r" "transaction (\<lambda>_. r) db = (e, db')"
    by (auto simp: transaction_opt_def)
  with transaction_ok [OF assms(2), of "\<lambda>_. r"] assms(3) show ?thesis by simp
qed

lemma transaction_keeps_ok:
  assumes "transaction body db = (e, db')" and "store_ok db" and "\<And>db'. body db = Inr db' \<Longrightarrow> db_ok db'"
  shows "store_ok db'"
  using transaction_ok [OF assms(2,3)] assms(1) by (metis snd_conv)

lemma store_okD: "store_ok db \<Longrightarrow> db_ok db"
  by (simp add: store_ok_def)

lemma AddOperatorBundle_ok: "AddOperatorBundle a ds b db = Some (e, db') \<Longrightarrow> store_ok db \<Longrightarrow> store_ok db'"
  unfolding AddOperatorBundle_def
  by (erule transaction_opt_ok) (auto dest: store_okD intro: addOperatorBundle_ok)

lemma AddPackageChannels_ok: "AddPackageChannels m db = (e, db') \<Longrightarrow> store_ok db \<Longrightarrow> store_ok db'"
  unfolding AddPackageChannels_def
  by (erule transaction_keeps_ok) (auto dest: store_okD addPackageChannels_ok intro: rmPackage_ok)

lemma AddBundlePackageChannels_ok: "AddBundlePackageChannels a ds m b db = Some (e, db') \<Longrightarrow> store_ok db \<Longrightarrow> store_ok db'"
  unfolding AddBundlePackageChannels_def
  by (erule transaction_opt_ok)
    (auto simp: obind_Some dest!: addOperatorBundle_ok addPackageChannels_ok store_okD intro: rmPackage_ok)

lemma AddBundleSemver_ok: "AddBundleSemver a ds g b db = Some (e, db') \<Longrightarrow> store_ok db \<Longrightarrow> store_ok db'"
  unfolding AddBundleSemver_def
  by (auto split: option.splits) (blast intro: AddOperatorBundle_ok AddPackageChannelsFromGraph_ok)+

lemma RemoveStrandedBundles_ok: "RemoveStrandedBundles db = (e, db') \<Longrightarrow> store_ok db \<Longrightarrow> store_ok db'"
  unfolding RemoveStrandedBundles_def
  by (erule transaction_keeps_ok) (auto simp: rmStrandedBundles_def statements_ok dest: store_okD)

lemma RemovePackage_ok: "RemovePackage p db = (e, db') \<Longrightarrow> store_ok db \<Longrightarrow> store_ok db'"
proof -
  assume ok: "store_ok db" and res: "RemovePackage p db = (e, db')"
  let ?body = "\<lambda>db. Inr (delete_channel (\<lambda>c. ch_package_name c = p) (delete_package (\<lambda>q. pk_name q = p) (fold rmBundle (getCSVNames db p) db)))"
  obtain e1 db1 where first: "transaction ?body db = (e1, db1)" by fastforce
  have "store_ok db1"
    by (rule transaction_keeps_ok [OF first ok]) (use ok in \<open>auto simp: statements_ok fold_ok rmBundle_ok dest: store_okD\<close>)
  with res show ?thesis by (auto simp: RemovePackage_def first split: option.splits dest: RemoveStrandedBundles_ok)
qed

lemma ClearNonHeadBundles_ok: "ClearNonHeadBundles db = (e, db') \<Longrightarrow> store_ok db \<Longrightarrow> store_ok db'"
  unfolding ClearNonHeadBundles_def
  by (erule transaction_keeps_ok) (auto simp: same_key_def intro!: update_operatorbundle_ok dest: store_okD)

lemma DeprecateBundle_ok: "DeprecateBundle path db = (e, db') \<Longrightarrow> store_ok db \<Longrightarrow> store_ok db'"
  unfolding DeprecateBundle_def by (erule transaction_keeps_ok) (auto dest: store_okD deprecate_bundle_ok)

text \<open>The operations of the loader as steps of the database, whether they report an error or not.\<close>

inductive loader_step :: "database \<Rightarrow> database \<Rightarrow> bool" where
  add_bundle: "AddOperatorBundle a ds b db = Some (e, db') \<Longrightarrow> loader_step db db'"
| add_channels: "AddPackageChannels m db = (e, db') \<Longrightarrow> loader_step db db'"
| add_graph: "AddPackageChannelsFromGraph g db = Some (e, db') \<Longrightarrow> loader_step db db'"
| add_semver: "AddBundleSemver a ds g b db = Some (e, db') \<Longrightarrow> loader_step db db'"
| add_bundle_channels: "AddBundlePackageChannels a ds m b db = Some (e, db') \<Longrightarrow> loader_step db db'"
| clear: "ClearNonHeadBundles db = (e, db') \<Longrightarrow> loader_step db db'"
| remove: "RemovePackage p db = (e, db') \<Longrightarrow> loader_step db db'"
| deprecate: "DeprecateBundle path db = (e, db') \<Longrightarrow> loader_step db db'"
| remove_stranded: "RemoveStrandedBundles db = (e, db') \<Longrightarrow> loader_step db db'"

lemma loader_step_ok: "loader_step db db' \<Longrightarrow> store_ok db \<Longrightarrow> store_ok db'"
  by (induction rule: loader_step.induct)
    (blast intro: AddOperatorBundle_ok AddPackageChannels_ok AddPackageChannelsFromGraph_ok AddBundleSemver_ok
      AddBundlePackageChannels_ok ClearNonHeadBundles_ok RemovePackage_ok DeprecateBundle_ok RemoveStrandedBundles_ok)+



end
