(* ===== verification/Sqlite_Remove.thy ===== *)
theory Sqlite_Remove
  imports Sqlite_Inv
begin

text \<open>
  What the deletes of the loader leave. Where every bundle belongs to one package and links stay inside a package,
  removing a package leaves exactly the rows of the other packages. The cleanup triggers of the API tables, on the
  other hand, can delete rows of bundles that stay.
\<close>

section \<open>What a delete keeps of the other packages\<close>

definition names_of :: "database \<Rightarrow> string \<Rightarrow> string set" where
  "names_of db p = en_operatorbundle_name ` {e \<in> set (t_channel_entry db). en_package_name e = p}"

text \<open>The rows of packages other than \<open>p\<close> are the same, and only bundles with a name in \<open>N\<close> are gone.\<close>

definition outside :: "string \<Rightarrow> string set \<Rightarrow> database \<Rightarrow> database \<Rightarrow> bool" where
  "outside p N db db' \<longleftrightarrow>
     filter (\<lambda>e. en_package_name e \<noteq> p) (t_channel_entry db') = filter (\<lambda>e. en_package_name e \<noteq> p) (t_channel_entry db)
   \<and> filter (\<lambda>c. ch_package_name c \<noteq> p) (t_channel db') = filter (\<lambda>c. ch_package_name c \<noteq> p) (t_channel db)
   \<and> filter (\<lambda>q. pk_name q \<noteq> p) (t_package db') = filter (\<lambda>q. pk_name q \<noteq> p) (t_package db)
   \<and> set (t_channel db') \<subseteq> set (t_channel db) \<and> set (t_channel_entry db') \<subseteq> set (t_channel_entry db)
   \<and> filter (\<lambda>b. ob_name b \<notin> N) (t_operatorbundle db') = filter (\<lambda>b. ob_name b \<notin> N) (t_operatorbundle db)
   \<and> set (t_operatorbundle db') \<subseteq> set (t_operatorbundle db) \<and> scan_by_name db' = scan_by_name db"

lemma outside_refl [simp]: "outside p N db db"
  by (simp add: outside_def)

lemma outside_trans: "outside p N a b \<Longrightarrow> outside p N b c \<Longrightarrow> outside p N a c"
  by (auto simp: outside_def)

lemma filter_fresh: "p \<notin> f ` set xs \<Longrightarrow> filter (\<lambda>x. f x \<noteq> p) xs = xs"
  by (auto intro: filter_True)

lemma outside_all:
  assumes "\<And>p. outside p N db db'"
  shows "t_channel_entry db' = t_channel_entry db \<and> t_channel db' = t_channel db \<and> t_package db' = t_package db"
proof -
  let ?A = "en_package_name ` (set (t_channel_entry db) \<union> set (t_channel_entry db')) \<union> ch_package_name ` (set (t_channel db) \<union> set (t_channel db'))
    \<union> pk_name ` (set (t_package db) \<union> set (t_package db'))"
  have "finite ?A" by simp
  then obtain p where "p \<notin> ?A" using ex_new_if_finite [OF infinite_UNIV_listI] by metis
  then have "p \<notin> en_package_name ` set (t_channel_entry db)" "p \<notin> en_package_name ` set (t_channel_entry db')"
      "p \<notin> ch_package_name ` set (t_channel db)" "p \<notin> ch_package_name ` set (t_channel db')"
      "p \<notin> pk_name ` set (t_package db)" "p \<notin> pk_name ` set (t_package db')"
    by (simp_all add: image_Un)
  note eq = this [THEN filter_fresh]
  from assms [of p] show ?thesis unfolding outside_def eq by blast
qed

lemma shrinks_outside: "api_shrinks db db' \<Longrightarrow> outside p N db db'"
  by (simp add: outside_def shrinks_tables)

lemma filter_both: "(\<And>x. x \<in> set xs \<Longrightarrow> P x \<Longrightarrow> Q x) \<Longrightarrow> filter P (filter Q xs) = filter P xs"
  by (induction xs) auto

lemma delete_channel_outside:
  assumes "\<And>c. c \<in> set (t_channel db) \<Longrightarrow> P c \<Longrightarrow> ch_package_name c = p"
  shows "outside p N db (delete_channel P db)"
proof -
  have "(c, q) \<notin> channel_key ` set (filter P (t_channel db))" if "q \<noteq> p" for c q
    using assms that by (auto simp: channel_key_def)
  then show ?thesis
    using assms unfolding outside_def delete_channel_tables
    by (intro conjI filter_both) (auto simp: default_in_def entry_channel_def split: option.splits)
qed

lemma delete_entry_outside:
  assumes "\<And>e. e \<in> set (t_channel_entry db) \<Longrightarrow> P e \<Longrightarrow> en_package_name e = p"
  shows "outside p N db (delete_channel_entry P db)"
proof -
  have "filter (\<lambda>e. en_package_name e \<noteq> p) (filter (\<lambda>e. \<not> P e) (t_channel_entry db)) = filter (\<lambda>e. en_package_name e \<noteq> p) (t_channel_entry db)"
    by (rule filter_both) (use assms in auto)
  then show ?thesis unfolding outside_def delete_channel_entry_def by auto
qed

lemma delete_package_outside: "outside p N db (delete_package (\<lambda>q. pk_name q = p) db)"
  by (auto simp: outside_def delete_package_def)

lemma filter_remove1: "\<not> P x \<Longrightarrow> filter P (remove1 x xs) = filter P xs"
  by (induction xs) auto

lemma delete_bundle_row_outside:
  assumes "ob_name b \<in> N" and "\<And>c. c \<in> set (t_channel db) \<Longrightarrow> ch_head_operatorbundle_name c = ob_name b \<Longrightarrow> ch_package_name c = p"
  shows "outside p N db (delete_bundle_row b db)"
  using delete_channel_outside [of db "\<lambda>c. ch_head_operatorbundle_name c = ob_name b" p N] assms
  by (auto simp: outside_def delete_bundle_row_tables filter_remove1 dest: in_set_remove1 [THEN iffD1] notin_set_remove1
      set_remove1_subset [THEN subsetD])

lemma fold_delete_bundle_outside:
  assumes "\<And>b. b \<in> set bs \<Longrightarrow> ob_name b \<in> N"
    and "\<And>c b. c \<in> set (t_channel db) \<Longrightarrow> b \<in> set bs \<Longrightarrow> ch_head_operatorbundle_name c = ob_name b \<Longrightarrow> ch_package_name c = p"
  shows "outside p N db (fold delete_bundle_row bs db)"
  using assms
proof (induction bs arbitrary: db)
  case (Cons b bs)
  have 1: "outside p N db (delete_bundle_row b db)" using Cons.prems by (intro delete_bundle_row_outside) auto
  then have "set (t_channel (delete_bundle_row b db)) \<subseteq> set (t_channel db)" by (simp add: outside_def)
  then have "outside p N (delete_bundle_row b db) (fold delete_bundle_row bs (delete_bundle_row b db))"
    by (intro Cons.IH) (use Cons.prems in auto)
  with 1 show ?case by (auto intro: outside_trans)
qed simp

lemma delete_operatorbundle_outside:
  assumes "\<And>b. P b \<Longrightarrow> ob_name b \<in> N"
    and "\<And>c b. c \<in> set (t_channel db) \<Longrightarrow> P b \<Longrightarrow> ch_head_operatorbundle_name c = ob_name b \<Longrightarrow> ch_package_name c = p"
  shows "outside p N db (delete_operatorbundle P db)"
  unfolding delete_operatorbundle_def
  by (rule fold_delete_bundle_outside) (use assms in \<open>auto simp: scan_operatorbundle_def split: if_splits\<close>)

section \<open>Deletes keep the deferred foreign key of the API tables\<close>

lemma refs_linked_iff:
  "refs_linked db \<longleftrightarrow> (\<forall>r \<in> set (t_api_provider db) \<union> set (t_api_requirer db).
     bundle_fk db (ar_operatorbundle_name r) (ar_operatorbundle_version r) (ar_operatorbundle_path r))"
  by (auto simp: refs_linked_def list_all_iff)

lemma shrinks_refs_linked: "api_shrinks db db' \<Longrightarrow> refs_linked db \<Longrightarrow> refs_linked db'"
  using shrinks_refs(1,2) [of db db'] bundle_fk_cong [of db' db] shrinks_tables(1) [of db db'] by (auto simp: refs_linked_iff)

lemma same_refs_linked:
  assumes "t_operatorbundle db' = t_operatorbundle db" "t_api_provider db' = t_api_provider db" "t_api_requirer db' = t_api_requirer db"
  shows "refs_linked db' = refs_linked db"
  using assms bundle_fk_cong [OF assms(1)] by (simp add: refs_linked_iff)

lemma delete_refs_linked:
  "refs_linked (delete_channel C db) = refs_linked db" "refs_linked (delete_channel_entry E db) = refs_linked db"
  "refs_linked (delete_package K db) = refs_linked db"
  by (rule same_refs_linked; simp add: delete_channel_tables delete_channel_entry_def delete_package_def)+

lemma delete_bundle_row_refs_linked:
  assumes "db_ok db" "refs_linked db"
  shows "refs_linked (delete_bundle_row b db)"
proof -
  have d: "distinct (map ob_name (t_operatorbundle db))" using assms(1) by (simp add: db_ok_def unique_keys_def)
  show ?thesis unfolding refs_linked_iff
  proof
    fix r assume "r \<in> set (t_api_provider (delete_bundle_row b db)) \<union> set (t_api_requirer (delete_bundle_row b db))"
    then have "r \<in> set (t_api_provider db) \<union> set (t_api_requirer db)" "\<not> refers_ref b r"
      using delete_bundle_row_refs(1,2) [of b db] by auto
    with assms(2) show "bundle_fk (delete_bundle_row b db) (ar_operatorbundle_name r) (ar_operatorbundle_version r) (ar_operatorbundle_path r)"
      by (intro bundle_fk_remove [OF d _ _ delete_bundle_row_tables(1)]) (auto simp: refs_linked_iff refers_ref_def)
  qed
qed

lemma delete_operatorbundle_refs_linked:
  assumes "db_ok db" "refs_linked db"
  shows "refs_linked (delete_operatorbundle P db)"
proof -
  have "refs_linked (fold delete_bundle_row bs db)" if "db_ok db" "refs_linked db" for bs db
    using that by (induction bs arbitrary: db) (simp_all add: delete_bundle_row_ok delete_bundle_row_refs_linked)
  then show ?thesis using assms by (simp add: delete_operatorbundle_def)
qed

section \<open>Removing a bundle\<close>

lemma rmBundle_refs_linked: "db_ok db \<Longrightarrow> refs_linked db \<Longrightarrow> refs_linked (rmBundle n db)"
  unfolding rmBundle_def delete_refs_linked
  by (intro shrinks_refs_linked [OF delete_api_shrinks(1)] shrinks_refs_linked [OF delete_api_shrinks(2)] delete_operatorbundle_refs_linked)

lemma rmBundle_tables:
  assumes "db_ok db"
  shows "t_operatorbundle (rmBundle n db) = filter (\<lambda>b. ob_name b \<noteq> n) (t_operatorbundle db)"
    and "e \<in> set (t_channel_entry (rmBundle n db)) \<Longrightarrow> en_operatorbundle_name e \<noteq> n"
  using delete_operatorbundle_tables(1) [OF assms, of "\<lambda>b. ob_name b = n"]
  by (auto simp: rmBundle_def delete_channel_entry_def shrinks_tables [OF delete_api_shrinks(1)] shrinks_tables [OF delete_api_shrinks(2)])

lemma rmBundle_outside:
  assumes "n \<in> N" and "\<And>c. c \<in> set (t_channel db) \<Longrightarrow> ch_head_operatorbundle_name c = n \<Longrightarrow> ch_package_name c = p"
    and "\<And>e. e \<in> set (t_channel_entry db) \<Longrightarrow> en_operatorbundle_name e = n \<Longrightarrow> en_package_name e = p"
  shows "outside p N db (rmBundle n db)"
proof -
  let ?a = "delete_operatorbundle (\<lambda>b. ob_name b = n) db"
  let ?b = "delete_api_requirer (\<lambda>r. ar_operatorbundle_name r = n) (delete_api_provider (\<lambda>r. ar_operatorbundle_name r = n) ?a)"
  have a: "outside p N db ?a" by (rule delete_operatorbundle_outside) (use assms in auto)
  have "outside p N ?a ?b" by (rule shrinks_outside) (rule api_shrinks_trans [OF delete_api_shrinks(1) delete_api_shrinks(2)])
  with a have b: "outside p N db ?b" by (rule outside_trans)
  then have "set (t_channel_entry ?b) \<subseteq> set (t_channel_entry db)" by (simp add: outside_def)
  then have "outside p N ?b (rmBundle n db)" unfolding rmBundle_def by (intro delete_entry_outside) (use assms(3) in auto)
  with b show ?thesis by (rule outside_trans)
qed

lemma fold_rmBundle:
  assumes "db_ok db" "refs_linked db" and "set ns \<subseteq> N"
    and "\<And>c. c \<in> set (t_channel db) \<Longrightarrow> ch_head_operatorbundle_name c \<in> N \<Longrightarrow> ch_package_name c = p"
    and "\<And>e. e \<in> set (t_channel_entry db) \<Longrightarrow> en_operatorbundle_name e \<in> N \<Longrightarrow> en_package_name e = p"
  shows "db_ok (fold rmBundle ns db) \<and> refs_linked (fold rmBundle ns db) \<and> outside p N db (fold rmBundle ns db)
    \<and> t_operatorbundle (fold rmBundle ns db) = filter (\<lambda>b. ob_name b \<notin> set ns) (t_operatorbundle db)
    \<and> (\<forall>e \<in> set (t_channel_entry (fold rmBundle ns db)). en_operatorbundle_name e \<notin> set ns)"
  using assms
proof (induction ns arbitrary: db)
  case (Cons n ns)
  let ?d = "rmBundle n db"
  have out: "outside p N db ?d" using Cons.prems by (intro rmBundle_outside) auto
  then have sub: "set (t_channel ?d) \<subseteq> set (t_channel db)" "set (t_channel_entry ?d) \<subseteq> set (t_channel_entry db)" by (simp_all add: outside_def)
  have ok: "db_ok ?d" "refs_linked ?d" using Cons.prems by (simp_all add: rmBundle_ok rmBundle_refs_linked)
  have IH: "db_ok (fold rmBundle ns ?d) \<and> refs_linked (fold rmBundle ns ?d) \<and> outside p N ?d (fold rmBundle ns ?d)
      \<and> t_operatorbundle (fold rmBundle ns ?d) = filter (\<lambda>b. ob_name b \<notin> set ns) (t_operatorbundle ?d)
      \<and> (\<forall>e \<in> set (t_channel_entry (fold rmBundle ns ?d)). en_operatorbundle_name e \<notin> set ns)"
    by (rule Cons.IH) (use Cons.prems ok sub in auto)
  then have "set (t_channel_entry (fold rmBundle ns ?d)) \<subseteq> set (t_channel_entry ?d)" by (simp add: outside_def)
  then have "\<forall>e \<in> set (t_channel_entry (fold rmBundle ns ?d)). en_operatorbundle_name e \<notin> set (n # ns)"
    using IH rmBundle_tables(2) [OF Cons.prems(1)] by fastforce
  moreover have "t_operatorbundle (fold rmBundle ns ?d) = filter (\<lambda>b. ob_name b \<notin> set (n # ns)) (t_operatorbundle db)"
    using IH by (simp add: rmBundle_tables(1) [OF Cons.prems(1)] conj_commute)
  ultimately show ?case using IH outside_trans [OF out] by simp
qed simp

lemma entries_linked_cong: "t_channel_entry db' = t_channel_entry db \<Longrightarrow> entries_linked db' = entries_linked db"
  by (simp add: entries_linked_def cong: option.case_cong)

section \<open>Removing a package\<close>

text \<open>
  Every bundle has entries in one package only, the head of a channel has an entry in the package, and an entry replaces an
  entry of the same package.
\<close>

definition packages_apart :: "database \<Rightarrow> bool" where
  "packages_apart db \<longleftrightarrow>
     (\<forall>c \<in> set (t_channel db). ch_head_operatorbundle_name c \<in> names_of db (ch_package_name c))
   \<and> (\<forall>e \<in> set (t_channel_entry db). \<forall>f \<in> set (t_channel_entry db).
        (en_operatorbundle_name e = en_operatorbundle_name f \<or> en_replaces e = Some (en_entry_id f)) \<longrightarrow> en_package_name e = en_package_name f)"

lemma apart_entries:
  assumes "packages_apart db" "e \<in> set (t_channel_entry db)" "f \<in> set (t_channel_entry db)"
  shows "en_operatorbundle_name e = en_operatorbundle_name f \<Longrightarrow> en_package_name e = en_package_name f"
    and "en_replaces e = Some (en_entry_id f) \<Longrightarrow> en_package_name e = en_package_name f"
  using assms unfolding packages_apart_def by blast+

lemma apart_name: "packages_apart db \<Longrightarrow> e \<in> set (t_channel_entry db) \<Longrightarrow> en_operatorbundle_name e \<in> names_of db p \<Longrightarrow> en_package_name e = p"
  unfolding names_of_def using apart_entries(1) by blast

lemma apart_head:
  assumes "packages_apart db" "c \<in> set (t_channel db)"
  obtains e where "e \<in> set (t_channel_entry db)" "en_package_name e = ch_package_name c" "en_operatorbundle_name e = ch_head_operatorbundle_name c"
proof -
  have "ch_head_operatorbundle_name c \<in> names_of db (ch_package_name c)" using assms unfolding packages_apart_def by blast
  then obtain e where "e \<in> set (t_channel_entry db)" "en_package_name e = ch_package_name c" "ch_head_operatorbundle_name c = en_operatorbundle_name e"
    unfolding names_of_def by blast
  then show thesis by (intro that) (assumption, assumption, rule sym)
qed

lemma filter_eq_all: "filter P ys = filter P xs \<Longrightarrow> (\<And>y. y \<in> set ys \<Longrightarrow> P y) \<Longrightarrow> ys = filter P xs"
  by (metis filter_True)

text \<open>The rows of the other packages.\<close>

definition rows_without :: "string \<Rightarrow> database \<Rightarrow> database \<Rightarrow> bool" where
  "rows_without p db db' \<longleftrightarrow>
     t_package db' = filter (\<lambda>q. pk_name q \<noteq> p) (t_package db)
   \<and> t_channel db' = filter (\<lambda>c. ch_package_name c \<noteq> p) (t_channel db)
   \<and> t_channel_entry db' = filter (\<lambda>e. en_package_name e \<noteq> p) (t_channel_entry db)"

lemma outside_rows_without:
  assumes "outside p N db db'" and "\<And>q. q \<in> set (t_package db') \<Longrightarrow> pk_name q \<noteq> p"
    and "\<And>c. c \<in> set (t_channel db') \<Longrightarrow> ch_package_name c \<noteq> p" and "\<And>e. e \<in> set (t_channel_entry db') \<Longrightarrow> en_package_name e \<noteq> p"
  shows "rows_without p db db'"
proof -
  have eq: "filter (\<lambda>q. pk_name q \<noteq> p) (t_package db') = filter (\<lambda>q. pk_name q \<noteq> p) (t_package db)"
    "filter (\<lambda>c. ch_package_name c \<noteq> p) (t_channel db') = filter (\<lambda>c. ch_package_name c \<noteq> p) (t_channel db)"
    "filter (\<lambda>e. en_package_name e \<noteq> p) (t_channel_entry db') = filter (\<lambda>e. en_package_name e \<noteq> p) (t_channel_entry db)"
    using assms(1) unfolding outside_def by blast+
  show ?thesis
    unfolding rows_without_def by (intro conjI filter_eq_all [OF eq(1) assms(2)] filter_eq_all [OF eq(2) assms(3)] filter_eq_all [OF eq(3) assms(4)])
qed

lemma entries_linked_without:
  assumes "entries_linked db" "packages_apart db" "rows_without p db db'"
  shows "entries_linked db'"
proof -
  have "i \<in> en_entry_id ` set (t_channel_entry db')" if e: "e \<in> set (t_channel_entry db')" "en_replaces e = Some i" for e i
  proof -
    have "e \<in> set (t_channel_entry db)" "en_package_name e \<noteq> p" using e assms(3) by (auto simp: rows_without_def)
    moreover from this e assms(1) obtain f where "f \<in> set (t_channel_entry db)" "en_entry_id f = i"
      by (fastforce simp: entries_linked_def list_all_iff)
    moreover from calculation have "en_package_name f = en_package_name e" using apart_entries(2) [OF assms(2)] e(2) by metis
    ultimately show ?thesis using assms(3) by (auto simp: rows_without_def)
  qed
  then show ?thesis by (auto simp: entries_linked_def list_all_iff split: option.splits)
qed

lemma removed_package:
  fixes p :: string
  assumes "store_ok db" "packages_apart db"
  defines "d \<equiv> delete_channel (\<lambda>c. ch_package_name c = p) (delete_package (\<lambda>q. pk_name q = p) (fold rmBundle (getCSVNames db p) db))"
  shows "store_ok d \<and> rows_without p db d
    \<and> t_operatorbundle d = filter (\<lambda>b. ob_name b \<notin> names_of db p) (t_operatorbundle db)"
proof -
  let ?N = "names_of db p" and ?d1 = "fold rmBundle (getCSVNames db p) db"
  let ?d2 = "delete_package (\<lambda>q. pk_name q = p) ?d1"
  have N: "set (getCSVNames db p) = ?N" by (auto simp: getCSVNames_def first_occurrences_def names_of_def)
  have pkg: "en_package_name e = p" if "e \<in> set (t_channel_entry db)" "en_operatorbundle_name e \<in> ?N" for e
    using apart_name [OF assms(2) that] .
  have head: "ch_package_name c = p" if "c \<in> set (t_channel db)" "ch_head_operatorbundle_name c \<in> ?N" for c
    using apart_head [OF assms(2) that(1)] pkg that(2) by metis
  from assms(1) have ok: "db_ok db" "entries_linked db" "refs_linked db" by (simp_all add: store_ok_def)
  from fold_rmBundle [OF ok(1,3) eq_refl [OF N] head pkg]
  have 1: "db_ok ?d1" "refs_linked ?d1" "outside p ?N db ?d1" "t_operatorbundle ?d1 = filter (\<lambda>b. ob_name b \<notin> ?N) (t_operatorbundle db)"
      "\<forall>e \<in> set (t_channel_entry ?d1). en_operatorbundle_name e \<notin> ?N"
    by (simp_all add: N)
  have "outside p ?N ?d1 ?d2" by (rule delete_package_outside)
  moreover have "outside p ?N ?d2 d" unfolding d_def by (rule delete_channel_outside) simp
  ultimately have out: "outside p ?N db d" using 1(3) outside_trans by blast
  have sub: "set (t_channel_entry d) \<subseteq> set (t_channel_entry ?d1)" by (auto simp: d_def delete_channel_tables delete_package_def)
  have "rows_without p db d"
  proof (rule outside_rows_without [OF out])
    have "set (t_channel_entry d) \<subseteq> set (t_channel_entry db)" using out by (simp only: outside_def)
    with sub 1(5) show "en_package_name e \<noteq> p" if "e \<in> set (t_channel_entry d)" for e
      using that unfolding names_of_def by blast
  qed (simp_all add: d_def delete_channel_tables delete_package_def)
  moreover have "store_ok d"
    using 1(1,2) entries_linked_without [OF ok(2) assms(2) calculation]
    by (simp add: store_ok_def d_def statements_ok delete_refs_linked)
  ultimately show ?thesis using 1(4) by (simp add: d_def delete_channel_tables delete_package_def)
qed

lemma removed_stranded:
  assumes "store_ok db" and "\<And>c. c \<in> set (t_channel db) \<Longrightarrow> ch_head_operatorbundle_name c \<in> en_operatorbundle_name ` set (t_channel_entry db)"
  shows "\<exists>db'. RemoveStrandedBundles db = (None, db') \<and> t_package db' = t_package db \<and> t_channel db' = t_channel db
    \<and> t_channel_entry db' = t_channel_entry db
    \<and> t_operatorbundle db' = filter (\<lambda>b. ob_name b \<in> en_operatorbundle_name ` set (t_channel_entry db)) (t_operatorbundle db)"
proof -
  let ?P = "\<lambda>b. ob_name b \<notin> en_operatorbundle_name ` set (t_channel_entry db)" and ?d = "rmStrandedBundles db"
  from assms(1) have ok: "db_ok db" "entries_linked db" "refs_linked db" by (simp_all add: store_ok_def)
  have out: "outside p UNIV db ?d" for p
    unfolding rmStrandedBundles_def
  proof (rule delete_operatorbundle_outside)
    fix c b assume "c \<in> set (t_channel db)" "?P b" "ch_head_operatorbundle_name c = ob_name b"
    with assms(2) [of c] show "ch_package_name c = p" by metis
  qed simp
  have "t_channel_entry ?d = t_channel_entry db \<and> t_channel ?d = t_channel db \<and> t_package ?d = t_package db"
    by (rule outside_all [OF out])
  moreover have "t_operatorbundle ?d = filter (\<lambda>b. \<not> ?P b) (t_operatorbundle db)"
    unfolding rmStrandedBundles_def by (rule delete_operatorbundle_tables(1) [OF ok(1)])
  moreover have "refs_linked ?d" unfolding rmStrandedBundles_def by (rule delete_operatorbundle_refs_linked [OF ok(1,3)])
  moreover have "entries_linked ?d" using ok(2) entries_linked_cong [OF conjunct1 [OF calculation(1)]] by simp
  ultimately show ?thesis by (simp add: RemoveStrandedBundles_def transaction_def commit_def)
qed

text \<open>
  C26: In a database whose packages are apart, removing a package succeeds: it leaves exactly the packages, channels and
  entries of the other packages, and exactly the bundles that one of these entries names. What is left satisfies every
  key and foreign key.
\<close>

theorem RemovePackage_spec:
  assumes "store_ok db" and "packages_apart db"
  shows "\<exists>db'. RemovePackage p db = (None, db') \<and> store_ok db'
    \<and> t_package db' = filter (\<lambda>q. pk_name q \<noteq> p) (t_package db)
    \<and> t_channel db' = filter (\<lambda>c. ch_package_name c \<noteq> p) (t_channel db)
    \<and> t_channel_entry db' = filter (\<lambda>e. en_package_name e \<noteq> p) (t_channel_entry db)
    \<and> t_operatorbundle db' = filter (\<lambda>b. ob_name b \<in> en_operatorbundle_name ` set (t_channel_entry db')) (t_operatorbundle db)"
proof -
  let ?d = "delete_channel (\<lambda>c. ch_package_name c = p) (delete_package (\<lambda>q. pk_name q = p) (fold rmBundle (getCSVNames db p) db))"
  note d = removed_package [OF assms, of p]
  have heads: "ch_head_operatorbundle_name c \<in> en_operatorbundle_name ` set (t_channel_entry ?d)" if c: "c \<in> set (t_channel ?d)" for c
  proof -
    have "c \<in> set (t_channel db)" "ch_package_name c \<noteq> p" using c d by (simp_all add: rows_without_def)
    moreover obtain e where "e \<in> set (t_channel_entry db)" "en_package_name e = ch_package_name c" "en_operatorbundle_name e = ch_head_operatorbundle_name c"
      using apart_head [OF assms(2) calculation(1)] .
    ultimately show ?thesis using d by (force simp: rows_without_def)
  qed
  obtain db' where db': "RemoveStrandedBundles ?d = (None, db')" "t_package db' = t_package ?d" "t_channel db' = t_channel ?d"
      "t_channel_entry db' = t_channel_entry ?d"
      "t_operatorbundle db' = filter (\<lambda>b. ob_name b \<in> en_operatorbundle_name ` set (t_channel_entry ?d)) (t_operatorbundle ?d)"
    using removed_stranded [OF conjunct1 [OF d] heads] by blast
  have apart: "n \<notin> names_of db p" if "n \<in> en_operatorbundle_name ` set (t_channel_entry ?d)" for n
    using that d apart_name [OF assms(2)] by (auto simp: rows_without_def)
  have "RemovePackage p db = (None, db')"
    using d db'(1) by (simp add: RemovePackage_def transaction_def commit_def store_ok_def)
  moreover have "t_operatorbundle db' = filter (\<lambda>b. ob_name b \<in> en_operatorbundle_name ` set (t_channel_entry db')) (t_operatorbundle db)"
    using d db'(4,5) apart by (auto intro!: filter_cong)
  ultimately show ?thesis
    using d db'(2-4) RemoveStrandedBundles_ok [OF db'(1)] by (simp add: rows_without_def)
qed

definition sample_bundle_row :: "string \<Rightarrow> operatorbundle" where
  "sample_bundle_row n =
     \<lparr>ob_name = n, ob_csv = None, ob_bundle = None, ob_bundlepath = Some (''img-'' @ n), ob_version = Some ''1.0.0'', ob_skiprange = None,
      ob_replaces = None, ob_skips = None, ob_substitutesfor = None\<rparr>"

definition sample_entry_row :: "nat \<Rightarrow> string \<Rightarrow> string \<Rightarrow> nat option \<Rightarrow> nat \<Rightarrow> channel_entry" where
  "sample_entry_row i p n r d =
     \<lparr>en_entry_id = i, en_channel_name = ''x'', en_package_name = p, en_operatorbundle_name = n, en_replaces = r, en_depth = d\<rparr>"

definition two_packages :: database where
  "two_packages = (empty_database True True)
     \<lparr>t_operatorbundle := map sample_bundle_row [''a'', ''b'', ''c''],
      t_package := [\<lparr>pk_name = ''p'', pk_default_channel = Some ''x''\<rparr>, \<lparr>pk_name = ''q'', pk_default_channel = None\<rparr>],
      t_channel := [\<lparr>ch_name = ''x'', ch_package_name = ''p'', ch_head_operatorbundle_name = ''b''\<rparr>,
                    \<lparr>ch_name = ''x'', ch_package_name = ''q'', ch_head_operatorbundle_name = ''c''\<rparr>],
      t_channel_entry := [sample_entry_row 1 ''p'' ''b'' (Some 2) 0, sample_entry_row 2 ''p'' ''a'' None 1, sample_entry_row 3 ''q'' ''c'' None 0]\<rparr>"

theorem RemovePackage_spec_witness:
  "\<exists>db'. RemovePackage ''p'' two_packages = (None, db') \<and> t_channel_entry db' = [sample_entry_row 3 ''q'' ''c'' None 0]
     \<and> t_operatorbundle db' = [sample_bundle_row ''c'']"
proof -
  have 1: "store_ok two_packages" by code_simp
  have 2: "packages_apart two_packages" by code_simp
  have 3: "filter (\<lambda>e. en_package_name e \<noteq> ''p'') (t_channel_entry two_packages) = [sample_entry_row 3 ''q'' ''c'' None 0]"
    by code_simp
  have 4: "filter (\<lambda>b. ob_name b \<in> en_operatorbundle_name ` set [sample_entry_row 3 ''q'' ''c'' None 0]) (t_operatorbundle two_packages)
      = [sample_bundle_row ''c'']" by code_simp
  obtain db' where db': "RemovePackage ''p'' two_packages = (None, db')"
      "t_channel_entry db' = filter (\<lambda>e. en_package_name e \<noteq> ''p'') (t_channel_entry two_packages)"
      "t_operatorbundle db' = filter (\<lambda>b. ob_name b \<in> en_operatorbundle_name ` set (t_channel_entry db')) (t_operatorbundle two_packages)"
    using RemovePackage_spec [OF 1 2, of "''p''"] by blast
  from db'(1) db'(2) [unfolded 3] db'(3) [unfolded db'(2) 3 4] show ?thesis by blast
qed

end
