(* ===== verification/Sqlite_Deprecate.thy ===== *)
theory Sqlite_Deprecate
  imports Sqlite_Remove
begin

text \<open>
  Deprecation of a bundle: the tail that the traversal finds is what the bundle reaches by replaces and skips, and a
  successful deprecation truncates the channels there without removing a package.
\<close>

section \<open>The tail of a bundle\<close>

definition links :: "database \<Rightarrow> (string \<times> string) set" where
  "links db = {(a, b). b \<in> set (tail_links db a)}"

text \<open>What is known when the loop has the names \<open>next\<close> to visit: a name found before and not in \<open>next\<close> is done.\<close>

definition tail_inv :: "database \<Rightarrow> string \<Rightarrow> string list \<Rightarrow> string list \<Rightarrow> bool" where
  "tail_inv db head next visited \<longleftrightarrow>
     distinct visited \<and> set visited \<subseteq> (links db)\<^sup>+ `` {head} \<and> set next \<subseteq> insert head (set visited)
   \<and> (\<forall>b \<in> insert head (set visited) - set next. set (tail_links db b) \<subseteq> set visited \<and> \<not> isDefaultChannelHead db b)"

lemma tail_inv_step:
  assumes inv: "tail_inv db head (b # next) visited" and ok: "\<not> isDefaultChannelHead db b"
    and step: "fold visit_link (tail_links db b) (next, visited) = (next', visited')"
  shows "tail_inv db head next' visited'"
proof -
  obtain new where new: "next' = next @ new" "visited' = visited @ new" "set new = set (tail_links db b) - set visited" "distinct new"
    using visit_links [OF step] by blast
  have b: "b = head \<or> (head, b) \<in> (links db)\<^sup>+" using inv by (auto simp: tail_inv_def)
  then have "(head, x) \<in> (links db)\<^sup>+" if "x \<in> set (tail_links db b)" for x
    using that by (auto simp: links_def intro: trancl_into_trancl)
  then have "set visited' \<subseteq> (links db)\<^sup>+ `` {head}" using inv new by (auto simp: tail_inv_def)
  moreover have "distinct visited'" "set next' \<subseteq> insert head (set visited')" using inv new by (auto simp: tail_inv_def)
  moreover have "set (tail_links db c) \<subseteq> set visited' \<and> \<not> isDefaultChannelHead db c" if c: "c \<in> insert head (set visited') - set next'" for c
  proof (cases "c = b")
    case True
    then show ?thesis using new ok by auto
  next
    case False
    with c new have "c \<in> insert head (set visited) - set (b # next)" by auto
    then show ?thesis using inv new(2) unfolding tail_inv_def by auto
  qed
  ultimately show ?thesis unfolding tail_inv_def by blast
qed

lemma tail_closed:
  assumes "tail_inv db head [] visited"
  shows "set visited = (links db)\<^sup>+ `` {head}"
proof
  show "set visited \<subseteq> (links db)\<^sup>+ `` {head}" using assms by (simp add: tail_inv_def)
  have closed: "x \<in> set visited" if "(a, x) \<in> links db" "a \<in> insert head (set visited)" for a x
    using that assms unfolding tail_inv_def links_def by auto
  show "(links db)\<^sup>+ `` {head} \<subseteq> set visited"
  proof
    fix x assume "x \<in> (links db)\<^sup>+ `` {head}"
    then have "(head, x) \<in> (links db)\<^sup>+" by simp
    then show "x \<in> set visited" by (induction rule: trancl_induct) (auto intro: closed)
  qed
qed

lemma tail_loop_spec:
  assumes "tail_inv db head next visited"
  shows "case tail_loop db next visited of
      Inl e \<Rightarrow> e = RemovingDefaultChannel \<and> (\<exists>b. (head, b) \<in> (links db)\<^sup>* \<and> isDefaultChannelHead db b)
    | Inr tail \<Rightarrow> tail_inv db head [] tail"
  using assms
proof (induction db "next" visited rule: tail_loop.induct)
  case (2 db b "next" visited)
  obtain next' visited' where step: "fold visit_link (tail_links db b) (next, visited) = (next', visited')" by fastforce
  show ?case
  proof (cases "isDefaultChannelHead db b")
    case True
    have "(head, b) \<in> (links db)\<^sup>*" using 2(2) by (auto simp: tail_inv_def dest: trancl_into_rtrancl)
    with True show ?thesis by auto
  next
    case False
    with 2(1) [OF False step [symmetric]] tail_inv_step [OF 2(2) False step] show ?thesis by (simp add: step)
  qed
qed simp

lemma getTailFromBundle_cases:
  "case getTailFromBundle db head of
     Inl e \<Rightarrow> e = RemovingDefaultChannel \<and> (\<exists>b. (head, b) \<in> (links db)\<^sup>* \<and> isDefaultChannelHead db b)
   | Inr tail \<Rightarrow> distinct tail \<and> set tail = (links db)\<^sup>+ `` {head} \<and> list_all (\<lambda>b. \<not> isDefaultChannelHead db b) (head # tail)"
proof -
  have "tail_inv db head [head] []" by (simp add: tail_inv_def)
  from tail_loop_spec [OF this] show ?thesis
    by (auto simp: getTailFromBundle_def tail_closed split: sum.splits) (auto simp: tail_inv_def list_all_iff)
qed


section \<open>Deprecating a bundle\<close>

text \<open>No channel with one of these heads has the name of a default channel, so a package loses nothing with them.\<close>

definition no_default :: "string set \<Rightarrow> database \<Rightarrow> bool" where
  "no_default S db \<longleftrightarrow> (\<forall>n \<in> S. \<not> isDefaultChannelHead db n)"

lemma no_default_mono:
  "no_default S db \<Longrightarrow> set (t_channel db') \<subseteq> set (t_channel db) \<Longrightarrow> t_package db' = t_package db \<Longrightarrow> no_default S db'"
  unfolding no_default_def isDefaultChannelHead_def list_ex_iff by auto

lemma delete_heads_packages:
  assumes "\<not> isDefaultChannelHead db n"
  shows "t_package (delete_channel (\<lambda>c. ch_head_operatorbundle_name c = n) db) = t_package db"
proof -
  let ?ks = "map channel_key (filter (\<lambda>c. ch_head_operatorbundle_name c = n) (t_channel db))"
  have "\<not> default_in ?ks p" if "p \<in> set (t_package db)" for p
  proof (cases "pk_default_channel p")
    case (Some x)
    then have "ch_name c \<noteq> x" if "c \<in> set (t_channel db)" "ch_head_operatorbundle_name c = n" for c
      using that assms \<open>p \<in> set (t_package db)\<close> unfolding isDefaultChannelHead_def list_ex_iff by blast
    then show ?thesis by (auto simp: default_in_def channel_key_def Some)
  qed (simp add: default_in_def)
  then show ?thesis unfolding delete_channel_tables by (intro filter_True) blast
qed

text \<open>What the loop over the tail does for one bundle.\<close>

definition drop_bundle :: "string \<Rightarrow> database \<Rightarrow> database" where
  "drop_bundle b db = rmBundle b (rmChannelEntry b db)"

lemma unlink_tables:
  "t_operatorbundle (fold (\<lambda>i. update_channel_entry (\<lambda>e. en_replaces e = Some i) None) is db) = t_operatorbundle db"
  "t_package (fold (\<lambda>i. update_channel_entry (\<lambda>e. en_replaces e = Some i) None) is db) = t_package db"
  "t_channel (fold (\<lambda>i. update_channel_entry (\<lambda>e. en_replaces e = Some i) None) is db) = t_channel db"
  "t_deprecated (fold (\<lambda>i. update_channel_entry (\<lambda>e. en_replaces e = Some i) None) is db) = t_deprecated db"
  "map en_operatorbundle_name (t_channel_entry (fold (\<lambda>i. update_channel_entry (\<lambda>e. en_replaces e = Some i) None) is db))
     = map en_operatorbundle_name (t_channel_entry db)"
  by (induction "is" arbitrary: db) (simp_all add: update_channel_entry_def)

lemma rmChannelEntry_tables:
  "t_operatorbundle (rmChannelEntry n db) = t_operatorbundle db"
  "t_channel (rmChannelEntry n db) = filter (\<lambda>c. ch_head_operatorbundle_name c \<noteq> n) (t_channel db)"
  "t_deprecated (rmChannelEntry n db) = t_deprecated db"
  "en_operatorbundle_name ` set (t_channel_entry (rmChannelEntry n db)) \<subseteq> en_operatorbundle_name ` set (t_channel_entry db)"
proof -
  let ?d = "fold (\<lambda>i. update_channel_entry (\<lambda>e. en_replaces e = Some i) None)
    (map en_entry_id (filter (\<lambda>e. en_operatorbundle_name e = n) (t_channel_entry db))) db"
  have "en_operatorbundle_name ` set (t_channel_entry ?d) = en_operatorbundle_name ` set (t_channel_entry db)"
    using unlink_tables(5) by (metis list.set_map)
  moreover have "set (t_channel_entry (rmChannelEntry n db)) \<subseteq> set (t_channel_entry ?d)"
    by (auto simp: rmChannelEntry_def Let_def delete_channel_tables)
  ultimately show "en_operatorbundle_name ` set (t_channel_entry (rmChannelEntry n db)) \<subseteq> en_operatorbundle_name ` set (t_channel_entry db)"
    by blast
qed (simp_all add: rmChannelEntry_def Let_def delete_channel_tables unlink_tables)

lemma isDefaultChannelHead_cong:
  "t_channel db' = t_channel db \<Longrightarrow> t_package db' = t_package db \<Longrightarrow> isDefaultChannelHead db' n = isDefaultChannelHead db n"
  by (simp add: isDefaultChannelHead_def)

lemma rmChannelEntry_packages: "\<not> isDefaultChannelHead db n \<Longrightarrow> t_package (rmChannelEntry n db) = t_package db"
  using delete_heads_packages isDefaultChannelHead_cong [OF unlink_tables(3) unlink_tables(2)]
  by (simp add: rmChannelEntry_def Let_def unlink_tables)

lemma rmBundle_headless:
  assumes "\<And>c. c \<in> set (t_channel db) \<Longrightarrow> ch_head_operatorbundle_name c \<noteq> n"
  shows "t_channel (rmBundle n db) = t_channel db \<and> t_package (rmBundle n db) = t_package db
    \<and> t_channel_entry (rmBundle n db) = filter (\<lambda>e. en_operatorbundle_name e \<noteq> n) (t_channel_entry db)"
proof -
  have "outside p UNIV db (delete_operatorbundle (\<lambda>b. ob_name b = n) db)" for p
    by (rule delete_operatorbundle_outside) (use assms in auto)
  from outside_all [OF this] show ?thesis
    by (simp add: rmBundle_def delete_channel_entry_def shrinks_tables [OF delete_api_shrinks(1)] shrinks_tables [OF delete_api_shrinks(2)])
qed

lemma deprecated_delete: "t_deprecated (delete_operatorbundle P db) = t_deprecated db"
proof -
  have "t_deprecated (fold delete_bundle_row bs db) = t_deprecated db" for bs db
    by (induction bs arbitrary: db) (simp_all add: delete_bundle_row_tables)
  then show ?thesis by (simp add: delete_operatorbundle_def)
qed

lemma drop_bundle_tables:
  assumes "db_ok db" and "\<not> isDefaultChannelHead db n"
  shows "db_ok (drop_bundle n db)"
    and "t_package (drop_bundle n db) = t_package db"
    and "t_channel (drop_bundle n db) = filter (\<lambda>c. ch_head_operatorbundle_name c \<noteq> n) (t_channel db)"
    and "t_operatorbundle (drop_bundle n db) = filter (\<lambda>b. ob_name b \<noteq> n) (t_operatorbundle db)"
    and "t_deprecated (drop_bundle n db) = t_deprecated db"
    and "en_operatorbundle_name ` set (t_channel_entry (drop_bundle n db)) \<subseteq> en_operatorbundle_name ` set (t_channel_entry db) - {n}"
proof -
  let ?d = "rmChannelEntry n db"
  have ok: "db_ok ?d" by (rule rmChannelEntry_ok [OF assms(1)])
  show "db_ok (drop_bundle n db)" unfolding drop_bundle_def by (rule rmBundle_ok [OF ok])
  have headless: "\<And>c. c \<in> set (t_channel ?d) \<Longrightarrow> ch_head_operatorbundle_name c \<noteq> n" by (simp add: rmChannelEntry_tables)
  note h = rmBundle_headless [of ?d n, OF headless] and t = rmChannelEntry_tables [where db = db and n = n]
  show "t_package (drop_bundle n db) = t_package db" using h rmChannelEntry_packages [OF assms(2)] by (simp add: drop_bundle_def)
  show "t_channel (drop_bundle n db) = filter (\<lambda>c. ch_head_operatorbundle_name c \<noteq> n) (t_channel db)" using h t by (simp add: drop_bundle_def)
  show "t_operatorbundle (drop_bundle n db) = filter (\<lambda>b. ob_name b \<noteq> n) (t_operatorbundle db)"
    using t by (simp add: drop_bundle_def rmBundle_tables(1) [OF ok])
  show "t_deprecated (drop_bundle n db) = t_deprecated db"
    by (simp add: drop_bundle_def rmBundle_def delete_channel_entry_def shrinks_tables [OF delete_api_shrinks(1)]
        shrinks_tables [OF delete_api_shrinks(2)] deprecated_delete t)
  show "en_operatorbundle_name ` set (t_channel_entry (drop_bundle n db)) \<subseteq> en_operatorbundle_name ` set (t_channel_entry db) - {n}"
    using h t(4) by (auto simp: drop_bundle_def)
qed

lemma less_names: "A \<subseteq> B - S \<Longrightarrow> B \<subseteq> C - {n} \<Longrightarrow> A \<subseteq> C - insert n S"
  by blast

lemma drop_bundles_tables:
  assumes "db_ok db" and "no_default (set ns) db"
  shows "db_ok (fold drop_bundle ns db) \<and> t_package (fold drop_bundle ns db) = t_package db
    \<and> t_channel (fold drop_bundle ns db) = filter (\<lambda>c. ch_head_operatorbundle_name c \<notin> set ns) (t_channel db)
    \<and> t_operatorbundle (fold drop_bundle ns db) = filter (\<lambda>b. ob_name b \<notin> set ns) (t_operatorbundle db)
    \<and> t_deprecated (fold drop_bundle ns db) = t_deprecated db
    \<and> en_operatorbundle_name ` set (t_channel_entry (fold drop_bundle ns db)) \<subseteq> en_operatorbundle_name ` set (t_channel_entry db) - set ns"
  using assms
proof (induction ns arbitrary: db)
  case (Cons n ns)
  have n: "\<not> isDefaultChannelHead db n" using Cons.prems(2) by (simp add: no_default_def)
  note t = drop_bundle_tables [OF Cons.prems(1) n]
  have "no_default (set ns) (drop_bundle n db)"
    by (rule no_default_mono [of "set ns" db]) (use Cons.prems(2) t in \<open>auto simp: no_default_def\<close>)
  note IH = Cons.IH [OF t(1) this]
  have "en_operatorbundle_name ` set (t_channel_entry (fold drop_bundle ns (drop_bundle n db)))
      \<subseteq> en_operatorbundle_name ` set (t_channel_entry db) - insert n (set ns)"
    by (rule less_names [OF _ t(6)]) (use IH in \<open>elim conjE\<close>)
  with IH t(2-5) show ?case by (simp add: conj_commute)
qed simp

lemma fold_drop: "fold (\<lambda>b db. rmBundle b (rmChannelEntry b db)) ns = fold drop_bundle ns"
  by (rule ext, rule fold_cong) (simp_all add: drop_bundle_def fun_eq_iff)


definition sample_chain :: database where
  "sample_chain = (empty_database True True)
     \<lparr>t_operatorbundle := [sample_bundle_row ''a'', sample_bundle_row ''b''\<lparr>ob_replaces := Some ''a''\<rparr>, sample_bundle_row ''c''\<lparr>ob_replaces := Some ''b''\<rparr>],
      t_package := [\<lparr>pk_name = ''p'', pk_default_channel = Some ''x''\<rparr>],
      t_channel := [\<lparr>ch_name = ''x'', ch_package_name = ''p'', ch_head_operatorbundle_name = ''c''\<rparr>],
      t_channel_entry := [sample_entry_row 1 ''p'' ''c'' (Some 2) 0, sample_entry_row 2 ''p'' ''b'' (Some 3) 1, sample_entry_row 3 ''p'' ''a'' None 2]\<rparr>"


end
