(* ===== verification/Sqlite_Subst.thy ===== *)
theory Sqlite_Subst
  imports Sqlite_Inv
begin

text \<open>
  The loops of \<open>addSubstitutesFor\<close> follow the column \<^verbatim>\<open>substitutesfor\<close> in both directions, and one of them changes it
  as it goes. They end when the column has no cycle, which the changes keep; a bundle that substitutes for itself makes them
  run forever.
\<close>

section \<open>Moving a node in a forest\<close>

text \<open>
  \<open>r\<close> has the pairs of a node and its parent, \<open>x\<close> is the node that is moved about, \<open>W\<close> are the nodes to compare it with.
  Moving \<open>x\<close> below \<open>w\<close>, or \<open>w\<close> below \<open>x\<close>, makes no cycle where none of the nodes reaches another.
\<close>

definition unrelated :: "('a \<times> 'a) set \<Rightarrow> 'a \<Rightarrow> 'a set \<Rightarrow> bool" where
  "unrelated r x W \<longleftrightarrow>
     acyclic r \<and> (\<forall>w \<in> W. (w, x) \<notin> r\<^sup>* \<and> (x, w) \<notin> r\<^sup>*) \<and> (\<forall>w \<in> W. \<forall>v \<in> W. (w, v) \<in> r\<^sup>* \<longrightarrow> w = v)"

definition below :: "('a \<times> 'a) set \<Rightarrow> 'a set \<Rightarrow> 'a set" where
  "below r W = {n. \<exists>w \<in> W. (n, w) \<in> r\<^sup>*}"

lemma rtrancl_new_edge:
  assumes "(a, b) \<in> r'\<^sup>*" and "r' \<subseteq> insert (x, y) r"
  shows "(a, b) \<in> r\<^sup>* \<or> (a, x) \<in> r\<^sup>* \<and> (y, b) \<in> r\<^sup>*"
  using rtrancl_mono [OF assms(2)] assms(1) by (auto simp: rtrancl_insert)

lemma acyclic_new_edge: "acyclic r \<Longrightarrow> (y, x) \<notin> r\<^sup>* \<Longrightarrow> r' \<subseteq> insert (x, y) r \<Longrightarrow> acyclic r'"
  using acyclic_subset [of "insert (x, y) r" r'] by simp

lemma rtrancl_first: "(m, b) \<in> r\<^sup>* \<Longrightarrow> m \<noteq> b \<Longrightarrow> (m, p) \<in> r \<Longrightarrow> single_valued r \<Longrightarrow> (p, b) \<in> r\<^sup>*"
  by (erule converse_rtranclE) (auto dest: single_valuedD)

lemma acyclic_back: "acyclic r \<Longrightarrow> (m, p) \<in> r \<Longrightarrow> (p, m) \<notin> r\<^sup>*"
  by (auto simp: acyclic_def dest: rtrancl_into_trancl2)

text \<open>The node goes below \<open>w\<close>, and the other children \<open>C\<close> of \<open>w\<close> take its place among the nodes to compare with.\<close>

lemma move_below:
  assumes inv: "unrelated r x (insert w W)" and w: "w \<notin> W" and r': "r' \<subseteq> insert (x, w) r" and single: "single_valued r"
    and C: "C \<subseteq> {m. (m, w) \<in> r}"
  shows "unrelated r' x (W \<union> C) \<and> w \<notin> below r' (W \<union> C) \<and> below r' (W \<union> C) \<subseteq> below r (insert w W)"
proof -
  note edge = rtrancl_new_edge [OF _ r']
  have ac: "acyclic r" and wx: "(w, x) \<notin> r\<^sup>*" "(x, w) \<notin> r\<^sup>*" using inv by (simp_all add: unrelated_def)
  have W: "(v, x) \<notin> r\<^sup>*" "(x, v) \<notin> r\<^sup>*" "(w, v) \<notin> r\<^sup>*" "(v, w) \<notin> r\<^sup>*" if "v \<in> W" for v
    using inv that w unfolding unrelated_def by blast+
  have Cr: "(m, w) \<in> r" "(w, m) \<notin> r\<^sup>*" "m \<noteq> x" if "m \<in> C" for m
    using that C acyclic_back [OF ac] wx(2) by blast+
  have up: "(w, b) \<in> r\<^sup>*" if "m \<in> C" "(m, b) \<in> r\<^sup>*" "m \<noteq> b" for m b
    using rtrancl_first [OF that(2,3) Cr(1) [OF that(1)] single] .
  have down: "(a, w) \<in> r\<^sup>*" if "m \<in> C" "(a, m) \<in> r\<^sup>*" for a m using that Cr(1) by (meson rtrancl.rtrancl_into_rtrancl)
  have 1: "acyclic r'" by (rule acyclic_new_edge [OF ac wx(1) r'])
  have 2: "(v, x) \<notin> r'\<^sup>* \<and> (x, v) \<notin> r'\<^sup>*" if "v \<in> W \<union> C" for v
    using that
  proof
    assume "v \<in> W" then show ?thesis using W edge by blast
  next
    assume "v \<in> C" then show ?thesis using Cr up down wx edge by blast
  qed
  have 3: "a = b" if ab: "a \<in> W \<union> C" "b \<in> W \<union> C" "(a, b) \<in> r'\<^sup>*" for a b
  proof -
    have "(a, x) \<notin> r\<^sup>*" using ab(1) W Cr up wx by blast
    with edge [OF ab(3)] have path: "(a, b) \<in> r\<^sup>*" by blast
    consider "a \<in> W" "b \<in> W" | "a \<in> W" "b \<in> C" | "a \<in> C" using ab by blast
    then show ?thesis
    proof cases
      case 1 then show ?thesis using inv path unfolding unrelated_def by blast
    next
      case 2 then show ?thesis using down path W by blast
    next
      case 3 then show ?thesis using up [OF 3 path] ab(2) W Cr by blast
    qed
  qed
  have 4: "below r' (W \<union> C) \<subseteq> below r (insert w W)" unfolding below_def using edge W Cr down by blast
  have 5: "w \<notin> below r' (W \<union> C)" unfolding below_def using edge W Cr wx by blast
  from 1 2 3 4 5 show ?thesis unfolding unrelated_def by blast
qed

text \<open>The compared node goes below the other one.\<close>

lemma move_above:
  assumes inv: "unrelated r x (insert w W)" and w: "w \<notin> W" and r': "r' \<subseteq> insert (w, x) r"
  shows "unrelated r' x W \<and> w \<notin> below r' W \<and> below r' W \<subseteq> below r (insert w W)"
proof -
  note edge = rtrancl_new_edge [OF _ r']
  have ac: "acyclic r" and wx: "(w, x) \<notin> r\<^sup>*" "(x, w) \<notin> r\<^sup>*" using inv by (simp_all add: unrelated_def)
  have W: "(v, x) \<notin> r\<^sup>*" "(x, v) \<notin> r\<^sup>*" "(w, v) \<notin> r\<^sup>*" "(v, w) \<notin> r\<^sup>*" if "v \<in> W" for v
    using inv that w unfolding unrelated_def by blast+
  have 1: "acyclic r'" by (rule acyclic_new_edge [OF ac wx(2) r'])
  have 2: "(v, x) \<notin> r'\<^sup>* \<and> (x, v) \<notin> r'\<^sup>*" if "v \<in> W" for v using that W wx edge by blast
  have 3: "a = b" if "a \<in> W" "b \<in> W" "(a, b) \<in> r'\<^sup>*" for a b
    using edge [OF that(3)] W [OF that(1)] that(1,2) inv unfolding unrelated_def by blast
  have 4: "below r' W \<subseteq> below r (insert w W)" "w \<notin> below r' W" unfolding below_def using edge W by blast+
  from 1 2 3 4 show ?thesis unfolding unrelated_def by blast
qed

section \<open>The relation in the table\<close>

definition subs :: "database \<Rightarrow> (string \<times> string) set" where
  "subs db = {(n, m). n \<in> set (getBundlesThatSubstitutesFor db m)}"

lemma subs_iff: "(n, m) \<in> subs db \<longleftrightarrow> n \<noteq> [] \<and> (\<exists>b \<in> set (t_operatorbundle db). ob_name b = n \<and> ob_substitutesfor b = Some m)"
  by (auto simp: subs_def getBundlesThatSubstitutesFor_def)

lemma finite_subs: "finite (subs db)"
proof (rule finite_subset)
  show "subs db \<subseteq> set (map ob_name (t_operatorbundle db)) \<times> set (map (\<lambda>b. null_string (ob_substitutesfor b)) (t_operatorbundle db))"
    by (force simp: subs_iff null_string_def)
qed simp

lemma db_ok_names: "db_ok db \<Longrightarrow> distinct (map ob_name (t_operatorbundle db))"
  by (simp add: db_ok_def unique_keys_def)

lemma single_valued_subs: "db_ok db \<Longrightarrow> single_valued (subs db)"
  by (fastforce simp: single_valued_def subs_iff dest!: db_ok_names simp: distinct_map dest: inj_onD)

lemma distinct_substitutions: "db_ok db \<Longrightarrow> distinct (getBundlesThatSubstitutesFor db m)"
  by (simp add: getBundlesThatSubstitutesFor_def distinct_map_filter db_ok_names)

lemma subs_set_substitutesfor: "subs (set_substitutesfor m n db) \<subseteq> insert (n, m) (subs db)"
  by (auto simp: subs_iff set_substitutesfor_def update_operatorbundle_def split: if_splits)

lemma subs_set_other: "k \<noteq> n \<Longrightarrow> (k, l) \<in> subs (set_substitutesfor m n db) \<Longrightarrow> (k, l) \<in> subs db"
  using subs_set_substitutesfor by blast

lemma substitutions_update:
  assumes "\<And>b. ob_name (f b) = ob_name b" and "\<And>b. ob_substitutesfor (f b) = ob_substitutesfor b"
  shows "getBundlesThatSubstitutesFor (update_operatorbundle P f db) m = getBundlesThatSubstitutesFor db m"
proof -
  have "map ob_name (filter (\<lambda>b. ob_substitutesfor b = Some m) (map (\<lambda>b. if P b then f b else b) bs))
      = map ob_name (filter (\<lambda>b. ob_substitutesfor b = Some m) bs)" for bs
    by (induction bs) (simp_all add: assms)
  then show ?thesis by (simp add: getBundlesThatSubstitutesFor_def update_operatorbundle_def)
qed

lemma subs_update:
  assumes "\<And>b. ob_name (f b) = ob_name b" and "\<And>b. ob_substitutesfor (f b) = ob_substitutesfor b"
  shows "subs (update_operatorbundle P f db) = subs db"
  using substitutions_update [of f P db, OF assms] by (simp add: subs_def)

lemma subs_appendSkips: "appendSkips skips n db = Inr db' \<Longrightarrow> subs db' = subs db"
  by (auto simp: appendSkips_def Let_def subs_update)

lemma subs_substitution:
  assumes "getBundleSubstitution db n \<noteq> []" and "n \<noteq> []"
  shows "(n, getBundleSubstitution db n) \<in> subs db"
proof (cases "bundle_row db n")
  case (Some b)
  then have "b \<in> set (t_operatorbundle db)" "ob_name b = n"
    by (auto simp: bundle_row_def find_Some_iff)
  with assms Some show ?thesis
    by (cases "ob_substitutesfor b") (auto simp: subs_iff getBundleSubstitution_def null_string_def)
qed (use assms in \<open>simp add: getBundleSubstitution_def\<close>)

lemma finite_below: "finite r \<Longrightarrow> finite W \<Longrightarrow> finite (below r W)"
proof (rule finite_subset)
  show "below r W \<subseteq> Field r \<union> W"
    by (auto simp: below_def Field_def elim: converse_rtranclE)
qed (simp add: finite_Field)

section \<open>The comparison with the other substitutions\<close>

lemma card_below_less:
  assumes "w \<notin> A" and "A \<subseteq> below r (insert w W)" and "finite r" and "finite W"
  shows "card A < card (below r (insert w W))"
proof (rule psubset_card_mono)
  show "finite (below r (insert w W))" using assms(3,4) by (simp add: finite_below)
  have "w \<in> below r (insert w W)" by (auto simp: below_def)
  with assms(1,2) show "A \<subset> below r (insert w W)" by blast
qed

lemma compare_lower:
  fixes db and x and others :: "string list"
  assumes ok: "db_ok db" and inv: "unrelated (subs db) x (set (w # others) - {x})" and d: "distinct (filter (\<lambda>n. n \<noteq> x) (w # others))"
    and w: "w \<noteq> x"
  defines "db1 \<equiv> set_substitutesfor w x db"
  defines "others1 \<equiv> others @ getBundlesThatSubstitutesFor db1 w"
  shows "unrelated (subs db1) x (set others1 - {x})" and "distinct (filter (\<lambda>n. n \<noteq> x) others1)"
    and "card (below (subs db1) (set others1 - {x})) < card (below (subs db) (set (w # others) - {x}))"
proof -
  let ?W = "set others - {x}" and ?C = "set (getBundlesThatSubstitutesFor db1 w) - {x}"
  have W: "set (w # others) - {x} = insert w ?W" "w \<notin> ?W" using w d by auto
  have C: "?C \<subseteq> {m. (m, w) \<in> subs db}"
    using subs_set_other [of _ x w w db] by (auto simp: db1_def subs_def)
  have set1: "set others1 - {x} = ?W \<union> ?C" by (auto simp: others1_def)
  note moved = move_below [OF inv [unfolded W(1)] W(2) subs_set_substitutesfor single_valued_subs [OF ok] C, folded db1_def set1]
  from moved show "unrelated (subs db1) x (set others1 - {x})" by blast
  from moved show "card (below (subs db1) (set others1 - {x})) < card (below (subs db) (set (w # others) - {x}))"
    unfolding W(1) by (blast intro: card_below_less finite_subs)
  have "m \<notin> ?W" if "m \<in> ?C" for m
  proof
    assume m: "m \<in> ?W"
    have r: "(m, w) \<in> subs db" using C that by blast
    then have "m = w" using inv m unfolding W(1) unrelated_def by blast
    with m W(2) show False by blast
  qed
  moreover have "distinct (filter (\<lambda>n. n \<noteq> x) (getBundlesThatSubstitutesFor db1 w))"
    by (simp add: distinct_substitutions db1_def set_substitutesfor_ok ok)
  ultimately show "distinct (filter (\<lambda>n. n \<noteq> x) others1)" using d w by (auto simp: others1_def)
qed

lemma compare_higher:
  fixes db and x and others :: "string list"
  assumes inv: "unrelated (subs db) x (set (w # others) - {x})" and d: "distinct (filter (\<lambda>n. n \<noteq> x) (w # others))"
    and w: "w \<noteq> x" and r: "subs db1 \<subseteq> insert (w, x) (subs db)"
  shows "unrelated (subs db1) x (set others - {x})"
    and "card (below (subs db1) (set others - {x})) < card (below (subs db) (set (w # others) - {x}))"
proof -
  let ?W = "set others - {x}"
  have W: "set (w # others) - {x} = insert w ?W" "w \<notin> ?W" using w d by auto
  note moved = move_above [OF inv [unfolded W(1)] W(2) r]
  from moved show "unrelated (subs db1) x (set others - {x})" by blast
  from moved show "card (below (subs db1) (set others - {x})) < card (below (subs db) (set (w # others) - {x}))"
    unfolding W(1) by (blast intro: card_below_less finite_subs)
qed

definition returns_acyclic :: "(load_error + database) option \<Rightarrow> bool" where
  "returns_acyclic r \<longleftrightarrow> (\<exists>y. r = Some y) \<and> (\<forall>db'. r = Some (Inr db') \<longrightarrow> acyclic (subs db'))"

lemma returns_acyclic_simps [simp]:
  "returns_acyclic (Some (Inl e))" "returns_acyclic (Some (Inr db)) \<longleftrightarrow> acyclic (subs db)"
  by (simp_all add: returns_acyclic_def)

lemma other_substitutions_returns:
  assumes "db_ok db" and "unrelated (subs db) csvName (set others - {csvName})" and "distinct (filter (\<lambda>n. n \<noteq> csvName) others)"
  shows "returns_acyclic (other_substitutions csvName version skips others db)"
  using assms
proof (induction "(card (below (subs db) (set others - {csvName})), length others)" arbitrary: others db
    rule: wf_induct_rule [OF wf_lex_prod [OF wf_less_than wf_less_than]])
  case step: 1
  note IH = step(1)
  show ?case
  proof (cases others)
    case Nil
    with step(3) show ?thesis by (subst other_substitutions.simps) (simp add: unrelated_def)
  next
    case (Cons other rest)
    show ?thesis
    proof (cases "other = csvName")
      case True
      have "returns_acyclic (other_substitutions csvName version skips rest db)"
        by (rule IH) (use step(2-4) Cons True in simp_all)
      then show ?thesis by (subst other_substitutions.simps) (simp add: Cons True)
    next
      case False
      note inv = step(3) [unfolded Cons] and d = step(4) [unfolded Cons]
      note lower = compare_lower [OF step(2) inv d False] and higher = compare_higher [OF inv d False]
      have low: "returns_acyclic (other_substitutions csvName version skips
          (rest @ getBundlesThatSubstitutesFor (set_substitutesfor other csvName db) other) (set_substitutesfor other csvName db))"
        by (rule IH) (use lower in \<open>simp_all add: Cons set_substitutesfor_ok step(2)\<close>)
      have high: "returns_acyclic (other_substitutions csvName version skips rest db1)"
        if app: "appendSkips (skips @ [csvName]) other (set_substitutesfor csvName other db) = Inr db1" for db1
      proof -
        have "subs db1 \<subseteq> insert (other, csvName) (subs db)"
          unfolding subs_appendSkips [OF app] by (rule subs_set_substitutesfor)
        from higher [OF this] show ?thesis
          by (intro IH) (use d False app in \<open>simp_all add: Cons appendSkips_ok set_substitutesfor_ok step(2)\<close>)
      qed
      show ?thesis unfolding Cons
        by (subst other_substitutions.simps)
          (simp add: False Let_def low high split: sum.split prod.split)
    qed
  qed
qed

lemma compare_substitutions_returns:
  assumes ok: "db_ok db" and ac: "acyclic (subs db)" and s: "s = [] \<or> (csvName, s) \<in> subs db"
  shows "returns_acyclic (compare_substitutions csvName version skips s db)"
proof (cases "s = []")
  case True
  with ac show ?thesis by (simp add: compare_substitutions_def)
next
  case False
  define db1 where "db1 = update_operatorbundle (\<lambda>r. ob_replaces r = Some s) (\<lambda>r. r\<lparr>ob_replaces := Some csvName\<rparr>) db"
  have ok1: "db_ok db1" unfolding db1_def using ok by (rule update_operatorbundle_ok) (simp add: same_key_def)
  have r: "subs db1 = subs db" unfolding db1_def by (rule subs_update) simp_all
  have csv: "(csvName, s) \<in> subs db" using s False by blast
  note first = rtrancl_first [OF _ _ _ single_valued_subs [OF ok]] and cycle = acyclic_back [OF ac]
  have "unrelated (subs db) csvName (set (getBundlesThatSubstitutesFor db1 s) - {csvName})"
  proof -
    have "(w, s) \<in> subs db" if "w \<in> set (getBundlesThatSubstitutesFor db1 s)" for w
      using that r by (auto simp: subs_def set_eq_iff)
    then show ?thesis unfolding unrelated_def using ac csv first cycle by blast
  qed
  then have "returns_acyclic (other_substitutions csvName version skips (getBundlesThatSubstitutesFor db1 s) db1)"
    by (intro other_substitutions_returns) (simp_all add: ok1 r distinct_substitutions)
  then show ?thesis using False by (simp add: compare_substitutions_def db1_def Let_def)
qed

section \<open>The loops that only read the column\<close>

lemma follow_end: "follow_substitutions db skips [] = Some skips"
  by (subst follow_substitutions.simps) simp

lemma follow_substitutions_returns:
  assumes "acyclic (subs db)"
  shows "\<exists>l. follow_substitutions db skips n = Some l"
proof -
  have "wf ((subs db)\<inverse>)" using finite_acyclic_wf_converse [OF finite_subs assms] .
  then show ?thesis
  proof (induction n arbitrary: skips rule: wf_induct_rule)
    case (less n)
    show ?case
    proof (cases "n = []")
      case False
      then have "\<exists>l. follow_substitutions db (skips @ [n]) (getBundleSubstitution db n) = Some l"
        using less subs_substitution [of db n] by (cases "getBundleSubstitution db n = []") (simp_all add: follow_end)
      with False show ?thesis by (subst follow_substitutions.simps) simp
    qed (simp add: follow_end)
  qed
qed

lemma push_skips_returns:
  assumes "wf r" and "subs db = r" and "\<And>n. n \<in> set ss \<Longrightarrow> (n, m) \<in> r"
  shows "\<exists>y. push_skips skips ss db = Some y \<and> (\<forall>b db'. y = Inr (b, db') \<longrightarrow> subs db' = r)"
  using assms
proof (induction m arbitrary: ss db rule: wf_induct_rule)
  case (less m)
  show ?case
  proof (cases ss)
    case (Cons s rest)
    show ?thesis
    proof (cases "appendSkips skips s db")
      case (Inr db1)
      have r: "subs db1 = r" using subs_appendSkips [OF Inr] less.prems(1) by simp
      then have "(n, s) \<in> r" if "n \<in> set (getBundlesThatSubstitutesFor db1 s)" for n using that by (auto simp: subs_def)
      with less.IH [of s db1] less.prems(2) Cons r
      have "\<exists>y. push_skips skips (getBundlesThatSubstitutesFor db1 s) db1 = Some y \<and> (\<forall>b db'. y = Inr (b, db') \<longrightarrow> subs db' = r)"
        by simp
      then show ?thesis by (subst push_skips.simps) (simp add: Cons Inr Let_def r)
    qed (subst push_skips.simps, simp add: Cons)
  qed (subst push_skips.simps, simp add: less.prems(1))
qed

lemma skip_substitutions_returns:
  assumes "wf (subs db)" and "\<And>n. n \<in> set ss \<Longrightarrow> (n, m) \<in> subs db"
  shows "\<exists>y. skip_substitutions db csvName ss acc = Some y"
  using assms
proof (induction m arbitrary: ss acc rule: wf_induct_rule)
  case (less m)
  have next_ones: "\<exists>y. skip_substitutions db csvName (getBundlesThatSubstitutesFor db s) acc = Some y" if "(s, m) \<in> subs db" for s acc
    using less.IH [OF that] by (simp add: subs_def)
  from less.prems show ?case
  proof (induction ss arbitrary: acc)
    case (Cons s rest)
    then show ?case by (subst skip_substitutions.simps) (simp add: Let_def next_ones)
  qed (simp add: skip_substitutions.simps)
qed

lemma collect_skips_returns: "wf (subs db) \<Longrightarrow> \<exists>y. collect_skips db csvName skips acc = Some y"
proof (induction skips arbitrary: acc)
  case (Cons skip skips)
  obtain y where "skip_substitutions db csvName (getBundlesThatSubstitutesFor db skip) (List.insert skip acc) = Some y"
    using skip_substitutions_returns [OF Cons.prems, of "getBundlesThatSubstitutesFor db skip" skip] by (auto simp: subs_def)
  then show ?case using Cons by (simp add: Let_def split: option.split)
qed simp

lemma latest_substitution_returns:
  assumes "wf (subs db)" and "\<And>n. n \<in> set ss \<Longrightarrow> (n, m) \<in> subs db"
  shows "\<exists>y. latest_substitution db m ss = Some y"
  using assms
proof (induction m arbitrary: ss rule: wf_induct_rule)
  case (less m)
  show ?case
  proof (cases ss)
    case (Cons s rest)
    then have "\<exists>y. latest_substitution db s (getBundlesThatSubstitutesFor db s) = Some y"
      using less.IH [of s "getBundlesThatSubstitutesFor db s"] less.prems by (simp add: subs_def)
    then show ?thesis by (subst latest_substitution.simps) (simp add: Cons Let_def)
  qed (simp add: latest_substitution.simps)
qed

lemma set_replaces_skips_returns:
  assumes "acyclic (subs db)"
  shows "returns_acyclic (set_replaces_skips csvName replaces skips db)"
proof -
  have wf: "wf (subs db)" using finite_acyclic_wf [OF finite_subs assms] .
  obtain y where y: "collect_skips db csvName skips [] = Some y" using collect_skips_returns [OF wf] by blast
  obtain z where z: "latest_substitution db replaces (getBundlesThatSubstitutesFor db replaces) = Some z"
    using latest_substitution_returns [OF wf] by (fastforce simp: subs_def)
  show ?thesis
    by (simp add: set_replaces_skips_def y z assms subs_update split: option.split)
qed

lemma pass_skips_returns:
  assumes "acyclic (subs db)"
  shows "returns_acyclic (pass_skips csvName replaces skips db)"
proof -
  have wf: "wf (subs db)" using finite_acyclic_wf [OF finite_subs assms] .
  obtain y where y: "push_skips (skips @ [csvName]) (getBundlesThatSubstitutesFor db csvName) db = Some y"
    and r: "\<And>b db'. y = Inr (b, db') \<Longrightarrow> subs db' = subs db"
    using push_skips_returns [OF wf refl, of "getBundlesThatSubstitutesFor db csvName" csvName] by (fastforce simp: subs_def)
  show ?thesis
    using assms r by (auto simp: pass_skips_def obind_def y set_replaces_skips_returns split: sum.split)
qed

section \<open>When the operation returns\<close>

text \<open>
  C24: when the column of the substitutions has no cycle once the row of the bundle is in the table, every loop of
  \<^verbatim>\<open>addSubstitutesFor\<close> ends, also the one that moves the bundle and the others below one another while it looks at
  them. The operation returns, with an error or with a database in which the column has no cycle either.
\<close>

theorem link_substitution_returns:
  assumes "db_ok db" and "acyclic (subs db)" and "substitutesFor = [] \<or> (csvName, substitutesFor) \<in> subs db"
  shows "\<exists>y. link_substitution csvName replaces skips version substitutesFor db = Some y
     \<and> (\<forall>db'. y = Inr db' \<longrightarrow> acyclic (subs db'))"
proof -
  have c: "returns_acyclic (compare_substitutions csvName version skips substitutesFor db)"
    by (rule compare_substitutions_returns [OF assms])
  then obtain y where y: "compare_substitutions csvName version skips substitutesFor db = Some y"
    by (auto simp: returns_acyclic_def)
  show ?thesis
  proof (cases y)
    case (Inr db1)
    with c y have ac: "acyclic (subs db1)" by simp
    obtain l where l: "follow_substitutions db1 skips (getBundleSubstitution db1 csvName) = Some l"
      using follow_substitutions_returns [OF ac] by blast
    show ?thesis using pass_skips_returns [OF ac, of csvName replaces l]
      by (auto simp: link_substitution_def y Inr obind_def l returns_acyclic_def)
  qed (simp add: link_substitution_def y obind_def)
qed

text \<open>Two rows: the second bundle substitutes for the first.\<close>

definition subst_row :: "string \<Rightarrow> string option \<Rightarrow> operatorbundle" where
  "subst_row name s = \<lparr>ob_name = name, ob_csv = None, ob_bundle = None, ob_bundlepath = None,
     ob_version = Some ''1.0.0'', ob_skiprange = None, ob_replaces = None, ob_skips = None, ob_substitutesfor = s\<rparr>"

definition subst_db :: database where
  "subst_db = (empty_database True True)\<lparr>t_operatorbundle := [subst_row ''a'' None, subst_row ''b'' (Some ''a'')]\<rparr>"

lemma subst_db_subs: "subs subst_db = {(''b'', ''a'')}"
  by (auto simp: subs_iff subst_db_def subst_row_def)

theorem link_substitution_returns_witness:
  "\<exists>y. link_substitution ''b'' [] [] ''1.0.0'' ''a'' subst_db = Some y \<and> (\<forall>db'. y = Inr db' \<longrightarrow> acyclic (subs db'))"
proof (rule link_substitution_returns)
  show "db_ok subst_db"
    by (simp add: db_ok_def unique_keys_def foreign_keys_def subst_db_def subst_row_def empty_database_def)
  show "acyclic (subs subst_db)" unfolding subst_db_subs by (simp add: acyclic_insert wf_acyclic)
qed (simp add: subst_db_subs)

section \<open>When it does not\<close>

text \<open>A set of names that the column never leaves.\<close>

lemma follow_forever:
  assumes "\<And>n. n \<in> C \<Longrightarrow> n \<noteq> [] \<and> getBundleSubstitution db n \<in> C" and "n \<in> C"
  shows "follow_substitutions db skips n = None"
proof (rule ccontr)
  assume "follow_substitutions db skips n \<noteq> None"
  then obtain l where "follow_substitutions db skips n = Some l" by blast
  then have "n \<notin> C" using assms(1)
  proof (induction rule: follow_substitutions.raw_induct [rotated, consumes 1])
    case step: (1 rec db skips n l)
    show ?case
    proof
      assume n: "n \<in> C"
      with step(3) have "n \<noteq> []" "getBundleSubstitution db n \<in> C" by blast+
      moreover from this(1) step(2) have "rec db (skips @ [n]) (getBundleSubstitution db n) = Some l" by simp
      ultimately show False using step(1) step(3) by blast
    qed
  qed
  with assms(2) show False by blast
qed

lemma substitution_of_subs:
  assumes "db_ok db" and "(n, m) \<in> subs db"
  shows "getBundleSubstitution db n = m"
proof -
  obtain b where b: "b \<in> set (t_operatorbundle db)" "ob_name b = n" "ob_substitutesfor b = Some m"
    using assms(2) by (auto simp: subs_iff)
  have "find (\<lambda>b. ob_name b = ob_name c) bs = Some c" if "distinct (map ob_name bs)" "c \<in> set bs" for bs c
    using that by (induction bs) (auto simp: image_iff)
  from this [OF db_ok_names [OF assms(1)] b(1)] show ?thesis
    by (simp add: getBundleSubstitution_def bundle_row_def b null_string_def)
qed



end
