(* ===== verification/Spec2Isabelle.thy ===== *)
theory Spec2Isabelle
  imports Declcfg_Props Graph_Props Sqlite_Deprecate Sqlite_Subst
begin

text \<open>The root of the development.\<close>

end
